(* ===== verification/Prelude.thy ===== *)
theory Prelude
  imports Main "HOL-Library.Sublist" "HOL-Library.Char_ord" "HOL-Library.List_Lexorder" "HOL-Library.Word"
begin

text \<open>
  Shared vocabulary of the development: Go values and errors, the early-return idiom as a bind on
  sums, joining and splitting of strings at a separator, and generic list lemmas.

  A Go \<^verbatim>\<open>string\<close> is a sequence of bytes; it is an Isabelle \<open>string\<close>, whose characters are
  bytes. A function that returns \<^verbatim>\<open>(T, error)\<close> returns a sum, with the error text on the left.
\<close>

section \<open>Results and early returns\<close>

type_synonym 'a result = "string + 'a"
type_synonym gomap = "string \<Rightarrow> string option"

text \<open>The nine permission bits of a file mode.\<close>

type_synonym perm = "9 word"

named_theorems result_simps \<open>inversion of early returns\<close>
named_theorems path_simps \<open>facts on cleaned paths and their components\<close>
named_theorems fs_simps \<open>facts on the file-system operations\<close>

text \<open>\<^verbatim>\<open>v, err := x; if err != nil { return err }\<close> followed by the rest of the body.\<close>

definition bindE :: "'e + 'a \<Rightarrow> ('a \<Rightarrow> 'e + 'b) \<Rightarrow> 'e + 'b" where
  "bindE x f = (case x of Inl e \<Rightarrow> Inl e | Inr v \<Rightarrow> f v)"

definition is_ok :: "'e + 'a \<Rightarrow> bool" where
  "is_ok x = (case x of Inl _ \<Rightarrow> False | Inr _ \<Rightarrow> True)"

lemma bindE_simps [simp]:
  "bindE (Inl e) f = Inl e"
  "bindE (Inr v) f = f v"
  by (simp_all add: bindE_def)

lemma bindE_eq_Inr [result_simps]:
  "(bindE x f = Inr y) \<longleftrightarrow> (\<exists>v. x = Inr v \<and> f v = Inr y)"
  by (cases x) auto

lemma bindE_eq_Inl [result_simps]:
  "(bindE x f = Inl e) \<longleftrightarrow> (x = Inl e \<or> (\<exists>v. x = Inr v \<and> f v = Inl e))"
  by (cases x) auto

lemma is_ok_simps [simp]:
  "is_ok (Inl e) = False"
  "is_ok (Inr v) = True"
  by (simp_all add: is_ok_def)

lemma is_ok_iff: "is_ok x \<longleftrightarrow> (\<exists>v. x = Inr v)"
  by (cases x) auto

lemma not_is_ok_iff: "\<not> is_ok x \<longleftrightarrow> (\<exists>e. x = Inl e)"
  by (cases x) auto

text \<open>Reading a Go map: a missing key reads as the zero value.\<close>

definition mget :: "gomap \<Rightarrow> string \<Rightarrow> string" where
  "mget m k = (case m k of None \<Rightarrow> [] | Some v \<Rightarrow> v)"

lemma mget_upd [simp]: "mget (m(k \<mapsto> v)) k' = (if k' = k then v else mget m k')"
  by (simp add: mget_def)

lemma mget_empty [simp]: "mget Map.empty k = []"
  by (simp add: mget_def)

section \<open>Splitting and joining at a separator\<close>

text \<open>\<^verbatim>\<open>strings.Split(s, sep)\<close> for a one-byte separator, and its inverse \<^verbatim>\<open>strings.Join\<close>.\<close>

fun split_on :: "char \<Rightarrow> string \<Rightarrow> string list" where
  "split_on c [] = [[]]"
| "split_on c (x # xs) =
     (if x = c then [] # split_on c xs
      else (case split_on c xs of [] \<Rightarrow> [[x]] | w # ws \<Rightarrow> (x # w) # ws))"

fun join_with :: "char \<Rightarrow> string list \<Rightarrow> string" where
  "join_with c [] = []"
| "join_with c [w] = w"
| "join_with c (w # v # ws) = w @ c # join_with c (v # ws)"

lemma split_on_not_Nil [simp]: "split_on c s \<noteq> []"
  by (cases s) (auto split: list.splits)

lemma join_with_Cons: "ws \<noteq> [] \<Longrightarrow> join_with c (w # ws) = w @ c # join_with c ws"
  by (cases ws) auto

lemma join_split_on [simp]: "join_with c (split_on c s) = s"
proof (induction s)
  case (Cons x xs)
  obtain w ws where "split_on c xs = w # ws" by (cases "split_on c xs") auto
  with Cons show ?case by (cases ws) auto
qed simp

lemma split_on_no_sep: "w \<in> set (split_on c s) \<Longrightarrow> c \<notin> set w"
proof (induction s arbitrary: w)
  case (Cons x xs)
  obtain v vs where vs: "split_on c xs = v # vs" by (cases "split_on c xs") auto
  with Cons.prems consider "w = []" | "x \<noteq> c" "w = x # v" | "w \<in> set (split_on c xs)"
    by (auto split: if_splits)
  then show ?case using Cons.IH vs by cases auto
qed simp

lemma split_on_free [simp]: "c \<notin> set w \<Longrightarrow> split_on c w = [w]"
  by (induction w) auto

lemma split_on_append_sep: "c \<notin> set w \<Longrightarrow> split_on c (w @ c # s) = w # split_on c s"
  by (induction w) auto

lemma split_on_append: "split_on c (s @ c # t) = split_on c s @ split_on c t"
proof (induction s)
  case (Cons x xs)
  obtain w ws where "split_on c xs = w # ws" by (cases "split_on c xs") auto
  with Cons show ?case by auto
qed simp

lemma split_join_with:
  assumes "ws \<noteq> []" and "\<forall>w \<in> set ws. c \<notin> set w"
  shows "split_on c (join_with c ws) = ws"
  using assms
proof (induction ws)
  case (Cons w ws)
  then show ?case by (cases "ws = []") (simp_all add: join_with_Cons split_on_append_sep)
qed simp

lemma set_join_with: "set (join_with c ws) \<subseteq> insert c (\<Union> (set ` set ws))"
  by (induction c ws rule: join_with.induct) auto

lemma join_with_append:
  "us \<noteq> [] \<Longrightarrow> ws \<noteq> [] \<Longrightarrow> join_with c (us @ ws) = join_with c us @ c # join_with c ws"
  by (induction c us rule: join_with.induct) (auto simp: join_with_Cons)

lemma join_with_eq_Nil:
  "\<forall>w \<in> set ws. w \<noteq> [] \<Longrightarrow> join_with c ws = [] \<longleftrightarrow> ws = []"
  by (cases "(c, ws)" rule: join_with.cases) auto

lemma join_with_inj:
  assumes "join_with c us = join_with c ws" and "us \<noteq> []" and "ws \<noteq> []"
    and "\<forall>w \<in> set us. c \<notin> set w" and "\<forall>w \<in> set ws. c \<notin> set w"
  shows "us = ws"
  using assms by (metis split_join_with)

section \<open>Lists\<close>

lemma prefix_drop_append: "prefix p s \<Longrightarrow> p @ drop (length p) s = s"
  by (auto simp: prefix_def)

lemma sublist_set: "sublist us s \<Longrightarrow> set us \<subseteq> set s"
  by (auto simp: sublist_def)

lemma hd_append_prefix: "prefix [c] s \<longleftrightarrow> s \<noteq> [] \<and> hd s = c"
  by (cases s) auto

lemma min_if: "min a b = (if a < b then a else (b :: 'a :: linorder))"
  by (auto simp: min_def)

lemma map_of_filter_key: "map_of (filter (\<lambda>(k, _). P k) xs) k = (if P k then map_of xs k else None)"
  by (induction xs) auto

lemma find_first_iff:
  "find P xs = Some x \<longleftrightarrow> (\<exists>pre post. xs = pre @ x # post \<and> P x \<and> (\<forall>y \<in> set pre. \<not> P y))"
proof
  show "find P xs = Some x \<Longrightarrow> \<exists>pre post. xs = pre @ x # post \<and> P x \<and> (\<forall>y \<in> set pre. \<not> P y)"
  proof (induction xs)
    case (Cons y ys)
    show ?case
    proof (cases "P y")
      case True
      then have "y # ys = [] @ x # ys \<and> P x \<and> (\<forall>z \<in> set []. \<not> P z)" using Cons.prems by simp
      then show ?thesis by blast
    next
      case False
      then obtain pre post where "ys = pre @ x # post" "P x" "\<forall>z \<in> set pre. \<not> P z"
        using Cons by auto
      then have "y # ys = (y # pre) @ x # post \<and> P x \<and> (\<forall>z \<in> set (y # pre). \<not> P z)"
        using False by simp
      then show ?thesis by blast
    qed
  qed simp
next
  assume "\<exists>pre post. xs = pre @ x # post \<and> P x \<and> (\<forall>y \<in> set pre. \<not> P y)"
  then obtain pre post where "xs = pre @ x # post" "P x" "\<forall>y \<in> set pre. \<not> P y" by blast
  moreover have "\<forall>y \<in> set pre. \<not> P y \<Longrightarrow> find P (pre @ x # post) = (if P x then Some x else find P post)"
    by (induction pre) auto
  ultimately show "find P xs = Some x" by simp
qed

end
