(* ===== verification/GoStrings.thy ===== *)
theory GoStrings
  imports Prelude
begin

text \<open>
  The functions of Go's \<^verbatim>\<open>strings\<close> and \<^verbatim>\<open>strconv\<close> packages that the program calls, on byte
  strings. \<^verbatim>\<open>HasPrefix\<close>, \<^verbatim>\<open>HasSuffix\<close> and \<^verbatim>\<open>Contains\<close> are the library's
  \<open>prefix\<close>, \<open>suffix\<close> and \<open>sublist\<close>. \<^verbatim>\<open>Index\<close> returns \<open>None\<close> for Go's \<^verbatim>\<open>-1\<close>.
\<close>

section \<open>Searching\<close>

abbreviation HasPrefix :: "string \<Rightarrow> string \<Rightarrow> bool" where
  "HasPrefix s p \<equiv> prefix p s"

abbreviation HasSuffix :: "string \<Rightarrow> string \<Rightarrow> bool" where
  "HasSuffix s p \<equiv> suffix p s"

abbreviation Contains :: "string \<Rightarrow> string \<Rightarrow> bool" where
  "Contains s t \<equiv> sublist t s"

text \<open>The character sets the program passes are ASCII, so a byte is in the set exactly when the
  rune it belongs to is.\<close>

definition ContainsAny :: "string \<Rightarrow> string \<Rightarrow> bool" where
  "ContainsAny s chars = list_ex (\<lambda>c. c \<in> set chars) s"

definition TrimPrefix :: "string \<Rightarrow> string \<Rightarrow> string" where
  "TrimPrefix s p = (if HasPrefix s p then drop (length p) s else s)"

fun Index :: "string \<Rightarrow> string \<Rightarrow> nat option" where
  "Index [] sub = (if sub = [] then Some 0 else None)"
| "Index (x # xs) sub = (if prefix sub (x # xs) then Some 0 else map_option Suc (Index xs sub))"

text \<open>\<^verbatim>\<open>strings.LastIndex\<close> of one byte.\<close>

fun LastIndexByte :: "string \<Rightarrow> char \<Rightarrow> nat option" where
  "LastIndexByte [] c = None"
| "LastIndexByte (x # xs) c =
     (case LastIndexByte xs c of Some n \<Rightarrow> Some (Suc n)
      | None \<Rightarrow> if x = c then Some 0 else None)"

text \<open>\<^verbatim>\<open>strings.Cut(s, sep)\<close> for a one-byte separator: before, after, found.\<close>

fun Cut :: "string \<Rightarrow> char \<Rightarrow> string \<times> string \<times> bool" where
  "Cut [] c = ([], [], False)"
| "Cut (x # xs) c =
     (if x = c then ([], xs, True) else (case Cut xs c of (b, a, f) \<Rightarrow> (x # b, a, f)))"

section \<open>Trimming\<close>

text \<open>
  \<^verbatim>\<open>strings.TrimSpace\<close> removes leading and trailing runes with \<^verbatim>\<open>unicode.IsSpace\<close>. Those
  runes are the six ASCII ones and nineteen others; each has one UTF-8 encoding, and a string
  begins (ends) with the rune exactly when its bytes begin (end) with the encoding.
\<close>

definition space_encodings :: "string list" where
  "space_encodings =
     [[CHR 0x09], [CHR 0x0A], [CHR 0x0B], [CHR 0x0C], [CHR 0x0D], [CHR 0x20],
      [CHR 0xC2, CHR 0x85], [CHR 0xC2, CHR 0xA0], [CHR 0xE1, CHR 0x9A, CHR 0x80],
      [CHR 0xE2, CHR 0x80, CHR 0x80], [CHR 0xE2, CHR 0x80, CHR 0x81], [CHR 0xE2, CHR 0x80, CHR 0x82],
      [CHR 0xE2, CHR 0x80, CHR 0x83], [CHR 0xE2, CHR 0x80, CHR 0x84], [CHR 0xE2, CHR 0x80, CHR 0x85],
      [CHR 0xE2, CHR 0x80, CHR 0x86], [CHR 0xE2, CHR 0x80, CHR 0x87], [CHR 0xE2, CHR 0x80, CHR 0x88],
      [CHR 0xE2, CHR 0x80, CHR 0x89], [CHR 0xE2, CHR 0x80, CHR 0x8A], [CHR 0xE2, CHR 0x80, CHR 0xA8],
      [CHR 0xE2, CHR 0x80, CHR 0xA9], [CHR 0xE2, CHR 0x80, CHR 0xAF], [CHR 0xE2, CHR 0x81, CHR 0x9F],
      [CHR 0xE3, CHR 0x80, CHR 0x80]]"

fun strip_leading :: "string list \<Rightarrow> string \<Rightarrow> string" where
  "strip_leading encs [] = []"
| "strip_leading encs (x # xs) =
     (case find (\<lambda>e. e \<noteq> [] \<and> prefix e (x # xs)) encs of
        None \<Rightarrow> x # xs
      | Some e \<Rightarrow> strip_leading encs (drop (length e - 1) xs))"

definition TrimSpace :: "string \<Rightarrow> string" where
  "TrimSpace s =
     rev (strip_leading (map rev space_encodings) (rev (strip_leading space_encodings s)))"

section \<open>Case\<close>

definition lower_byte :: "char \<Rightarrow> char" where
  "lower_byte c =
     (if CHR ''A'' \<le> c \<and> c \<le> CHR ''Z'' then char_of (of_char c + (32 :: nat)) else c)"

text \<open>
  \<^verbatim>\<open>strings.ToLower\<close> on the ASCII letters. The non-ASCII runes whose lower case is ASCII are
  U+0130 (\<^verbatim>\<open>i\<close>) and U+212A (\<^verbatim>\<open>k\<close>); no word the program compares a lowered string with has one of
  those letters.
\<close>

definition ToLower :: "string \<Rightarrow> string" where
  "ToLower s = map lower_byte s"

text \<open>
  \<^verbatim>\<open>strings.EqualFold(s, t)\<close> for an ASCII \<open>t\<close>: the runes outside ASCII that fold to an ASCII letter
  are U+017F (to \<^verbatim>\<open>s\<close>) and U+212A (to \<^verbatim>\<open>k\<close>).
\<close>

fun fold_ascii :: "string \<Rightarrow> string" where
  "fold_ascii [] = []"
| "fold_ascii (x # xs) =
     (if prefix [CHR 0xC5, CHR 0xBF] (x # xs) then CHR ''s'' # fold_ascii (tl xs)
      else if prefix [CHR 0xE2, CHR 0x84, CHR 0xAA] (x # xs) then CHR ''k'' # fold_ascii (tl (tl xs))
      else lower_byte x # fold_ascii xs)"

definition EqualFold :: "string \<Rightarrow> string \<Rightarrow> bool" where
  "EqualFold s t = (fold_ascii s = fold_ascii t)"

section \<open>Numbers\<close>

definition is_digit :: "char \<Rightarrow> bool" where
  "is_digit c \<longleftrightarrow> CHR ''0'' \<le> c \<and> c \<le> CHR ''9''"

definition digit_val :: "char \<Rightarrow> int" where
  "digit_val c = int (of_char c) - 48"

text \<open>A non-empty run of decimal digits, with no bound.\<close>

definition parse_digits :: "string \<Rightarrow> int option" where
  "parse_digits s =
     (if s = [] \<or> \<not> list_all is_digit s then None
      else Some (foldl (\<lambda>n c. 10 * n + digit_val c) 0 s))"

text \<open>\<^verbatim>\<open>strconv.Atoi\<close>: an optional sign, then digits, in the range of a 64-bit \<^verbatim>\<open>int\<close>;
  \<^verbatim>\<open>strconv.ParseInt(s, 10, 64)\<close> accepts the same strings.\<close>

definition Atoi :: "string \<Rightarrow> int option" where
  "Atoi s =
     (let neg = HasPrefix s ''-'';
          ds = (if neg \<or> HasPrefix s ''+'' then tl s else s)
      in case parse_digits ds of
           None \<Rightarrow> None
         | Some n \<Rightarrow>
             if neg then (if n \<le> 2 ^ 63 then Some (- n) else None)
             else (if n < 2 ^ 63 then Some n else None))"

text \<open>\<^verbatim>\<open>strconv.ParseUint(s, 10, 32)\<close>: digits only, below \<open>2 ^ 32\<close>.\<close>

definition ParseUint32 :: "string \<Rightarrow> 32 word option" where
  "ParseUint32 s =
     (case parse_digits s of
        None \<Rightarrow> None
      | Some n \<Rightarrow> if n < 2 ^ 32 then Some (word_of_int n) else None)"

text \<open>\<^verbatim>\<open>strconv.Itoa\<close>.\<close>

function pos_digits :: "int \<Rightarrow> string" where
  "pos_digits n =
     (if n < 10 then [char_of (n + 48)] else pos_digits (n div 10) @ [char_of (n mod 10 + 48)])"
  by pat_completeness auto
termination
  by (relation "measure nat") auto

declare pos_digits.simps [simp del]

definition Itoa :: "int \<Rightarrow> string" where
  "Itoa i = (if i < 0 then CHR ''-'' # pos_digits (- i) else pos_digits i)"

definition show_bool :: "bool \<Rightarrow> string" where
  "show_bool b = (if b then ''true'' else ''false'')"

text \<open>\<^verbatim>\<open>%q\<close> of a string without quotes, backslashes or unprintable bytes.\<close>

definition quoted :: "string \<Rightarrow> string" where
  "quoted s = [CHR 0x22] @ s @ [CHR 0x22]"

section \<open>Facts\<close>

lemma ContainsAny_iff: "ContainsAny s chars \<longleftrightarrow> set s \<inter> set chars \<noteq> {}"
  by (auto simp: ContainsAny_def list_ex_iff)

lemma TrimPrefix_append [simp]: "TrimPrefix (p @ s) p = s"
  by (simp add: TrimPrefix_def)

lemma TrimPrefix_idle: "\<not> HasPrefix s p \<Longrightarrow> TrimPrefix s p = s"
  by (simp add: TrimPrefix_def)

lemma TrimPrefix_suffix: "suffix (TrimPrefix s p) s"
  by (simp add: TrimPrefix_def suffix_drop)

lemma set_TrimPrefix: "set (TrimPrefix s p) \<subseteq> set s"
  by (auto simp: TrimPrefix_def dest: in_set_dropD)

lemma Index_Some: "Index s sub = Some n \<Longrightarrow> prefix sub (drop n s)"
  by (induction s sub arbitrary: n rule: Index.induct) (auto split: if_splits)

lemma Index_None: "Index s sub = None \<longleftrightarrow> \<not> Contains s sub"
  by (induction s sub rule: Index.induct) (auto simp: sublist_Cons_right)

lemma Index_byte_Some_iff: "Index s [c] = Some n \<longleftrightarrow> (\<exists>b a. s = b @ c # a \<and> c \<notin> set b \<and> n = length b)"
proof (induction s arbitrary: n)
  case (Cons x xs)
  show ?case
  proof (cases "x = c")
    case True
    then show ?thesis by (auto simp: Cons_eq_append_conv)
  next
    case False
    then have "Index (x # xs) [c] = Some n \<longleftrightarrow> (\<exists>m. Index xs [c] = Some m \<and> n = Suc m)"
      by auto
    also have "\<dots> \<longleftrightarrow> (\<exists>b a. x # xs = b @ c # a \<and> c \<notin> set b \<and> n = length b)"
      using False Cons.IH by (fastforce simp: Cons_eq_append_conv)
    finally show ?thesis .
  qed
qed simp

lemma Cut_append: "c \<notin> set b \<Longrightarrow> Cut (b @ c # a) c = (b, a, True)"
  by (induction b) auto

lemma Cut_free: "c \<notin> set s \<Longrightarrow> Cut s c = (s, [], False)"
  by (induction s) auto

lemma strip_leading_suffix: "suffix (strip_leading encs s) s"
proof (induction encs s rule: strip_leading.induct)
  case (2 encs x xs)
  show ?case
  proof (cases "find (\<lambda>e. e \<noteq> [] \<and> prefix e (x # xs)) encs")
    case None
    then show ?thesis by simp
  next
    case (Some e)
    then have "suffix (strip_leading encs (drop (length e - 1) xs)) (drop (length e - 1) xs)"
      by (rule "2.IH")
    then show ?thesis using Some
      by (auto intro: suffix_ConsI suffix_order.trans [OF _ suffix_drop])
  qed
qed simp

lemma TrimSpace_sublist: "sublist (TrimSpace s) s"
proof -
  let ?m = "strip_leading space_encodings s"
  have "suffix (rev (TrimSpace s)) (rev ?m)"
    by (simp add: TrimSpace_def strip_leading_suffix)
  then have "prefix (TrimSpace s) ?m" by (simp add: suffix_to_prefix)
  moreover have "suffix ?m s" by (rule strip_leading_suffix)
  ultimately show ?thesis by (meson sublist_order.order_trans prefix_imp_sublist suffix_imp_sublist)
qed

lemma set_TrimSpace: "set (TrimSpace s) \<subseteq> set s"
  using TrimSpace_sublist by (rule sublist_set)

lemma digit_val_bounds: "is_digit c \<Longrightarrow> 0 \<le> digit_val c \<and> digit_val c \<le> 9"
  by (auto simp: is_digit_def digit_val_def less_eq_char_def)

lemma foldl_digits_nonneg:
  "0 \<le> n \<Longrightarrow> list_all is_digit s \<Longrightarrow> 0 \<le> foldl (\<lambda>n c. 10 * n + digit_val c) n s"
proof (induction s arbitrary: n)
  case (Cons c s)
  then have "0 \<le> 10 * n + digit_val c" using digit_val_bounds [of c] by simp
  with Cons show ?case by simp
qed simp

lemma parse_digits_nonneg: "parse_digits s = Some n \<Longrightarrow> 0 \<le> n"
  by (auto simp: parse_digits_def foldl_digits_nonneg split: if_splits)

lemma Atoi_range: "Atoi s = Some n \<Longrightarrow> - (2 ^ 63) \<le> n \<and> n < 2 ^ 63"
  by (auto simp: Atoi_def Let_def dest!: parse_digits_nonneg split: option.splits if_splits)

text \<open>The digits of a number.\<close>

lemma digit_char:
  assumes "0 \<le> n" and "n < 10"
  shows "is_digit (char_of (n + 48))" and "digit_val (char_of (n + 48)) = n"
proof -
  have n: "n \<in> {0, 1, 2, 3, 4, 5, 6, 7, 8, 9}" using assms by (simp, presburger)
  have "list_all (\<lambda>n :: int. is_digit (char_of (n + 48)) \<and> digit_val (char_of (n + 48)) = n) [0, 1, 2, 3, 4, 5, 6, 7, 8, 9]"
    by code_simp
  then show "is_digit (char_of (n + 48))" "digit_val (char_of (n + 48)) = n" using n by (auto simp: list_all_iff)
qed

lemma pos_digits_hd: "0 \<le> n \<Longrightarrow> pos_digits n \<noteq> [] \<and> is_digit (hd (pos_digits n))"
proof (induction n rule: pos_digits.induct)
  case (1 n)
  show ?case
  proof (cases "n < 10")
    case True
    then show ?thesis using digit_char(1) [of n] 1(2) by (subst (1 2) pos_digits.simps) simp
  next
    case False
    then have "pos_digits (n div 10) \<noteq> [] \<and> is_digit (hd (pos_digits (n div 10)))" using 1 by simp
    then show ?thesis using False by (subst (1 2) pos_digits.simps) simp
  qed
qed

end
