(* ===== verification/Policy.thy ===== *)
theory Policy
  imports GoStrings
begin

text \<open>
  \<^verbatim>\<open>pkg/policy/types.go\<close> and \<^verbatim>\<open>pkg/policy/load.go\<close>: the policy document, the defaults a loaded
  policy gets, and loading. Durations are nanoseconds. Reading the file and the YAML library are
  arguments of \<open>LoadPolicies\<close>.
\<close>

section \<open>Types\<close>

record revision_policy =
  rp_require_pinned_commit :: bool
  rp_allow_branches :: bool
  rp_allow_tags :: bool
  rp_allowed_branch_regex :: "string list"
  rp_allowed_tag_regex :: "string list"

record clone_policy =
  cp_default_depth :: int
  cp_max_depth :: int
  cp_timeout :: int
  cp_max_repository_size :: int
  cp_max_file_count :: int
  cp_allow_sparse_checkout :: bool

record submodule_policy =
  sp_enabled :: bool
  sp_recursive :: bool
  sp_max_depth :: int
  sp_allowed_repositories :: "string list"
  sp_allowed_hosts :: "string list"

record lfs_policy =
  lp_enabled :: bool
  lp_max_object_size :: int
  lp_max_total_size :: int

record credential_policy =
  cr_default_profile :: string
  cr_allowed_profiles :: "string list"

record git_content_policy =
  p_name :: string
  p_allowed_repositories :: "string list"
  p_allowed_hosts :: "string list"
  p_revisions :: revision_policy
  p_clone :: clone_policy
  p_submodules :: submodule_policy
  p_lfs :: lfs_policy
  p_credentials :: credential_policy
  p_namespaces :: "string list"
  p_labels :: gomap
  p_annotations :: gomap

record request =
  rq_namespace :: string
  rq_repo :: string
  rq_revision :: string
  rq_path :: string
  rq_depth :: int
  rq_submodules :: bool
  rq_lfs :: bool
  rq_credential_profile :: string

record eval_result =
  res_allowed :: bool
  res_resolved_profile :: string
  res_denial_reason_code :: string
  res_denial_reason :: string

text \<open>The zero values Go gives the structs.\<close>

definition zero_revision_policy :: revision_policy where
  "zero_revision_policy =
     \<lparr>rp_require_pinned_commit = False, rp_allow_branches = False, rp_allow_tags = False,
      rp_allowed_branch_regex = [], rp_allowed_tag_regex = []\<rparr>"

definition zero_clone_policy :: clone_policy where
  "zero_clone_policy =
     \<lparr>cp_default_depth = 0, cp_max_depth = 0, cp_timeout = 0, cp_max_repository_size = 0,
      cp_max_file_count = 0, cp_allow_sparse_checkout = False\<rparr>"

definition zero_submodule_policy :: submodule_policy where
  "zero_submodule_policy =
     \<lparr>sp_enabled = False, sp_recursive = False, sp_max_depth = 0, sp_allowed_repositories = [],
      sp_allowed_hosts = []\<rparr>"

definition zero_policy :: git_content_policy where
  "zero_policy =
     \<lparr>p_name = [], p_allowed_repositories = [], p_allowed_hosts = [],
      p_revisions = zero_revision_policy, p_clone = zero_clone_policy,
      p_submodules = zero_submodule_policy,
      p_lfs = \<lparr>lp_enabled = False, lp_max_object_size = 0, lp_max_total_size = 0\<rparr>,
      p_credentials = \<lparr>cr_default_profile = [], cr_allowed_profiles = []\<rparr>,
      p_namespaces = [], p_labels = Map.empty, p_annotations = Map.empty\<rparr>"

section \<open>Defaults\<close>

definition seconds :: "int \<Rightarrow> int" where
  "seconds n = n * 1000000000"

definition clone_defaults :: "clone_policy \<Rightarrow> clone_policy" where
  "clone_defaults c =
     c\<lparr>cp_default_depth := if cp_default_depth c \<le> 0 then 1 else cp_default_depth c,
       cp_max_depth := if cp_max_depth c \<le> 0 then 10 else cp_max_depth c,
       cp_timeout := if cp_timeout c \<le> 0 then seconds 30 else cp_timeout c,
       cp_max_repository_size :=
         if cp_max_repository_size c \<le> 0 then 100 * 1024 * 1024 else cp_max_repository_size c,
       cp_max_file_count := if cp_max_file_count c \<le> 0 then 5000 else cp_max_file_count c\<rparr>"

definition applyPolicyDefaults :: "git_content_policy \<Rightarrow> git_content_policy" where
  "applyPolicyDefaults p =
     p\<lparr>p_clone := clone_defaults (p_clone p),
       p_submodules := (p_submodules p)\<lparr>sp_max_depth :=
         if sp_max_depth (p_submodules p) \<le> 0 then 1 else sp_max_depth (p_submodules p)\<rparr>\<rparr>"

definition LoadPolicies ::
  "(string \<Rightarrow> string result) \<Rightarrow> (string \<Rightarrow> git_content_policy list result) \<Rightarrow> string
     \<Rightarrow> git_content_policy list result" where
  "LoadPolicies read_file unmarshal path =
     (case read_file path of
        Inl e \<Rightarrow> Inl (''read policies: '' @ e)
      | Inr raw \<Rightarrow>
          (case unmarshal raw of
             Inl e \<Rightarrow> Inl (''parse policies: '' @ e)
           | Inr ps \<Rightarrow> Inr (map applyPolicyDefaults ps)))"

section \<open>Facts\<close>

text \<open>A policy whose limits are all in force.\<close>

definition limits_set :: "git_content_policy \<Rightarrow> bool" where
  "limits_set p \<longleftrightarrow>
     0 < cp_default_depth (p_clone p) \<and> 0 < cp_max_depth (p_clone p) \<and> 0 < cp_timeout (p_clone p)
     \<and> 0 < cp_max_repository_size (p_clone p) \<and> 0 < cp_max_file_count (p_clone p)
     \<and> 0 < sp_max_depth (p_submodules p)"

lemma applyPolicyDefaults_limits: "limits_set (applyPolicyDefaults p)"
  by (simp add: limits_set_def applyPolicyDefaults_def clone_defaults_def seconds_def)

lemma applyPolicyDefaults_fixed: "limits_set p \<Longrightarrow> applyPolicyDefaults p = p"
  by (simp add: limits_set_def applyPolicyDefaults_def clone_defaults_def)

lemma applyPolicyDefaults_frame [simp]:
  "p_name (applyPolicyDefaults p) = p_name p"
  "p_allowed_repositories (applyPolicyDefaults p) = p_allowed_repositories p"
  "p_allowed_hosts (applyPolicyDefaults p) = p_allowed_hosts p"
  "p_revisions (applyPolicyDefaults p) = p_revisions p"
  "p_lfs (applyPolicyDefaults p) = p_lfs p"
  "p_credentials (applyPolicyDefaults p) = p_credentials p"
  "p_namespaces (applyPolicyDefaults p) = p_namespaces p"
  "sp_enabled (p_submodules (applyPolicyDefaults p)) = sp_enabled (p_submodules p)"
  by (simp_all add: applyPolicyDefaults_def)

lemma LoadPolicies_limits:
  "LoadPolicies rd un path = Inr ps \<Longrightarrow> p \<in> set ps \<Longrightarrow> limits_set p"
  by (auto simp: LoadPolicies_def applyPolicyDefaults_limits split: sum.splits)

end
