(* ===== verification/GoUrl.thy ===== *)
theory GoUrl
  imports GoStrings
begin

text \<open>
  \<^verbatim>\<open>url.Parse\<close> and \<^verbatim>\<open>(*URL).Hostname\<close> of Go's \<^verbatim>\<open>net/url\<close>, as far as the program looks at the
  result: whether parsing fails, the scheme, and the host. The steps are those of the package: cut
  the fragment, refuse control bytes, split scheme, query and authority, check the user information,
  the port and the percent escapes, and decode the host. A bracketed host must hold an IPv6 address,
  and a colon in any other host starts the port, as from Go 1.26 on.
\<close>

section \<open>Bytes and escapes\<close>

definition is_alpha :: "char \<Rightarrow> bool" where
  "is_alpha c \<longleftrightarrow> (CHR ''a'' \<le> c \<and> c \<le> CHR ''z'') \<or> (CHR ''A'' \<le> c \<and> c \<le> CHR ''Z'')"

definition is_hex_byte :: "char \<Rightarrow> bool" where
  "is_hex_byte c \<longleftrightarrow>
     is_digit c \<or> (CHR ''a'' \<le> c \<and> c \<le> CHR ''f'') \<or> (CHR ''A'' \<le> c \<and> c \<le> CHR ''F'')"

definition unhex :: "char \<Rightarrow> nat" where
  "unhex c =
     (if is_digit c then of_char c - 48
      else if CHR ''a'' \<le> c then of_char c - 87 else of_char c - 55)"

definition is_ctl :: "char \<Rightarrow> bool" where
  "is_ctl c \<longleftrightarrow> c < CHR '' '' \<or> c = CHR 0x7F"

text \<open>Bytes that may stand unescaped in a host or a zone.\<close>

definition host_byte :: "char \<Rightarrow> bool" where
  "host_byte c \<longleftrightarrow>
     is_alpha c \<or> is_digit c \<or> c \<in> set ''-_.~!$&()*+,;=:[]<>'' \<or> c = CHR 0x27 \<or> c = CHR 0x22"

text \<open>Every percent sign starts an escape of two hexadecimal digits.\<close>

fun escapes_ok :: "string \<Rightarrow> bool" where
  "escapes_ok [] = True"
| "escapes_ok (c # cs) =
     (if c = CHR ''%'' then
        (case cs of a # b # rest \<Rightarrow> is_hex_byte a \<and> is_hex_byte b \<and> escapes_ok rest | _ \<Rightarrow> False)
      else escapes_ok cs)"

text \<open>
  Decoding a host, or the zone of an IPv6 address: an escape in a host is for a byte outside ASCII or
  is \<^verbatim>\<open>%25\<close>; in a zone it is for a byte that may stand there anyway, a space or \<^verbatim>\<open>%25\<close>.
\<close>

fun unescape_host :: "bool \<Rightarrow> string \<Rightarrow> string option" where
  "unescape_host zone [] = Some []"
| "unescape_host zone (c # cs) =
     (if c = CHR ''%'' then
        (case cs of
           a # b # rest \<Rightarrow>
             if \<not> (is_hex_byte a \<and> is_hex_byte b) then None
             else
               (let v = char_of (16 * unhex a + unhex b);
                    percent = (a = CHR ''2'' \<and> b = CHR ''5'')
                in if \<not> zone \<and> unhex a < 8 \<and> \<not> percent then None
                   else if zone \<and> \<not> percent \<and> v \<noteq> CHR '' '' \<and> \<not> host_byte v then None
                   else map_option (\<lambda>r. v # r) (unescape_host zone rest))
         | _ \<Rightarrow> None)
      else if c < CHR 0x80 \<and> \<not> host_byte c then None
      else map_option (\<lambda>r. c # r) (unescape_host zone cs))"

section \<open>Ports and address literals\<close>

definition valid_optional_port :: "string \<Rightarrow> bool" where
  "valid_optional_port p \<longleftrightarrow> p = [] \<or> (hd p = CHR '':'' \<and> list_all is_digit (tl p))"

definition ipv4_field :: "string \<Rightarrow> bool" where
  "ipv4_field f \<longleftrightarrow>
     f \<noteq> [] \<and> list_all is_digit f \<and> length f \<le> 3 \<and> (length f > 1 \<longrightarrow> hd f \<noteq> CHR ''0'')
     \<and> foldl (\<lambda>n c. 10 * n + digit_val c) 0 f \<le> 255"

definition ipv4_ok :: "string \<Rightarrow> bool" where
  "ipv4_ok s \<longleftrightarrow> length (split_on CHR ''.'' s) = 4 \<and> list_all ipv4_field (split_on CHR ''.'' s)"

text \<open>
  The group loop of \<^verbatim>\<open>netip.ParseAddr\<close> on an IPv6 address: \<open>i\<close> bytes are set so far, \<open>ell\<close> says that
  \<^verbatim>\<open>::\<close> has been seen. The address is complete when all sixteen bytes are set, or fewer and \<^verbatim>\<open>::\<close>
  stands for the rest.
\<close>

definition ipv6_full :: "nat \<Rightarrow> bool \<Rightarrow> bool" where
  "ipv6_full i ell \<longleftrightarrow> (if ell then i < 16 else i = 16)"

function ipv6_groups :: "nat \<Rightarrow> bool \<Rightarrow> string \<Rightarrow> bool" where
  "ipv6_groups i ell s =
     (if 16 \<le> i then s = [] \<and> ipv6_full i ell
      else
        (let off = length (takeWhile is_hex_byte s); s' = drop off s in
         if off = 0 \<or> 4 < off then False
         else
           (case s' of
              [] \<Rightarrow> ipv6_full (i + 2) ell
            | c # r \<Rightarrow>
                if c = CHR ''.'' then (ell \<or> i = 12) \<and> i + 4 \<le> 16 \<and> ipv4_ok s \<and> ipv6_full (i + 4) ell
                else if c \<noteq> CHR '':'' \<or> r = [] then False
                else if hd r = CHR '':'' then
                  \<not> ell \<and> (if tl r = [] then ipv6_full (i + 2) True else ipv6_groups (i + 2) True (tl r))
                else ipv6_groups (i + 2) ell r)))"
  by pat_completeness auto
termination
  by (relation "measure (\<lambda>(i, _, _). 16 - i)") auto

definition ipv6_ok :: "string \<Rightarrow> bool" where
  "ipv6_ok s =
     (case Cut s CHR ''%'' of
        (a, zone, has_zone) \<Rightarrow>
          (has_zone \<longrightarrow> zone \<noteq> [])
          \<and> (case dropWhile (\<lambda>c. c \<noteq> CHR ''.'' \<and> c \<noteq> CHR '':'') a of [] \<Rightarrow> False | c # _ \<Rightarrow> c = CHR '':'')
          \<and> (if HasPrefix a ''::'' then a = ''::'' \<or> ipv6_groups 0 True (drop 2 a)
             else ipv6_groups 0 False a))"

section \<open>Authority\<close>

definition parse_host :: "string \<Rightarrow> string option" where
  "parse_host host =
     (case LastIndexByte host CHR ''['' of
        Some open_at \<Rightarrow>
          (if open_at \<noteq> 0 then None
           else
             (case LastIndexByte host CHR '']'' of
                None \<Rightarrow> None
              | Some close_at \<Rightarrow>
                  (let port = drop (Suc close_at) host; name = drop 1 (take close_at host) in
                   if \<not> valid_optional_port port then None
                   else
                     (case (case Index name ''%25'' of
                              None \<Rightarrow> unescape_host False name
                            | Some z \<Rightarrow>
                                (case (unescape_host False (take z name), unescape_host True (drop z name)) of
                                   (Some a, Some b) \<Rightarrow> Some (a @ b)
                                 | _ \<Rightarrow> None)) of
                        None \<Rightarrow> None
                      | Some addr \<Rightarrow> if ipv6_ok addr then Some (''['' @ addr @ '']'' @ port) else None))))
      | None \<Rightarrow>
          (case Index host '':'' of
             None \<Rightarrow> unescape_host False host
           | Some i \<Rightarrow> if valid_optional_port (drop i host) then unescape_host False host else None))"

definition userinfo_byte :: "char \<Rightarrow> bool" where
  "userinfo_byte c \<longleftrightarrow>
     is_alpha c \<or> is_digit c \<or> c \<in> set ''-._:~!$&()*+,;=%@'' \<or> c = CHR 0x27"

definition parse_authority :: "string \<Rightarrow> string option" where
  "parse_authority auth =
     (case LastIndexByte auth CHR ''@'' of
        None \<Rightarrow> parse_host auth
      | Some i \<Rightarrow>
          (case parse_host (drop (Suc i) auth) of
             None \<Rightarrow> None
           | Some host \<Rightarrow>
               if list_all userinfo_byte (take i auth) \<and> escapes_ok (take i auth) then Some host
               else None))"

section \<open>Parse\<close>

record url =
  Scheme :: string
  Host :: string

text \<open>\<^verbatim>\<open>getScheme\<close>: \<open>acc\<close> holds the bytes before, last first.\<close>

fun get_scheme :: "string \<Rightarrow> string \<Rightarrow> string \<Rightarrow> (string \<times> string) option" where
  "get_scheme raw acc [] = Some ([], raw)"
| "get_scheme raw acc (c # cs) =
     (if is_alpha c then get_scheme raw (c # acc) cs
      else if is_digit c \<or> c = CHR ''+'' \<or> c = CHR ''-'' \<or> c = CHR ''.'' then
        (if acc = [] then Some ([], raw) else get_scheme raw (c # acc) cs)
      else if c = CHR '':'' then (if acc = [] then None else Some (rev acc, cs))
      else Some ([], raw))"

definition parse_after_scheme :: "string \<Rightarrow> string \<Rightarrow> url option" where
  "parse_after_scheme scheme rest0 =
     (let rest = fst (Cut rest0 CHR ''?'') in
      if \<not> HasPrefix rest ''/'' \<and> scheme \<noteq> [] then Some \<lparr>Scheme = scheme, Host = []\<rparr>
      else if \<not> HasPrefix rest ''/'' \<and> CHR '':'' \<in> set (fst (Cut rest CHR ''/'')) then None
      else if (scheme \<noteq> [] \<or> \<not> HasPrefix rest ''///'') \<and> HasPrefix rest ''//'' then
        (let auth = fst (Cut (drop 2 rest) CHR ''/''); path = drop (length auth) (drop 2 rest) in
         case parse_authority auth of
           None \<Rightarrow> None
         | Some host \<Rightarrow> if escapes_ok path then Some \<lparr>Scheme = scheme, Host = host\<rparr> else None)
      else if escapes_ok rest then Some \<lparr>Scheme = scheme, Host = []\<rparr> else None)"

definition url_parse :: "string \<Rightarrow> url option" where
  "url_parse raw =
     (case Cut raw CHR ''#'' of
        (u, frag, _) \<Rightarrow>
          if list_ex is_ctl u then None
          else if u = ''*'' then (if escapes_ok frag then Some \<lparr>Scheme = [], Host = []\<rparr> else None)
          else
            (case get_scheme u [] u of
               None \<Rightarrow> None
             | Some (scheme, rest) \<Rightarrow>
                 (case parse_after_scheme (ToLower scheme) rest of
                    None \<Rightarrow> None
                  | Some p \<Rightarrow> if escapes_ok frag then Some p else None)))"

definition Hostname :: "url \<Rightarrow> string" where
  "Hostname u =
     (let h = (case LastIndexByte (Host u) CHR '':'' of
                 None \<Rightarrow> Host u
               | Some i \<Rightarrow> if valid_optional_port (drop i (Host u)) then take i (Host u) else Host u)
      in if HasPrefix h ''['' \<and> HasSuffix h '']'' then butlast (tl h) else h)"

section \<open>Facts\<close>

lemma get_scheme_prefix:
  assumes "list_all is_alpha s" and "acc @ s \<noteq> []"
  shows "get_scheme raw acc (s @ CHR '':'' # rest) = Some (rev acc @ s, rest)"
  using assms
proof (induction s arbitrary: acc)
  case Nil
  have "\<not> is_alpha CHR '':''" "\<not> is_digit CHR '':''" by code_simp+
  with Nil show ?case by simp
next
  case (Cons c s)
  then show ?case by simp
qed

lemma parse_after_scheme_Scheme: "parse_after_scheme s r = Some u \<Longrightarrow> Scheme u = s"
  by (auto simp: parse_after_scheme_def Let_def split: if_splits option.splits)

text \<open>A URL that starts with an alphabetic scheme has that scheme, in lower case.\<close>

lemma url_parse_scheme:
  assumes "url_parse (s @ ''://'' @ r) = Some u" and "s \<noteq> []" and "list_all is_alpha s"
  shows "Scheme u = ToLower s"
proof -
  have colon: "CHR ''#'' \<notin> set (s @ ''://'')"
  proof -
    have "\<not> is_alpha CHR ''#''" by code_simp
    then show ?thesis using assms(3) by (auto simp: list_all_iff)
  qed
  obtain a f b where cut: "Cut r CHR ''#'' = (a, f, b)" by (metis prod_cases3)
  have "Cut (s @ ''://'' @ r) CHR ''#'' = (s @ ''://'' @ a, f, b)"
    using colon cut by (induction s) auto
  moreover have "get_scheme (s @ ''://'' @ a) [] (s @ CHR '':'' # ''//'' @ a) = Some (s, ''//'' @ a)"
    using get_scheme_prefix [of s "[]"] assms(2,3) by simp
  ultimately show ?thesis
    using assms(1) by (auto simp: url_parse_def dest: parse_after_scheme_Scheme split: if_splits option.splits)
qed

end
