(* ===== verification/GoGlob.thy ===== *)
theory GoGlob
  imports GoStrings
begin

text \<open>
  \<^verbatim>\<open>filepath.Match\<close> of Go on a Unix system: the chunk scanner, the matching of one chunk with its
  character classes over UTF-8 runes, and the search a star makes. \<open>None\<close> is \<^verbatim>\<open>ErrBadPattern\<close>.
\<close>

section \<open>Runes\<close>

definition cont_byte :: "char \<Rightarrow> bool" where
  "cont_byte c \<longleftrightarrow> CHR 0x80 \<le> c \<and> c \<le> CHR 0xBF"

text \<open>\<^verbatim>\<open>utf8.DecodeRuneInString\<close>: the rune and its size; \<open>(0xFFFD, 1)\<close> for an invalid encoding.\<close>

definition decode_rune :: "string \<Rightarrow> nat \<times> nat" where
  "decode_rune s =
     (let v = (\<lambda>c :: char. of_char c :: nat); bad = (0xFFFD, 1) in
      case s of
        [] \<Rightarrow> (0xFFFD, 0)
      | b0 # t \<Rightarrow>
          if b0 < CHR 0x80 then (v b0, 1)
          else if b0 < CHR 0xC2 \<or> b0 > CHR 0xF4 then bad
          else if b0 < CHR 0xE0 then
            (case t of
               b1 # _ \<Rightarrow> if cont_byte b1 then ((v b0 - 0xC0) * 64 + (v b1 - 0x80), 2) else bad
             | _ \<Rightarrow> bad)
          else if b0 < CHR 0xF0 then
            (case t of
               b1 # b2 # _ \<Rightarrow>
                 if (if b0 = CHR 0xE0 then CHR 0xA0 else CHR 0x80) \<le> b1
                    \<and> b1 \<le> (if b0 = CHR 0xED then CHR 0x9F else CHR 0xBF) \<and> cont_byte b2
                 then ((v b0 - 0xE0) * 4096 + (v b1 - 0x80) * 64 + (v b2 - 0x80), 3) else bad
             | _ \<Rightarrow> bad)
          else
            (case t of
               b1 # b2 # b3 # _ \<Rightarrow>
                 if (if b0 = CHR 0xF0 then CHR 0x90 else CHR 0x80) \<le> b1
                    \<and> b1 \<le> (if b0 = CHR 0xF4 then CHR 0x8F else CHR 0xBF) \<and> cont_byte b2 \<and> cont_byte b3
                 then ((v b0 - 0xF0) * 262144 + (v b1 - 0x80) * 4096 + (v b2 - 0x80) * 64 + (v b3 - 0x80), 4)
                 else bad
             | _ \<Rightarrow> bad))"

lemma decode_rune_size: "s \<noteq> [] \<Longrightarrow> 1 \<le> snd (decode_rune s)"
  by (auto simp: decode_rune_def Let_def split: list.splits)

section \<open>Chunks\<close>

text \<open>\<^verbatim>\<open>getEsc\<close>: one end of a range, and the rest of the chunk.\<close>

definition get_esc :: "string \<Rightarrow> (nat \<times> string) option" where
  "get_esc chunk =
     (if chunk = [] \<or> hd chunk = CHR ''-'' \<or> hd chunk = CHR '']'' then None
      else
        (let c = (if hd chunk = CHR 0x5C then tl chunk else chunk) in
         if c = [] then None
         else
           (case decode_rune c of
              (r, n) \<Rightarrow>
                if r = 0xFFFD \<and> n = 1 then None
                else if drop n c = [] then None else Some (r, drop n c))))"

lemma get_esc_shorter: "get_esc chunk = Some (r, rest) \<Longrightarrow> length rest < length chunk"
proof -
  assume a: "get_esc chunk = Some (r, rest)"
  let ?c = "if hd chunk = CHR 0x5C then tl chunk else chunk"
  have c: "?c \<noteq> []" "rest = drop (snd (decode_rune ?c)) ?c" "chunk \<noteq> []"
    using a by (auto simp: get_esc_def Let_def split: if_splits prod.splits)
  have "1 \<le> snd (decode_rune ?c)" using c(1) by (rule decode_rune_size)
  moreover have "0 < length ?c" using c(1) by simp
  ultimately have "length rest < length ?c" using c(2) by simp
  also have "length ?c \<le> length chunk" by simp
  finally show ?thesis .
qed

text \<open>The range loop of a character class: whether the rune was in a range, and what follows the class.\<close>

function class_loop :: "nat \<Rightarrow> bool \<Rightarrow> bool \<Rightarrow> string \<Rightarrow> (bool \<times> string) option" where
  "class_loop r first matched chunk =
     (if chunk \<noteq> [] \<and> hd chunk = CHR '']'' \<and> \<not> first then Some (matched, tl chunk)
      else
        (case get_esc chunk of
           None \<Rightarrow> None
         | Some (lo, c1) \<Rightarrow>
             if hd c1 = CHR ''-'' then
               (case get_esc (tl c1) of
                  None \<Rightarrow> None
                | Some (hi, c2) \<Rightarrow> class_loop r False (matched \<or> (lo \<le> r \<and> r \<le> hi)) c2)
             else class_loop r False (matched \<or> r = lo) c1))"
  by pat_completeness auto
termination
  by (relation "measure (\<lambda>(_, _, _, chunk). length chunk)")
     (auto dest!: get_esc_shorter simp: less_diff_conv)

declare class_loop.simps [simp del]

lemma class_loop_shorter:
  "class_loop r first matched chunk = Some (m, rest) \<Longrightarrow> length rest < length chunk"
proof (induction r first matched chunk rule: class_loop.induct)
  case (1 r first matched chunk)
  show ?case
  proof (cases "chunk \<noteq> [] \<and> hd chunk = CHR '']'' \<and> \<not> first")
    case True
    then have "rest = tl chunk" using "1.prems" by (subst (asm) class_loop.simps) simp
    then show ?thesis using True by simp
  next
    case False
    then obtain lo c1 where esc: "get_esc chunk = Some (lo, c1)"
      using "1.prems" by (auto simp: class_loop.simps [of r first matched chunk] split: option.splits)
    then have short: "length c1 < length chunk" by (rule get_esc_shorter)
    show ?thesis
    proof (cases "hd c1 = CHR ''-''")
      case True
      then obtain hi c2 where esc2: "get_esc (tl c1) = Some (hi, c2)"
        using "1.prems" False esc by (auto simp: class_loop.simps [of r first matched chunk] split: option.splits)
      then have "class_loop r False (matched \<or> (lo \<le> r \<and> r \<le> hi)) c2 = Some (m, rest)"
        using "1.prems" False esc True by (subst (asm) class_loop.simps) auto
      then have "length rest < length c2" using "1.IH"(1) [OF False esc refl True esc2 refl] by simp
      then show ?thesis using get_esc_shorter [OF esc2] short by simp
    next
      case no: False
      then have "class_loop r False (matched \<or> r = lo) c1 = Some (m, rest)"
        using "1.prems" False esc by (subst (asm) class_loop.simps) auto
      then show ?thesis using "1.IH"(2) [OF False esc refl no] short by simp
    qed
  qed
qed

text \<open>
  \<^verbatim>\<open>matchChunk\<close>: \<open>None\<close> for a bad pattern, \<open>Some None\<close> for no match, \<open>Some (Some t)\<close> when the chunk
  matches and \<open>t\<close> is left. Once it has failed, the loop only goes on to check the pattern.
\<close>

function match_chunk :: "bool \<Rightarrow> string \<Rightarrow> string \<Rightarrow> string option option" where
  "match_chunk failed0 [] s = Some (if failed0 then None else Some s)"
| "match_chunk failed0 (c # chunk) s =
     (let failed = (failed0 \<or> s = []) in
      if c = CHR ''['' then
        (let (r, n) = (if failed then (0, 0) else decode_rune s);
             negated = HasPrefix chunk ''^'';
             body = (if negated then tl chunk else chunk)
         in case class_loop r True False body of
              None \<Rightarrow> None
            | Some (m, rest) \<Rightarrow> match_chunk (failed \<or> m = negated) rest (drop n s))
      else if c = CHR ''?'' then
        (if failed then match_chunk failed chunk s
         else match_chunk (hd s = CHR ''/'') chunk (drop (snd (decode_rune s)) s))
      else if c = CHR 0x5C then
        (case chunk of
           [] \<Rightarrow> None
         | d # chunk' \<Rightarrow>
             if failed then match_chunk failed chunk' s else match_chunk (d \<noteq> hd s) chunk' (tl s))
      else if failed then match_chunk failed chunk s
      else match_chunk (c \<noteq> hd s) chunk (tl s))"
  by pat_completeness auto
termination
  by (relation "measure (\<lambda>(_, chunk, _). length chunk)")
     (auto dest!: class_loop_shorter split: if_splits)

declare match_chunk.simps(2) [simp del]

section \<open>Match\<close>

text \<open>\<^verbatim>\<open>scanChunk\<close> after its leading stars: the chunk and the rest of the pattern.\<close>

fun scan_body :: "bool \<Rightarrow> string \<Rightarrow> string \<times> string" where
  "scan_body inrange [] = ([], [])"
| "scan_body inrange (c # cs) =
     (if c = CHR 0x5C then
        (case cs of
           [] \<Rightarrow> ([c], [])
         | d # ds \<Rightarrow> (case scan_body inrange ds of (a, b) \<Rightarrow> (c # d # a, b)))
      else if c = CHR ''*'' \<and> \<not> inrange then ([], c # cs)
      else
        (case scan_body (if c = CHR ''['' then True else if c = CHR '']'' then False else inrange) cs of
           (a, b) \<Rightarrow> (c # a, b)))"

definition scan_chunk :: "string \<Rightarrow> bool \<times> string \<times> string" where
  "scan_chunk p =
     (let q = dropWhile (\<lambda>c. c = CHR ''*'') p in
      (HasPrefix p ''*'', fst (scan_body False q), snd (scan_body False q)))"

text \<open>The search of a star: skip one byte after the other, never a slash, until the chunk matches (and,
  for the last chunk, uses up the name).\<close>

fun star_search :: "bool \<Rightarrow> string \<Rightarrow> string \<Rightarrow> string option option" where
  "star_search last_chunk chunk [] = Some None"
| "star_search last_chunk chunk (c # name) =
     (if c = CHR ''/'' then Some None
      else
        (case match_chunk False chunk name of
           None \<Rightarrow> None
         | Some (Some t) \<Rightarrow>
             if last_chunk \<and> t \<noteq> [] then star_search last_chunk chunk name else Some (Some t)
         | Some None \<Rightarrow> star_search last_chunk chunk name))"

lemma scan_body_length: "length (snd (scan_body b p)) \<le> length p"
proof (induction b p rule: scan_body.induct)
  case (2 b c cs)
  show ?case
  proof (cases "c = CHR 0x5C")
    case True
    show ?thesis
    proof (cases cs)
      case (Cons d ds)
      then have "length (snd (scan_body b ds)) \<le> length ds" using 2 True by blast
      then show ?thesis using True Cons by (simp add: case_prod_beta)
    qed (simp add: True)
  next
    case False
    then show ?thesis using 2
      by (cases "c = CHR ''*'' \<and> \<not> b") (simp_all add: case_prod_beta)
  qed
qed simp

lemma scan_body_progress:
  assumes "p \<noteq> []" and "hd p \<noteq> CHR ''*''"
  shows "length (snd (scan_body False p)) < length p"
proof (cases p)
  case (Cons c cs)
  show ?thesis
  proof (cases "c = CHR 0x5C")
    case True
    then show ?thesis using Cons scan_body_length [of False "tl cs"]
      by (cases cs) (simp_all add: case_prod_beta)
  next
    case False
    let ?b = "if c = CHR ''['' then True else if c = CHR '']'' then False else False"
    have "snd (scan_body False p) = snd (scan_body ?b cs)"
      using Cons False assms(2) by (simp add: case_prod_beta)
    then show ?thesis using scan_body_length [of ?b cs] Cons by simp
  qed
qed (simp add: assms)

lemma scan_chunk_progress:
  "p \<noteq> [] \<Longrightarrow> scan_chunk p = (star, chunk, rest) \<Longrightarrow> length rest < length p"
proof -
  assume p: "p \<noteq> []" and s: "scan_chunk p = (star, chunk, rest)"
  let ?q = "dropWhile (\<lambda>c. c = CHR ''*'') p"
  have rest: "rest = snd (scan_body False ?q)" using s by (simp add: scan_chunk_def Let_def)
  have q: "length ?q \<le> length p" by (rule length_dropWhile_le)
  show ?thesis
  proof (cases "?q = []")
    case True
    then have "rest = []" using rest by (simp only: scan_body.simps snd_conv)
    then show ?thesis using p by simp
  next
    case False
    then have "hd ?q \<noteq> CHR ''*''" using hd_dropWhile [of "\<lambda>c. c = CHR ''*''" p] by simp
    then show ?thesis using scan_body_progress [OF False] rest q by simp
  qed
qed

text \<open>After a mismatch the rest of the pattern is only checked.\<close>

function check_rest :: "string \<Rightarrow> bool option" where
  "check_rest p =
     (if p = [] then Some False
      else
        (case scan_chunk p of
           (_, chunk, rest) \<Rightarrow>
             (case match_chunk False chunk [] of None \<Rightarrow> None | Some _ \<Rightarrow> check_rest rest)))"
  by pat_completeness auto
termination
  by (relation "measure length") (auto dest: scan_chunk_progress [OF _ sym])

declare check_rest.simps [simp del]

function Match :: "string \<Rightarrow> string \<Rightarrow> bool option" where
  "Match p name =
     (if p = [] then Some (name = [])
      else
        (case scan_chunk p of
           (star, chunk, rest) \<Rightarrow>
             if star \<and> chunk = [] then Some (CHR ''/'' \<notin> set name)
             else
               (case match_chunk False chunk name of
                  None \<Rightarrow> None
                | Some m \<Rightarrow>
                    (case m of
                       Some t \<Rightarrow>
                         if t = [] \<or> rest \<noteq> [] then Match rest t
                         else if star then
                           (case star_search (rest = []) chunk name of
                              None \<Rightarrow> None
                            | Some (Some t') \<Rightarrow> Match rest t'
                            | Some None \<Rightarrow> check_rest rest)
                         else check_rest rest
                     | None \<Rightarrow>
                         if star then
                           (case star_search (rest = []) chunk name of
                              None \<Rightarrow> None
                            | Some (Some t') \<Rightarrow> Match rest t'
                            | Some None \<Rightarrow> check_rest rest)
                         else check_rest rest))))"
  by pat_completeness auto
termination
  by (relation "measure (\<lambda>(p, _). length p)") (auto dest: scan_chunk_progress [OF _ sym])

declare Match.simps [simp del]

end
