(* ===== verification/GoPath.thy ===== *)
theory GoPath
  imports GoStrings
begin

text \<open>
  The lexical path functions of Go's \<^verbatim>\<open>path\<close> and \<^verbatim>\<open>path/filepath\<close> packages on a Unix system
  (where \<^verbatim>\<open>path.Clean\<close> and \<^verbatim>\<open>filepath.Clean\<close> agree): \<^verbatim>\<open>Clean\<close>, \<^verbatim>\<open>Join\<close>, \<^verbatim>\<open>Dir\<close>,
  \<^verbatim>\<open>Rel\<close>, \<^verbatim>\<open>IsLocal\<close>, \<^verbatim>\<open>IsAbs\<close>. They are stated over the list of elements of a path, and the
  lemmas describe each of them by the elements of the cleaned path, \<open>clean_comps\<close>.
\<close>

section \<open>Definitions\<close>

definition IsAbs :: "string \<Rightarrow> bool" where
  "IsAbs s = HasPrefix s ''/''"

definition path_elems :: "string \<Rightarrow> string list" where
  "path_elems s = filter (\<lambda>e. e \<noteq> [] \<and> e \<noteq> ''.'') (split_on CHR ''/'' s)"

text \<open>
  The loop of \<^verbatim>\<open>Clean\<close>: the accumulator is the output so far, last element first. A dot-dot removes
  the last element, is dropped at a root, and is kept where there is nothing to remove.
\<close>

fun clean_elems :: "bool \<Rightarrow> string list \<Rightarrow> string list \<Rightarrow> string list" where
  "clean_elems r acc [] = rev acc"
| "clean_elems r acc (e # es) =
     (if e = ''..'' then
        (if acc \<noteq> [] \<and> hd acc \<noteq> ''..'' then clean_elems r (tl acc) es
         else if r then clean_elems r acc es
         else clean_elems r (''..'' # acc) es)
      else clean_elems r (e # acc) es)"

definition clean_comps :: "string \<Rightarrow> string list" where
  "clean_comps s = clean_elems (IsAbs s) [] (path_elems s)"

definition path_string :: "bool \<Rightarrow> string list \<Rightarrow> string" where
  "path_string r es =
     (if r then CHR ''/'' # join_with CHR ''/'' es
      else if es = [] then ''.'' else join_with CHR ''/'' es)"

definition Clean :: "string \<Rightarrow> string" where
  "Clean s = path_string (IsAbs s) (clean_comps s)"

text \<open>\<^verbatim>\<open>filepath.Join\<close> of two elements: empty leading elements are dropped, and the empty path is
  the join of empty elements.\<close>

definition Join :: "string \<Rightarrow> string \<Rightarrow> string" where
  "Join a b =
     (if a \<noteq> [] then Clean (a @ ''/'' @ b) else if b \<noteq> [] then Clean b else [])"

definition dir_part :: "string \<Rightarrow> string" where
  "dir_part s = (case LastIndexByte s CHR ''/'' of None \<Rightarrow> [] | Some i \<Rightarrow> take (Suc i) s)"

definition Dir :: "string \<Rightarrow> string" where
  "Dir s = Clean (dir_part s)"

definition IsLocal :: "string \<Rightarrow> bool" where
  "IsLocal s =
     (if IsAbs s \<or> s = [] then False
      else
        (let dots = list_ex (\<lambda>e. e = ''.'' \<or> e = ''..'') (split_on CHR ''/'' s);
             p = (if dots then Clean s else s)
         in \<not> (p = ''..'' \<or> HasPrefix p ''../'')))"

text \<open>
  The element loop of \<^verbatim>\<open>Rel\<close>: drop what base and target share; at the first difference a base element
  dot-dot is an error, and otherwise each base element that is left becomes a dot-dot.
\<close>

fun rel_walk :: "string list \<Rightarrow> string list \<Rightarrow> string list option" where
  "rel_walk [] ts = Some ts"
| "rel_walk (b # bs) [] = Some (replicate (Suc (length bs)) ''..'')"
| "rel_walk (b # bs) (t # ts) =
     (if b = t then rel_walk bs ts
      else if b = ''..'' then None
      else Some (replicate (Suc (length bs)) ''..'' @ t # ts))"

definition Rel :: "string \<Rightarrow> string \<Rightarrow> string option" where
  "Rel basepath targpath =
     (let b = Clean basepath; t = Clean targpath in
      if t = b then Some ''.''
      else if IsAbs b \<noteq> IsAbs t then None
      else map_option (join_with CHR ''/'')
             (rel_walk (if b = ''.'' then [] else clean_comps b)
                       (if t = ''.'' then [''.''] else clean_comps t)))"

section \<open>Elements\<close>

definition elem_ok :: "string \<Rightarrow> bool" where
  "elem_ok e \<longleftrightarrow> e \<noteq> [] \<and> e \<noteq> ''.'' \<and> CHR ''/'' \<notin> set e"

text \<open>A name that a directory entry can have.\<close>

definition plain_elem :: "string \<Rightarrow> bool" where
  "plain_elem e \<longleftrightarrow> elem_ok e \<and> e \<noteq> ''..''"

lemma elem_ok_dotdot [simp]: "elem_ok ''..''"
  by (simp add: elem_ok_def)

lemma plain_elem_ok [dest, intro]: "plain_elem e \<Longrightarrow> elem_ok e"
  by (simp add: plain_elem_def)

lemma path_elems_ok: "e \<in> set (path_elems s) \<Longrightarrow> elem_ok e"
  by (auto simp: path_elems_def elem_ok_def dest: split_on_no_sep)

lemma path_elems_Nil [simp]: "path_elems [] = []"
  by (simp add: path_elems_def)

lemma path_elems_append: "path_elems (a @ CHR ''/'' # b) = path_elems a @ path_elems b"
  by (simp add: path_elems_def split_on_append)

lemma path_elems_slash: "path_elems (CHR ''/'' # b) = path_elems b"
  using path_elems_append [of "[]" b] by simp

lemma path_elems_join:
  "list_all elem_ok es \<Longrightarrow> path_elems (join_with CHR ''/'' es) = es"
proof (cases "es = []")
  case False
  assume ok: "list_all elem_ok es"
  then have "split_on CHR ''/'' (join_with CHR ''/'' es) = es"
    using False by (intro split_join_with) (auto simp: list_all_iff elem_ok_def)
  with ok show ?thesis
    by (simp add: path_elems_def filter_id_conv list_all_iff elem_ok_def)
qed simp

lemma IsAbs_join: "list_all elem_ok es \<Longrightarrow> \<not> IsAbs (join_with CHR ''/'' es)"
proof (cases es)
  case (Cons e es')
  assume "list_all elem_ok es"
  with Cons have e: "e \<noteq> []" "CHR ''/'' \<notin> set e" by (auto simp: elem_ok_def)
  then obtain c cs where "e = c # cs" "c \<noteq> CHR ''/''" by (cases e) auto
  then show ?thesis using Cons by (cases es') (simp_all add: IsAbs_def)
qed (simp add: IsAbs_def)

lemma IsAbs_path_string [simp]: "list_all elem_ok es \<Longrightarrow> IsAbs (path_string r es) = r"
  by (cases r) (auto simp: path_string_def IsAbs_join, simp_all add: IsAbs_def)

lemma path_elems_path_string [simp]:
  "list_all elem_ok es \<Longrightarrow> path_elems (path_string r es) = es"
  by (auto simp: path_string_def path_elems_slash path_elems_join, simp add: path_elems_def)

lemma path_string_inj:
  assumes "path_string r es = path_string r' es'" and "list_all elem_ok es" and "list_all elem_ok es'"
  shows "r = r' \<and> es = es'"
  using assms by (metis IsAbs_path_string path_elems_path_string)

section \<open>The loop of Clean\<close>

lemma list_all_tl: "list_all P xs \<Longrightarrow> list_all P (tl xs)"
  by (cases xs) auto

lemma clean_elems_ok:
  "list_all elem_ok acc \<Longrightarrow> list_all elem_ok es \<Longrightarrow> list_all elem_ok (clean_elems r acc es)"
proof (induction r acc es rule: clean_elems.induct)
  case (1 r acc)
  then show ?case by (simp add: list_all_iff)
next
  case (2 r acc e es)
  then show ?case by (cases "acc = []") (auto simp: list_all_tl)
qed

lemma clean_comps_ok [simp]: "list_all elem_ok (clean_comps s)"
  unfolding clean_comps_def by (rule clean_elems_ok) (auto simp: list_all_iff path_elems_ok)

lemma clean_comps_elem: "e \<in> set (clean_comps s) \<Longrightarrow> elem_ok e"
  using clean_comps_ok [of s] by (simp add: list_all_iff)

lemma clean_elems_append:
  "clean_elems r acc (xs @ ys) = clean_elems r (rev (clean_elems r acc xs)) ys"
  by (induction r acc xs rule: clean_elems.induct) auto

lemma clean_elems_no_dots:
  "''..'' \<notin> set es \<Longrightarrow> clean_elems r acc es = rev acc @ es"
  by (induction es arbitrary: acc) auto

text \<open>The output is some dot-dots, none at a root, followed by ordinary elements.\<close>

definition dots_first :: "bool \<Rightarrow> string list \<Rightarrow> bool" where
  "dots_first r es \<longleftrightarrow> (\<exists>k ns. es = replicate k ''..'' @ ns \<and> ''..'' \<notin> set ns \<and> (r \<longrightarrow> k = 0))"

lemma dots_first_pop:
  assumes "dots_first r (rev acc)" and "acc \<noteq> []" and "hd acc \<noteq> ''..''"
  shows "dots_first r (rev (tl acc))"
proof -
  obtain a as where acc: "acc = a # as" using assms(2) by (cases acc) auto
  obtain k ns where ns: "rev as @ [a] = replicate k ''..'' @ ns" "''..'' \<notin> set ns" "r \<longrightarrow> k = 0"
    using assms(1) acc by (auto simp: dots_first_def)
  show ?thesis
  proof (cases ns rule: rev_cases)
    case Nil
    then have "a \<in> set (replicate k ''..'')" using ns(1) by (metis append.right_neutral in_set_conv_decomp)
    then show ?thesis using assms(3) acc by auto
  next
    case (snoc ms m)
    then have "rev as = replicate k ''..'' @ ms" using ns(1) by simp
    then show ?thesis using ns snoc acc by (auto simp: dots_first_def)
  qed
qed

lemma dots_first_push_dots:
  assumes "dots_first r (rev acc)" and "\<not> (acc \<noteq> [] \<and> hd acc \<noteq> ''..'')" and "\<not> r"
  shows "dots_first r (rev (''..'' # acc))"
proof -
  obtain k ns where ns: "rev acc = replicate k ''..'' @ ns" "''..'' \<notin> set ns"
    using assms(1) by (auto simp: dots_first_def)
  have "ns = []"
  proof (rule ccontr)
    assume "ns \<noteq> []"
    then have "last (rev acc) = last ns" "acc \<noteq> []" using ns(1) by auto
    then have "hd acc \<in> set ns" using \<open>ns \<noteq> []\<close> by (metis last_in_set last_rev)
    then show False using assms(2) \<open>acc \<noteq> []\<close> ns(2) by auto
  qed
  then have "rev (''..'' # acc) = replicate (Suc k) ''..'' @ []"
    using ns(1) by (simp add: replicate_append_same)
  then show ?thesis using assms(3) unfolding dots_first_def by (metis empty_iff empty_set)
qed

lemma dots_first_push:
  assumes "dots_first r (rev acc)" and "e \<noteq> ''..''"
  shows "dots_first r (rev (e # acc))"
proof -
  obtain k ns where "rev acc = replicate k ''..'' @ ns" "''..'' \<notin> set ns" "r \<longrightarrow> k = 0"
    using assms(1) by (auto simp: dots_first_def)
  then have "rev (e # acc) = replicate k ''..'' @ (ns @ [e])" "''..'' \<notin> set (ns @ [e])" "r \<longrightarrow> k = 0"
    using assms(2) by auto
  then show ?thesis unfolding dots_first_def by blast
qed

lemma clean_elems_dots_first:
  "dots_first r (rev acc) \<Longrightarrow> dots_first r (clean_elems r acc es)"
proof (induction r acc es rule: clean_elems.induct)
  case (2 r acc e es)
  consider "e \<noteq> ''..''" | "e = ''..''" "acc \<noteq> [] \<and> hd acc \<noteq> ''..''"
    | "e = ''..''" "\<not> (acc \<noteq> [] \<and> hd acc \<noteq> ''..'')" r
    | "e = ''..''" "\<not> (acc \<noteq> [] \<and> hd acc \<noteq> ''..'')" "\<not> r" by blast
  then show ?case
  proof cases
    case 1
    with 2 show ?thesis using dots_first_push by simp
  next
    case c: 2
    with 2 show ?thesis using dots_first_pop by simp
  next
    case 3
    with 2 show ?thesis by (cases "acc = []") auto
  next
    case 4
    then have "dots_first r (rev (''..'' # acc))" using "2.prems" dots_first_push_dots by blast
    with 2 4 show ?thesis by (cases "acc = []") auto
  qed
qed simp

lemma dots_first_Nil [simp]: "dots_first r []"
  by (simp add: dots_first_def)

lemma clean_comps_dots_first: "dots_first (IsAbs s) (clean_comps s)"
  by (simp add: clean_comps_def clean_elems_dots_first)

lemma clean_elems_replicate: "\<not> r \<Longrightarrow> list_all (\<lambda>a. a = ''..'') acc \<Longrightarrow>
    clean_elems r acc (replicate k ''..'') = rev acc @ replicate k ''..''"
  by (induction k arbitrary: acc) (auto simp: replicate_append_same list_all_iff hd_in_set)

lemma clean_elems_fixed:
  assumes "dots_first r es"
  shows "clean_elems r [] es = es"
proof -
  obtain k ns where es: "es = replicate k ''..'' @ ns" and ns: "''..'' \<notin> set ns" "r \<longrightarrow> k = 0"
    using assms by (auto simp: dots_first_def)
  have "clean_elems r [] (replicate k ''..'') = replicate k ''..''"
    using ns(2) by (cases r) (simp_all add: clean_elems_replicate)
  then show ?thesis using ns by (simp add: es clean_elems_append clean_elems_no_dots)
qed

lemma IsAbs_Clean [simp]: "IsAbs (Clean s) = IsAbs s"
  by (simp add: Clean_def)

lemma clean_comps_Clean [simp]: "clean_comps (Clean s) = clean_comps s"
  by (simp add: clean_comps_def [of "Clean s"])
     (simp add: Clean_def clean_elems_fixed clean_comps_dots_first)

lemma Clean_idem [simp]: "Clean (Clean s) = Clean s"
  by (simp add: Clean_def [of "Clean s"]) (simp add: Clean_def)

lemma clean_comps_path_string:
  "list_all elem_ok es \<Longrightarrow> dots_first r es \<Longrightarrow> clean_comps (path_string r es) = es"
  by (simp add: clean_comps_def clean_elems_fixed)

lemma dots_first_plain: "''..'' \<notin> set es \<Longrightarrow> dots_first r es"
  unfolding dots_first_def by (metis append_Nil replicate_0)

lemma IsAbs_no_dots: "IsAbs s \<Longrightarrow> ''..'' \<notin> set (clean_comps s)"
  using clean_comps_dots_first [of s] by (auto simp: dots_first_def)

lemma Clean_eq_iff: "Clean s = Clean t \<longleftrightarrow> IsAbs s = IsAbs t \<and> clean_comps s = clean_comps t"
proof
  assume eq: "Clean s = Clean t"
  have "IsAbs (Clean s) = IsAbs (Clean t)" "clean_comps (Clean s) = clean_comps (Clean t)"
    by (simp_all only: eq)
  then show "IsAbs s = IsAbs t \<and> clean_comps s = clean_comps t" by simp
qed (simp add: Clean_def)

lemma path_string_not_Nil:
  assumes "list_all elem_ok es"
  shows "path_string r es \<noteq> []"
proof -
  have "\<forall>e \<in> set es. e \<noteq> []" using assms by (auto simp: list_all_iff elem_ok_def)
  then have "join_with CHR ''/'' es = [] \<longleftrightarrow> es = []" by (rule join_with_eq_Nil)
  then show ?thesis by (cases "es = []") (simp_all add: path_string_def)
qed

lemma Clean_not_Nil [simp]: "Clean s \<noteq> []"
  unfolding Clean_def by (rule path_string_not_Nil) (rule clean_comps_ok)

lemma Clean_dot_iff: "Clean s = ''.'' \<longleftrightarrow> \<not> IsAbs s \<and> clean_comps s = []"
proof -
  have dot: "''.'' = path_string False []" by (simp add: path_string_def)
  have "list_all elem_ok ([] :: string list)" by simp
  then show ?thesis
    using path_string_inj [OF _ clean_comps_ok, of "IsAbs s" s False "[]"]
    unfolding Clean_def dot by auto
qed

section \<open>Join, IsLocal and Dir\<close>

lemma IsAbs_append [simp]: "a \<noteq> [] \<Longrightarrow> IsAbs (a @ b) = IsAbs a"
  by (cases a) (simp_all add: IsAbs_def)

lemma clean_comps_append_slash:
  "a \<noteq> [] \<Longrightarrow> clean_comps (a @ CHR ''/'' # b) = clean_elems (IsAbs a) (rev (clean_comps a)) (path_elems b)"
  unfolding clean_comps_def by (simp add: path_elems_append clean_elems_append del: append_Cons)

lemma dots_stay: "''..'' \<in> set acc \<Longrightarrow> ''..'' \<in> set (clean_elems False acc es)"
proof (induction es arbitrary: acc)
  case (Cons e es)
  obtain a as where "acc = a # as" using Cons.prems by (cases acc) auto
  with Cons show ?case by auto
qed simp

text \<open>Cleaning below a base: elements that never climb out of their start leave the base as it is.\<close>

lemma clean_elems_below:
  "''..'' \<notin> set (clean_elems False acc es) \<Longrightarrow>
    clean_elems r (acc @ base) es = rev base @ clean_elems False acc es"
proof (induction es arbitrary: acc)
  case (Cons e es)
  show ?case
  proof (cases "e = ''..''")
    case True
    show ?thesis
    proof (cases acc)
      case Nil
      have "''..'' \<in> set (clean_elems False [''..''] es)" by (rule dots_stay) simp
      then show ?thesis using Cons.prems Nil True by simp
    next
      case (Cons a as)
      have "a \<noteq> ''..''"
        using Cons.prems dots_stay [of "''..'' # acc" es] True Cons by auto
      then show ?thesis using Cons.IH [of as] Cons.prems Cons True by simp
    qed
  next
    case False
    then show ?thesis using Cons.IH [of "e # acc"] Cons.prems by simp
  qed
qed simp

lemma starts_dotdot_join:
  assumes "us \<noteq> []" and "\<forall>u \<in> set us. CHR ''/'' \<notin> set u"
  shows "(join_with CHR ''/'' us = ''..'' \<or> HasPrefix (join_with CHR ''/'' us) ''../'') \<longleftrightarrow> hd us = ''..''"
proof
  assume "join_with CHR ''/'' us = ''..'' \<or> HasPrefix (join_with CHR ''/'' us) ''../''"
  then show "hd us = ''..''"
  proof
    assume "join_with CHR ''/'' us = ''..''"
    then have "split_on CHR ''/'' (join_with CHR ''/'' us) = [''..'']" by simp
    then show ?thesis using assms by (simp add: split_join_with)
  next
    assume "HasPrefix (join_with CHR ''/'' us) ''../''"
    then obtain t where "join_with CHR ''/'' us = ''..'' @ CHR ''/'' # t" by (auto simp: prefix_def)
    then have "split_on CHR ''/'' (join_with CHR ''/'' us) = ''..'' # split_on CHR ''/'' t"
      using split_on_append_sep [of "CHR ''/''" "''..''" t] by simp
    then show ?thesis using assms by (simp add: split_join_with)
  qed
next
  assume hd: "hd us = ''..''"
  then obtain ws where "us = ''..'' # ws" using assms(1) by (cases us) auto
  then show "join_with CHR ''/'' us = ''..'' \<or> HasPrefix (join_with CHR ''/'' us) ''../''"
    by (cases ws) auto
qed

lemma elems_no_slash: "list_all elem_ok es \<Longrightarrow> \<forall>e \<in> set es. CHR ''/'' \<notin> set e"
  by (auto simp: list_all_iff elem_ok_def)

lemma dots_first_hd:
  assumes "dots_first r es"
  shows "''..'' \<in> set es \<longleftrightarrow> es \<noteq> [] \<and> hd es = ''..''"
proof -
  obtain k ns where "es = replicate k ''..'' @ ns" "''..'' \<notin> set ns"
    using assms by (auto simp: dots_first_def)
  then show ?thesis by (cases k; cases ns) auto
qed

theorem IsLocal_iff:
  "IsLocal s \<longleftrightarrow> s \<noteq> [] \<and> \<not> IsAbs s \<and> ''..'' \<notin> set (clean_comps s)"
proof (cases "IsAbs s \<or> s = []")
  case False
  let ?parts = "split_on CHR ''/'' s"
  show ?thesis
  proof (cases "list_ex (\<lambda>e. e = ''.'' \<or> e = ''..'') ?parts")
    case True
    have "(Clean s = ''..'' \<or> HasPrefix (Clean s) ''../'') \<longleftrightarrow> ''..'' \<in> set (clean_comps s)"
    proof (cases "clean_comps s = []")
      case True
      then show ?thesis using False by (simp add: Clean_def path_string_def)
    next
      case nonempty: False
      then have "Clean s = join_with CHR ''/'' (clean_comps s)"
        using False by (simp add: Clean_def path_string_def)
      then show ?thesis
        using starts_dotdot_join [OF nonempty elems_no_slash [OF clean_comps_ok]]
          dots_first_hd [OF clean_comps_dots_first, of s] nonempty by simp
    qed
    then show ?thesis using False True by (auto simp: IsLocal_def Let_def)
  next
    case nodots: False
    have "''..'' \<notin> set ?parts" using nodots by (auto simp: list_ex_iff)
    then have "''..'' \<notin> set (path_elems s)" by (simp add: path_elems_def)
    then have "''..'' \<notin> set (clean_comps s)"
      by (simp add: clean_comps_def clean_elems_no_dots)
    moreover have "\<not> (s = ''..'' \<or> HasPrefix s ''../'')"
      using starts_dotdot_join [of ?parts] split_on_no_sep \<open>''..'' \<notin> set ?parts\<close>
      by (metis hd_in_set join_split_on split_on_not_Nil)
    ultimately show ?thesis using False nodots by (simp add: IsLocal_def Let_def)
  qed
qed (auto simp: IsLocal_def)

lemma IsAbs_Join [simp]: "a \<noteq> [] \<Longrightarrow> IsAbs (Join a b) = IsAbs a"
  by (simp add: Join_def)

lemma clean_comps_Join_local:
  assumes "a \<noteq> []" and "\<not> IsAbs b" and "''..'' \<notin> set (clean_comps b)"
  shows "clean_comps (Join a b) = clean_comps a @ clean_comps b"
  using assms clean_elems_below [of "[]" "path_elems b" "IsAbs a" "rev (clean_comps a)"]
  by (simp add: Join_def clean_comps_append_slash clean_comps_def [of b])

lemma Join_local:
  assumes "a \<noteq> []" and "\<not> IsAbs b" and "''..'' \<notin> set (clean_comps b)"
  shows "Join a b = path_string (IsAbs a) (clean_comps a @ clean_comps b)"
proof -
  have "Join a b = Clean (Join a b)" using assms(1) by (simp add: Join_def)
  also have "\<dots> = path_string (IsAbs (Join a b)) (clean_comps (Join a b))" by (simp only: Clean_def)
  finally show ?thesis using assms by (simp add: clean_comps_Join_local)
qed

text \<open>A single name, such as a directory entry.\<close>

lemma clean_comps_name: "plain_elem e \<Longrightarrow> clean_comps e = [e]"
  by (simp add: clean_comps_def path_elems_def plain_elem_def elem_ok_def)

lemma IsAbs_name: "plain_elem e \<Longrightarrow> \<not> IsAbs e"
  by (cases e) (auto simp: plain_elem_def elem_ok_def IsAbs_def)

lemma Join_name:
  "a \<noteq> [] \<Longrightarrow> plain_elem e \<Longrightarrow> Join a e = path_string (IsAbs a) (clean_comps a @ [e])"
  by (auto simp: Join_local clean_comps_name IsAbs_name plain_elem_def)

lemma LastIndexByte_free: "c \<notin> set w \<Longrightarrow> LastIndexByte w c = None"
  by (induction w) auto

lemma LastIndexByte_append: "c \<notin> set w \<Longrightarrow> LastIndexByte (b @ c # w) c = Some (length b)"
  by (induction b) (auto simp: LastIndexByte_free)

lemma dir_part_slash: "CHR ''/'' \<notin> set w \<Longrightarrow> dir_part (b @ CHR ''/'' # w) = b @ ''/''"
  by (simp add: dir_part_def LastIndexByte_append)

lemma dir_part_free: "CHR ''/'' \<notin> set w \<Longrightarrow> dir_part w = []"
  by (simp add: dir_part_def LastIndexByte_free)

lemma path_elems_trailing: "path_elems (b @ ''/'') = path_elems b"
  using path_elems_append [of b "[]"] by simp

lemma path_string_snoc:
  "path_string r (es @ [e]) =
     (if r then (if es = [] then CHR ''/'' # e else path_string r es @ CHR ''/'' # e)
      else if es = [] then e else path_string r es @ CHR ''/'' # e)"
  by (auto simp: path_string_def join_with_append)

lemma Dir_path_string:
  assumes "list_all elem_ok (es @ [e])" and "dots_first r es"
  shows "Dir (path_string r (es @ [e])) = path_string r es"
proof -
  have e: "CHR ''/'' \<notin> set e" and es: "list_all elem_ok es"
    using assms(1) by (auto simp: elem_ok_def)
  have fixed: "clean_elems r [] es = es" using assms(2) by (rule clean_elems_fixed)
  show ?thesis
  proof (cases "es = []")
    case True
    have "dir_part (CHR ''/'' # e) = ''/''" using dir_part_slash [OF e, of "[]"] by simp
    moreover have "path_elems ''/'' = []" by (simp add: path_elems_def)
    ultimately show ?thesis using True e
      by (simp add: path_string_snoc Dir_def Clean_def dir_part_free clean_comps_def IsAbs_def path_string_def)
  next
    case False
    let ?b = "path_string r es"
    have b: "?b \<noteq> []" using es by (rule path_string_not_Nil)
    have "Dir (path_string r (es @ [e])) = Clean (?b @ ''/'')"
      using False e by (simp add: path_string_snoc Dir_def dir_part_slash)
    also have "\<dots> = path_string r es"
      using b es fixed by (simp add: Clean_def clean_comps_def path_elems_trailing)
    finally show ?thesis .
  qed
qed

section \<open>Rel\<close>

text \<open>The test the program puts on a relative path: it starts with a dot-dot element.\<close>

definition climbs :: "string \<Rightarrow> bool" where
  "climbs rel \<longleftrightarrow> rel = ''..'' \<or> HasPrefix rel ''../''"

lemma climbs_join:
  "us \<noteq> [] \<Longrightarrow> \<forall>u \<in> set us. CHR ''/'' \<notin> set u \<Longrightarrow> climbs (join_with CHR ''/'' us) \<longleftrightarrow> hd us = ''..''"
  by (simp add: climbs_def starts_dotdot_join)

lemma rel_walk_prefix: "prefix bs ts \<Longrightarrow> rel_walk bs ts = Some (drop (length bs) ts)"
  by (induction bs ts rule: rel_walk.induct) auto

lemma rel_walk_not_prefix:
  "\<not> prefix bs ts \<Longrightarrow> rel_walk bs ts = Some us \<Longrightarrow> us \<noteq> [] \<and> hd us = ''..'' \<and> set us \<subseteq> insert ''..'' (set ts)"
  by (induction bs ts rule: rel_walk.induct) (auto split: if_splits)

lemma rel_walk_total: "''..'' \<notin> set bs \<Longrightarrow> \<exists>us. rel_walk bs ts = Some us"
  by (induction bs ts rule: rel_walk.induct) auto

text \<open>Lexical containment: \<open>t\<close> is at or below \<open>b\<close>.\<close>

definition inside :: "string \<Rightarrow> string \<Rightarrow> bool" where
  "inside b t \<longleftrightarrow> IsAbs b = IsAbs t \<and> prefix (clean_comps b) (clean_comps t)"

lemma drop_no_dots: "''..'' \<notin> set es \<Longrightarrow> ''..'' \<notin> set (drop n es)"
  by (auto dest: in_set_dropD)

lemma drop_ok: "list_all elem_ok es \<Longrightarrow> list_all elem_ok (drop n es)"
  by (auto simp: list_all_iff dest: in_set_dropD)

text \<open>Below the base, \<^verbatim>\<open>Rel\<close> gives the remaining elements.\<close>

lemma Rel_inside:
  assumes "inside b t"
  shows "Rel b t =
     Some (if clean_comps b = clean_comps t then ''.''
           else join_with CHR ''/'' (drop (length (clean_comps b)) (clean_comps t)))"
proof (cases "clean_comps b = clean_comps t")
  case True
  then have "Clean t = Clean b" using assms by (simp add: Clean_eq_iff inside_def)
  then show ?thesis using True by (simp add: Rel_def Let_def)
next
  case False
  have pre: "prefix (clean_comps b) (clean_comps t)" and abs: "IsAbs b = IsAbs t"
    using assms by (auto simp: inside_def)
  have "Clean t \<noteq> Clean b" using False by (simp add: Clean_eq_iff)
  moreover have "Clean t \<noteq> ''.''" using False pre by (auto simp: Clean_dot_iff)
  moreover have "(if Clean b = ''.'' then [] else clean_comps (Clean b)) = clean_comps b"
    by (simp add: Clean_dot_iff)
  ultimately show ?thesis
    using abs False by (simp add: Rel_def Let_def rel_walk_prefix [OF pre])
qed

text \<open>Outside the base, \<^verbatim>\<open>Rel\<close> fails or its result climbs.\<close>

lemma Rel_outside:
  assumes "\<not> inside b t" and "Rel b t = Some rel"
    and "''..'' \<notin> set (clean_comps b)" and "''..'' \<notin> set (clean_comps t)"
  shows "climbs rel"
proof -
  have ne: "Clean t \<noteq> Clean b" using assms(1) by (auto simp: Clean_eq_iff inside_def)
  have abs: "IsAbs b = IsAbs t" using assms(2) ne by (auto simp: Rel_def Let_def split: if_splits)
  let ?ts = "if Clean t = ''.'' then [''.''] else clean_comps t"
  have bs: "(if Clean b = ''.'' then [] else clean_comps b) = clean_comps b"
    by (simp add: Clean_dot_iff)
  obtain us where us: "rel_walk (clean_comps b) ?ts = Some us" "rel = join_with CHR ''/'' us"
    using assms(2) ne abs bs by (auto simp: Rel_def Let_def split: if_splits)
  have "\<not> prefix (clean_comps b) ?ts"
  proof (cases "Clean t = ''.''")
    case True
    then have "clean_comps b \<noteq> []"
      using ne abs by (auto simp: Clean_eq_iff Clean_dot_iff)
    then obtain c cs where b: "clean_comps b = c # cs" by (cases "clean_comps b") auto
    then have "elem_ok c" using clean_comps_elem [of c b] by simp
    then show ?thesis using True b by (simp add: elem_ok_def)
  next
    case False
    then show ?thesis using assms(1) abs by (simp add: inside_def)
  qed
  then have "us \<noteq> [] \<and> hd us = ''..'' \<and> set us \<subseteq> insert ''..'' (set ?ts)"
    using us(1) by (rule rel_walk_not_prefix)
  moreover from this have "\<forall>u \<in> set us. CHR ''/'' \<notin> set u"
    using elems_no_slash [OF clean_comps_ok, of t] by (fastforce split: if_splits)
  ultimately show ?thesis using us(2) by (simp add: climbs_join)
qed

lemma not_climbs_dot [simp]: "\<not> climbs ''.''"
  by (simp add: climbs_def)

lemma Rel_inside_not_climbs:
  assumes "inside b t" and "Rel b t = Some rel" and "''..'' \<notin> set (clean_comps t)"
  shows "\<not> climbs rel \<and> \<not> IsAbs rel"
proof (cases "clean_comps b = clean_comps t")
  case True
  then have "rel = ''.''" using assms(2) Rel_inside [OF assms(1)] by simp
  then show ?thesis by (simp add: IsAbs_def climbs_def)
next
  case False
  let ?us = "drop (length (clean_comps b)) (clean_comps t)"
  have us: "?us \<noteq> []" using False assms(1) by (auto simp: inside_def prefix_def)
  have rel: "rel = join_with CHR ''/'' ?us" using assms(2) Rel_inside [OF assms(1)] False by simp
  have ok: "list_all elem_ok ?us" by (rule drop_ok) (rule clean_comps_ok)
  have "hd ?us \<noteq> ''..''" using us drop_no_dots [OF assms(3)] by (metis hd_in_set)
  then show ?thesis
    using us climbs_join [OF us elems_no_slash [OF ok]] IsAbs_join [OF ok] rel by simp
qed

theorem Rel_contained_iff:
  assumes "''..'' \<notin> set (clean_comps b)" and "''..'' \<notin> set (clean_comps t)"
  shows "(\<exists>rel. Rel b t = Some rel \<and> \<not> climbs rel \<and> \<not> IsAbs rel) \<longleftrightarrow> inside b t"
  using Rel_inside [of b t] Rel_inside_not_climbs [of b t] Rel_outside [of b t] assms by blast

lemma inside_refl [simp]: "inside b b"
  by (simp add: inside_def)

lemma inside_trans: "inside a b \<Longrightarrow> inside b c \<Longrightarrow> inside a c"
  by (auto simp: inside_def intro: prefix_order.trans)

lemma inside_Clean [simp]:
  "inside (Clean b) t = inside b t"
  "inside b (Clean t) = inside b t"
  by (simp_all add: inside_def)

end
