(* ===== verification/Volume.thy ===== *)
theory Volume
  imports GoPath GoUrl
begin

text \<open>
  \<^verbatim>\<open>pkg/volume/attributes.go\<close>: the CSI volume attributes of a request, their validation and
  normalisation. Every function of the file is modelled; an error is its text.
\<close>

section \<open>Attributes\<close>

record attributes =
  at_repo :: string
  at_revision :: string
  at_revision_kind :: string
  at_path :: string
  at_depth :: int
  at_submodules :: bool
  at_lfs :: bool
  at_policy :: string
  at_credential_profile :: string
  at_refresh_seconds :: int

section \<open>Repository\<close>

definition blank_bytes :: string where
  "blank_bytes = [CHR 0x20, CHR 0x09, CHR 0x0D, CHR 0x0A]"

definition err_remote :: string where
  "err_remote = ''volume attribute repo must be a remote http, https, or ssh repository URL''"

text \<open>\<^verbatim>\<open>if at := Index(repo, "@"); at > 0 { after := repo[at+1:]; if colon := Index(after, ":"); ... }\<close>\<close>

definition scp_like :: "string \<Rightarrow> bool" where
  "scp_like repo =
     (case Index repo ''@'' of
        None \<Rightarrow> False
      | Some at \<Rightarrow>
          at > 0 \<and>
          (let after = drop (at + 1) repo in
           case Index after '':'' of
             None \<Rightarrow> False
           | Some colon \<Rightarrow> colon > 0 \<and> colon + 1 < length after))"

definition validateRepo :: "string \<Rightarrow> unit result" where
  "validateRepo repo =
     (if HasPrefix repo ''-'' then Inl (''volume attribute repo must not start with '' @ [CHR 0x27] @ ''-'' @ [CHR 0x27])
      else if ContainsAny repo blank_bytes then Inl ''volume attribute repo must not contain whitespace''
      else if HasPrefix repo ''file://'' \<or> HasPrefix repo ''/'' \<or> HasPrefix repo ''./'' \<or> HasPrefix repo ''../''
      then Inl err_remote
      else if Contains repo ''://'' then
        (case url_parse repo of
           None \<Rightarrow> Inl ''volume attribute repo must be a valid remote repository URL''
         | Some u \<Rightarrow>
             if Hostname u = [] then Inl ''volume attribute repo must be a valid remote repository URL''
             else if Scheme u \<in> {''http'', ''https'', ''ssh''} then Inr ()
             else Inl (''volume attribute repo scheme '' @ quoted (Scheme u) @ '' is not supported''))
      else if scp_like repo then Inr ()
      else Inl err_remote)"

section \<open>Revision\<close>

definition isHexSHA :: "string \<Rightarrow> bool" where
  "isHexSHA rv \<longleftrightarrow>
     length rv = 40 \<and>
     list_all (\<lambda>ch. \<not> ((ch < CHR ''0'' \<or> ch > CHR ''9'') \<and> (ch < CHR ''a'' \<or> ch > CHR ''f''))) rv"

text \<open>The bytes of the raw string literal: a space, \<^verbatim>\<open>~^:?*[\<close> and a backslash.\<close>

definition unsafe_ref_bytes :: string where
  "unsafe_ref_bytes = '' ~^:?*['' @ [CHR 0x5C]"

definition isSafeGitRefName :: "string \<Rightarrow> bool" where
  "isSafeGitRefName name =
     (if name = [] \<or> HasPrefix name ''-'' \<or> HasPrefix name ''/'' \<or> HasSuffix name ''/'' then False
      else if Contains name ''//'' \<or> Contains name ''..'' \<or> Contains name (''@'' @ ''{'') then False
      else if ContainsAny name unsafe_ref_bytes \<or> HasSuffix name ''.'' \<or> HasSuffix name ''.lock'' then False
      else list_all (\<lambda>part. \<not> (part = [] \<or> part = ''.'' \<or> part = ''..'' \<or> HasPrefix part ''.'' \<or> HasSuffix part ''.lock''))
             (split_on CHR ''/'' name))"

definition ref_prefixes :: "string list" where
  "ref_prefixes = [''refs/heads/'', ''refs/tags/'', ''branch:'', ''tag:'']"

definition ref_name :: "string \<Rightarrow> string" where
  "ref_name rv =
     (case find (\<lambda>p. HasPrefix rv p) ref_prefixes of None \<Rightarrow> rv | Some p \<Rightarrow> TrimPrefix rv p)"

definition validateRevision :: "string \<Rightarrow> unit result" where
  "validateRevision rv =
     (if ContainsAny rv (blank_bytes @ [CHR 0x00])
      then Inl ''volume attribute revision must not contain whitespace or control characters''
      else if HasPrefix rv ''-''
      then Inl (''volume attribute revision must not start with '' @ [CHR 0x27] @ ''-'' @ [CHR 0x27])
      else if isHexSHA rv then Inr ()
      else if \<not> isSafeGitRefName (ref_name rv)
      then Inl ''volume attribute revision must be a safe git ref name or commit SHA''
      else Inr ())"

section \<open>Path\<close>

definition normalizeRepoPath :: "string \<Rightarrow> string result" where
  "normalizeRepoPath raw =
     (if raw = [] then Inr []
      else if Contains raw [CHR 0x5C] then Inl ''volume attribute path must use forward slash separators''
      else if IsAbs raw then Inl ''volume attribute path must be relative''
      else
        (let cleaned = Clean raw in
         if cleaned = ''.'' then Inr []
         else if cleaned = ''..'' \<or> HasPrefix cleaned ''../''
         then Inl ''volume attribute path must stay within the repository''
         else if list_ex (\<lambda>part. part = ''.git'') (split_on CHR ''/'' cleaned)
         then Inl ''volume attribute path must not reference .git''
         else Inr cleaned))"

section \<open>Parse\<close>

definition parseBool :: "string \<Rightarrow> bool result" where
  "parseBool v =
     (let w = ToLower (TrimSpace v) in
      if w \<in> {''true'', ''1'', ''yes''} then Inr True
      else if w \<in> {''false'', ''0'', ''no''} then Inr False
      else Inl ''invalid bool'')"

definition parse_depth :: "string \<Rightarrow> int result" where
  "parse_depth depthRaw =
     (if depthRaw = [] then Inr 0
      else
        (case Atoi depthRaw of
           None \<Rightarrow> Inl ''volume attribute depth must be a positive integer''
         | Some n \<Rightarrow>
             if n \<le> 0 then Inl ''volume attribute depth must be a positive integer'' else Inr n))"

definition parse_flag :: "string \<Rightarrow> string \<Rightarrow> bool result" where
  "parse_flag name raw =
     (if raw = [] then Inr False
      else
        (case parseBool raw of
           Inl _ \<Rightarrow> Inl (''volume attribute '' @ name @ '' must be true|false'')
         | Inr b \<Rightarrow> Inr b))"

definition parse_refresh :: "string \<Rightarrow> int result" where
  "parse_refresh refreshRaw =
     (if refreshRaw = [] then Inr 0
      else
        (case Atoi refreshRaw of
           None \<Rightarrow> Inl ''volume attribute refreshSeconds must be a non-negative integer''
         | Some n \<Rightarrow>
             if n < 0 then Inl ''volume attribute refreshSeconds must be a non-negative integer'' else Inr n))"

definition Parse :: "gomap \<Rightarrow> attributes result" where
  "Parse raw =
     (let repo = TrimSpace (mget raw ''repo'');
          revision = TrimSpace (mget raw ''revision'');
          revisionKind = TrimSpace (mget raw ''revisionKind'');
          path = TrimSpace (mget raw ''path'');
          pol = TrimSpace (mget raw ''policy'');
          credentialProfile = TrimSpace (mget raw ''credentialProfile'')
      in if repo = [] then Inl ''volume attribute repo is required''
         else if revision = [] then Inl ''volume attribute revision is required''
         else
           bindE (validateRepo repo) (\<lambda>_.
           bindE (validateRevision revision) (\<lambda>_.
           bindE (normalizeRepoPath path) (\<lambda>normalizedPath.
           bindE (parse_depth (TrimSpace (mget raw ''depth''))) (\<lambda>depth.
           bindE (parse_flag ''submodules'' (TrimSpace (mget raw ''submodules''))) (\<lambda>submodules.
           bindE (parse_flag ''lfs'' (TrimSpace (mget raw ''lfs''))) (\<lambda>lfs.
           bindE (parse_refresh (TrimSpace (mget raw ''refreshSeconds''))) (\<lambda>refresh.
             Inr \<lparr>at_repo = repo, at_revision = revision, at_revision_kind = revisionKind,
                  at_path = normalizedPath, at_depth = depth, at_submodules = submodules,
                  at_lfs = lfs, at_policy = pol, at_credential_profile = credentialProfile,
                  at_refresh_seconds = refresh\<rparr>))))))))"

section \<open>Repositories: what is accepted\<close>

lemma blank_free_iff: "\<not> ContainsAny s blank_bytes \<longleftrightarrow> set s \<inter> set blank_bytes = {}"
  by (simp add: ContainsAny_iff)

text \<open>An scp-like name: a user, a host and a path, none of them empty.\<close>

definition scp_form :: "string \<Rightarrow> bool" where
  "scp_form repo \<longleftrightarrow>
     (\<exists>user host path. repo = user @ ''@'' @ host @ '':'' @ path
        \<and> user \<noteq> [] \<and> host \<noteq> [] \<and> path \<noteq> [] \<and> CHR ''@'' \<notin> set user \<and> CHR '':'' \<notin> set host)"

lemma scp_like_iff: "scp_like repo \<longleftrightarrow> scp_form repo"
proof
  assume "scp_like repo"
  then obtain at colon where at: "Index repo ''@'' = Some at" "at > 0"
    and colon: "Index (drop (at + 1) repo) '':'' = Some colon" "colon > 0"
      "colon + 1 < length (drop (at + 1) repo)"
    by (auto simp: scp_like_def Let_def split: option.splits)
  from at obtain user rest where u: "repo = user @ CHR ''@'' # rest" "CHR ''@'' \<notin> set user" "at = length user"
    by (auto simp: Index_byte_Some_iff)
  then have rest: "drop (at + 1) repo = rest" by simp
  with colon obtain host path where h: "rest = host @ CHR '':'' # path" "CHR '':'' \<notin> set host" "colon = length host"
    by (auto simp: Index_byte_Some_iff)
  have "user \<noteq> []" "host \<noteq> []" "path \<noteq> []" using at colon u h rest by auto
  with u h show "scp_form repo" unfolding scp_form_def by auto
next
  assume "scp_form repo"
  then obtain user host path where r: "repo = user @ CHR ''@'' # host @ CHR '':'' # path"
    and ne: "user \<noteq> []" "host \<noteq> []" "path \<noteq> []" and free: "CHR ''@'' \<notin> set user" "CHR '':'' \<notin> set host"
    by (auto simp: scp_form_def)
  have "Index repo ''@'' = Some (length user)" using r free(1) by (auto simp: Index_byte_Some_iff)
  moreover have "drop (length user + 1) repo = host @ CHR '':'' # path" using r by simp
  moreover have "Index (host @ CHR '':'' # path) '':'' = Some (length host)"
    using free(2) by (auto simp: Index_byte_Some_iff)
  ultimately show "scp_like repo" using ne by (simp add: scp_like_def)
qed

definition local_repo :: "string \<Rightarrow> bool" where
  "local_repo repo \<longleftrightarrow>
     HasPrefix repo ''file://'' \<or> HasPrefix repo ''/'' \<or> HasPrefix repo ''./'' \<or> HasPrefix repo ''../''"

definition remote_url :: "string \<Rightarrow> bool" where
  "remote_url repo \<longleftrightarrow>
     (\<exists>u. url_parse repo = Some u \<and> Hostname u \<noteq> [] \<and> Scheme u \<in> {''http'', ''https'', ''ssh''})"

definition repo_spec :: "string \<Rightarrow> bool" where
  "repo_spec repo \<longleftrightarrow>
     \<not> HasPrefix repo ''-'' \<and> set repo \<inter> set blank_bytes = {} \<and> \<not> local_repo repo
     \<and> (if Contains repo ''://'' then remote_url repo else scp_form repo)"

lemma validateRepo_iff: "validateRepo repo = Inr () \<longleftrightarrow> repo_spec repo"
  unfolding validateRepo_def repo_spec_def remote_url_def local_repo_def scp_like_iff [symmetric]
    blank_free_iff [symmetric]
  by (auto split: option.splits)

section \<open>Revisions: what is accepted\<close>

lemma prefix_slash_parts: "HasPrefix name ''/'' \<Longrightarrow> [] \<in> set (split_on CHR ''/'' name)"
  by (cases name) auto

lemma suffix_slash_parts: "HasSuffix name ''/'' \<Longrightarrow> [] \<in> set (split_on CHR ''/'' name)"
  using split_on_append [of "CHR ''/''" _ "[]"] by (auto simp: suffix_def)

lemma double_slash_parts: "Contains name ''//'' \<Longrightarrow> [] \<in> set (split_on CHR ''/'' name)"
proof -
  assume "Contains name ''//''"
  then obtain a b where "name = a @ CHR ''/'' # ([] @ CHR ''/'' # b)" by (auto simp: sublist_def)
  then show ?thesis by (simp only: split_on_append set_append) auto
qed

lemma suffix_last_part:
  assumes "CHR ''/'' \<notin> set x" and "HasSuffix name x"
  shows "\<exists>part \<in> set (split_on CHR ''/'' name). HasSuffix part x"
proof -
  obtain a where name: "name = a @ x" using assms(2) by (auto simp: suffix_def)
  show ?thesis
  proof (cases "CHR ''/'' \<in> set a")
    case False
    then show ?thesis using name assms by simp
  next
    case True
    then obtain b c where a: "a = b @ CHR ''/'' # c" "CHR ''/'' \<notin> set c" by (metis split_list_last)
    then have "split_on CHR ''/'' name = split_on CHR ''/'' b @ [c @ x]"
      using name assms(1) by (simp add: split_on_append)
    then show ?thesis by (auto simp: suffix_def)
  qed
qed

text \<open>The reference-name rules as one list: no empty part, no part that begins with a dot or ends in
  \<^verbatim>\<open>.lock\<close>, none of the forbidden substrings and bytes.\<close>

definition ref_part_ok :: "string \<Rightarrow> bool" where
  "ref_part_ok part \<longleftrightarrow> part \<noteq> [] \<and> \<not> HasPrefix part ''.'' \<and> \<not> HasSuffix part ''.lock''"

definition ref_spec :: "string \<Rightarrow> bool" where
  "ref_spec name \<longleftrightarrow>
     \<not> HasPrefix name ''-'' \<and> \<not> HasSuffix name ''.'' \<and> \<not> Contains name ''..'' \<and> \<not> Contains name (''@'' @ ''{'')
     \<and> set name \<inter> set unsafe_ref_bytes = {}
     \<and> (\<forall>part \<in> set (split_on CHR ''/'' name). ref_part_ok part)"

lemma isSafeGitRefName_iff: "isSafeGitRefName name \<longleftrightarrow> ref_spec name"
proof
  show "isSafeGitRefName name \<Longrightarrow> ref_spec name"
    by (auto simp: isSafeGitRefName_def ref_spec_def ref_part_ok_def ContainsAny_iff list_all_iff
        split: if_splits)
next
  assume spec: "ref_spec name"
  then have parts: "\<forall>part \<in> set (split_on CHR ''/'' name). ref_part_ok part" by (simp add: ref_spec_def)
  then have "[] \<notin> set (split_on CHR ''/'' name)" by (auto simp: ref_part_ok_def)
  then have slashes: "name \<noteq> []" "\<not> HasPrefix name ''/''" "\<not> HasSuffix name ''/''" "\<not> Contains name ''//''"
    using prefix_slash_parts suffix_slash_parts double_slash_parts by auto
  have "\<not> HasSuffix name ''.lock''"
    using suffix_last_part [of "''.lock''" name] parts by (auto simp: ref_part_ok_def)
  then show "isSafeGitRefName name"
    using spec slashes parts
    by (auto simp: isSafeGitRefName_def ref_spec_def ref_part_ok_def ContainsAny_iff list_all_iff)
qed

definition revision_spec :: "string \<Rightarrow> bool" where
  "revision_spec rv \<longleftrightarrow>
     set rv \<inter> set (blank_bytes @ [CHR 0x00]) = {} \<and> \<not> HasPrefix rv ''-'' \<and> (isHexSHA rv \<or> ref_spec (ref_name rv))"

lemma validateRevision_iff: "validateRevision rv = Inr () \<longleftrightarrow> revision_spec rv"
  by (auto simp: validateRevision_def revision_spec_def ContainsAny_iff isSafeGitRefName_iff)

section \<open>Paths: what is accepted\<close>

lemma split_join_clean: "clean_comps p \<noteq> [] \<Longrightarrow> split_on CHR ''/'' (join_with CHR ''/'' (clean_comps p)) = clean_comps p"
  using split_join_with [OF _ elems_no_slash [OF clean_comps_ok]] by blast

text \<open>The accepted paths are the relative ones that stay inside the repository, do not name
  \<^verbatim>\<open>.git\<close> and use no backslash; the result is the cleaned path, empty for the root.\<close>

definition path_spec :: "string \<Rightarrow> bool" where
  "path_spec raw \<longleftrightarrow>
     CHR 0x5C \<notin> set raw \<and> \<not> IsAbs raw \<and> ''..'' \<notin> set (clean_comps raw) \<and> ''.git'' \<notin> set (clean_comps raw)"

lemma Contains_byte: "Contains s [c] \<longleftrightarrow> c \<in> set s"
  by (metis in_set_conv_decomp append_Cons append_Nil sublist_def)

lemma normalizeRepoPath_iff:
  "normalizeRepoPath raw = Inr p \<longleftrightarrow> path_spec raw \<and> p = join_with CHR ''/'' (clean_comps raw)"
proof (cases "raw = [] \<or> IsAbs raw \<or> CHR 0x5C \<in> set raw")
  case True
  then show ?thesis
    by (auto simp: normalizeRepoPath_def path_spec_def Contains_byte IsAbs_def clean_comps_def)
next
  case False
  then have plain: "raw \<noteq> []" "\<not> IsAbs raw" "CHR 0x5C \<notin> set raw" by auto
  show ?thesis
  proof (cases "clean_comps raw = []")
    case True
    then have "Clean raw = ''.''" using plain by (simp add: Clean_dot_iff)
    then show ?thesis using plain True
      by (auto simp: normalizeRepoPath_def path_spec_def Contains_byte)
  next
    case False
    have c: "Clean raw = join_with CHR ''/'' (clean_comps raw)"
      using plain False by (simp add: Clean_def path_string_def)
    have "(Clean raw = ''..'' \<or> HasPrefix (Clean raw) ''../'') \<longleftrightarrow> ''..'' \<in> set (clean_comps raw)"
      using starts_dotdot_join [OF False elems_no_slash [OF clean_comps_ok]]
        dots_first_hd [OF clean_comps_dots_first, of raw] False c by simp
    moreover have "Clean raw \<noteq> ''.''" using False by (simp add: Clean_dot_iff)
    moreover have "list_ex (\<lambda>part. part = ''.git'') (split_on CHR ''/'' (Clean raw)) \<longleftrightarrow> ''.git'' \<in> set (clean_comps raw)"
      by (auto simp: c split_join_clean [OF False] list_ex_iff)
    ultimately show ?thesis using plain c
      by (auto simp: normalizeRepoPath_def path_spec_def Contains_byte Let_def)
  qed
qed

text \<open>What \<^verbatim>\<open>normalizeRepoPath\<close> returns: empty, or elements joined by single slashes.\<close>

definition repo_path :: "string \<Rightarrow> bool" where
  "repo_path p \<longleftrightarrow>
     (\<exists>es. p = join_with CHR ''/'' es \<and> (\<forall>e \<in> set es. plain_elem e \<and> e \<noteq> ''.git'' \<and> CHR 0x5C \<notin> set e))"

lemma clean_elems_subset: "set (clean_elems r acc es) \<subseteq> set acc \<union> set es"
proof (induction r acc es rule: clean_elems.induct)
  case (2 r acc e es)
  then show ?case by (cases acc) (auto split: if_splits)
qed simp

lemma split_on_subset: "w \<in> set (split_on c s) \<Longrightarrow> set w \<subseteq> set s"
proof (induction s arbitrary: w)
  case (Cons x xs)
  obtain v vs where "split_on c xs = v # vs" by (cases "split_on c xs") auto
  with Cons show ?case by (fastforce split: if_splits)
qed simp

lemma clean_comps_bytes: "e \<in> set (clean_comps s) \<Longrightarrow> set e \<subseteq> set s"
  using clean_elems_subset [of "IsAbs s" "[]" "path_elems s"] split_on_subset
  by (fastforce simp: clean_comps_def path_elems_def)

lemma normalizeRepoPath_repo_path: "normalizeRepoPath raw = Inr p \<Longrightarrow> repo_path p"
proof -
  assume "normalizeRepoPath raw = Inr p"
  then have spec: "path_spec raw" and p: "p = join_with CHR ''/'' (clean_comps raw)"
    by (auto simp: normalizeRepoPath_iff)
  have "plain_elem e \<and> e \<noteq> ''.git'' \<and> CHR 0x5C \<notin> set e" if "e \<in> set (clean_comps raw)" for e
    using that spec clean_comps_elem [OF that] clean_comps_bytes [OF that]
    by (auto simp: path_spec_def plain_elem_def)
  with p show ?thesis unfolding repo_path_def by blast
qed

lemma repo_path_clean_comps:
  "\<forall>e \<in> set es. plain_elem e \<Longrightarrow> clean_comps (join_with CHR ''/'' es) = es \<and> \<not> IsAbs (join_with CHR ''/'' es)"
proof -
  assume es: "\<forall>e \<in> set es. plain_elem e"
  then have ok: "list_all elem_ok es" and nd: "''..'' \<notin> set es" by (auto simp: list_all_iff plain_elem_def)
  show ?thesis
    using IsAbs_join [OF ok] path_elems_join [OF ok] nd
    by (simp add: clean_comps_def clean_elems_no_dots)
qed

lemma normalizeRepoPath_fixed: "repo_path p \<Longrightarrow> normalizeRepoPath p = Inr p"
proof -
  assume "repo_path p"
  then obtain es where p: "p = join_with CHR ''/'' es"
    and es: "\<forall>e \<in> set es. plain_elem e \<and> e \<noteq> ''.git'' \<and> CHR 0x5C \<notin> set e" by (auto simp: repo_path_def)
  have c: "clean_comps p = es" "\<not> IsAbs p" using repo_path_clean_comps es p by auto
  have "set p \<subseteq> insert CHR ''/'' (\<Union> (set ` set es))" unfolding p by (rule set_join_with)
  then have "CHR 0x5C \<notin> set p" using es by auto
  then show ?thesis using c es p by (auto simp: normalizeRepoPath_iff path_spec_def plain_elem_def)
qed

section \<open>Parse against its specification\<close>

text \<open>
  The specification reads each attribute on its own: which trimmed texts are accepted, and what value
  they stand for. \<open>attributes_of\<close> is the record of those values.
\<close>

definition attr :: "gomap \<Rightarrow> string \<Rightarrow> string" where
  "attr raw k = TrimSpace (mget raw k)"

definition number_attr :: "int \<Rightarrow> string \<Rightarrow> int option" where
  "number_attr lo s =
     (if s = [] then Some 0 else Option.bind (Atoi s) (\<lambda>n. if lo \<le> n then Some n else None))"

definition bool_attr :: "string \<Rightarrow> bool option" where
  "bool_attr s =
     (let w = ToLower (TrimSpace s) in
      if s = [] \<or> w \<in> {''false'', ''0'', ''no''} then Some False
      else if w \<in> {''true'', ''1'', ''yes''} then Some True
      else None)"

definition raw_spec :: "gomap \<Rightarrow> bool" where
  "raw_spec raw \<longleftrightarrow>
     attr raw ''repo'' \<noteq> [] \<and> repo_spec (attr raw ''repo'')
     \<and> attr raw ''revision'' \<noteq> [] \<and> revision_spec (attr raw ''revision'')
     \<and> path_spec (attr raw ''path'')
     \<and> number_attr 1 (attr raw ''depth'') \<noteq> None
     \<and> bool_attr (attr raw ''submodules'') \<noteq> None
     \<and> bool_attr (attr raw ''lfs'') \<noteq> None
     \<and> number_attr 0 (attr raw ''refreshSeconds'') \<noteq> None"

definition attributes_of :: "gomap \<Rightarrow> attributes" where
  "attributes_of raw =
     \<lparr>at_repo = attr raw ''repo'', at_revision = attr raw ''revision'',
      at_revision_kind = attr raw ''revisionKind'',
      at_path = join_with CHR ''/'' (clean_comps (attr raw ''path'')),
      at_depth = the (number_attr 1 (attr raw ''depth'')),
      at_submodules = the (bool_attr (attr raw ''submodules'')),
      at_lfs = the (bool_attr (attr raw ''lfs'')),
      at_policy = attr raw ''policy'', at_credential_profile = attr raw ''credentialProfile'',
      at_refresh_seconds = the (number_attr 0 (attr raw ''refreshSeconds''))\<rparr>"

lemma parse_depth_iff: "parse_depth s = Inr n \<longleftrightarrow> number_attr 1 s = Some n"
  by (auto simp: parse_depth_def number_attr_def split: option.splits if_splits)

lemma parse_refresh_iff: "parse_refresh s = Inr n \<longleftrightarrow> number_attr 0 s = Some n"
  by (auto simp: parse_refresh_def number_attr_def split: option.splits if_splits)

lemma parse_flag_iff: "parse_flag name s = Inr b \<longleftrightarrow> bool_attr s = Some b"
  by (auto simp: parse_flag_def bool_attr_def parseBool_def Let_def split: if_splits sum.splits)

lemma unit_result: "(\<exists>v :: unit. x = Inr v \<and> P) \<longleftrightarrow> x = Inr () \<and> P"
  by auto

lemmas parse_iffs = validateRepo_iff validateRevision_iff normalizeRepoPath_iff
  parse_depth_iff parse_flag_iff parse_refresh_iff

lemma Parse_steps:
  "Parse raw = Inr a \<longleftrightarrow>
     attr raw ''repo'' \<noteq> [] \<and> attr raw ''revision'' \<noteq> []
     \<and> validateRepo (attr raw ''repo'') = Inr () \<and> validateRevision (attr raw ''revision'') = Inr ()
     \<and> (\<exists>p d s l r. normalizeRepoPath (attr raw ''path'') = Inr p
          \<and> parse_depth (attr raw ''depth'') = Inr d
          \<and> parse_flag ''submodules'' (attr raw ''submodules'') = Inr s
          \<and> parse_flag ''lfs'' (attr raw ''lfs'') = Inr l
          \<and> parse_refresh (attr raw ''refreshSeconds'') = Inr r
          \<and> a = \<lparr>at_repo = attr raw ''repo'', at_revision = attr raw ''revision'',
                 at_revision_kind = attr raw ''revisionKind'', at_path = p, at_depth = d,
                 at_submodules = s, at_lfs = l, at_policy = attr raw ''policy'',
                 at_credential_profile = attr raw ''credentialProfile'', at_refresh_seconds = r\<rparr>)"
  unfolding Parse_def Let_def attr_def [symmetric]
  by (cases "attr raw ''repo'' = []"; cases "attr raw ''revision'' = []")
     (simp_all add: bindE_eq_Inr unit_result, metis)

text \<open>
  C8. \<^verbatim>\<open>Parse\<close> accepts exactly the attribute maps of the specification and returns exactly the
  record the specification reads off them: a remote http, https, ssh or scp-like repository that is
  neither local nor an option, a commit or a safe reference name, a path inside the repository that
  avoids \<^verbatim>\<open>.git\<close>, a positive depth, true/false flags and a non-negative refresh.
\<close>

theorem Parse_iff: "Parse raw = Inr a \<longleftrightarrow> raw_spec raw \<and> a = attributes_of raw"
proof
  assume "Parse raw = Inr a"
  then show "raw_spec raw \<and> a = attributes_of raw"
    unfolding Parse_steps parse_iffs by (elim conjE exE) (simp add: raw_spec_def attributes_of_def)
next
  assume spec: "raw_spec raw \<and> a = attributes_of raw"
  then obtain d s l r where vals: "number_attr 1 (attr raw ''depth'') = Some d"
    "bool_attr (attr raw ''submodules'') = Some s" "bool_attr (attr raw ''lfs'') = Some l"
    "number_attr 0 (attr raw ''refreshSeconds'') = Some r"
    unfolding raw_spec_def not_None_eq by blast
  have "a = \<lparr>at_repo = attr raw ''repo'', at_revision = attr raw ''revision'',
      at_revision_kind = attr raw ''revisionKind'',
      at_path = join_with CHR ''/'' (clean_comps (attr raw ''path'')), at_depth = d,
      at_submodules = s, at_lfs = l, at_policy = attr raw ''policy'',
      at_credential_profile = attr raw ''credentialProfile'', at_refresh_seconds = r\<rparr>"
    using spec vals by (simp only: attributes_of_def option.sel)
  moreover have "attr raw ''repo'' \<noteq> []" "repo_spec (attr raw ''repo'')" "attr raw ''revision'' \<noteq> []"
    "revision_spec (attr raw ''revision'')" "path_spec (attr raw ''path'')"
    using spec unfolding raw_spec_def by blast+
  ultimately show "Parse raw = Inr a"
    unfolding Parse_steps parse_iffs using vals
    by (intro conjI exI) (assumption | rule refl)+
qed

text \<open>What later stages may rely on in a record that \<^verbatim>\<open>Parse\<close> returned.\<close>

definition attributes_spec :: "attributes \<Rightarrow> bool" where
  "attributes_spec a \<longleftrightarrow>
     at_repo a \<noteq> [] \<and> repo_spec (at_repo a) \<and> at_revision a \<noteq> [] \<and> revision_spec (at_revision a)
     \<and> repo_path (at_path a)
     \<and> 0 \<le> at_depth a \<and> at_depth a < 2 ^ 63 \<and> 0 \<le> at_refresh_seconds a \<and> at_refresh_seconds a < 2 ^ 63"

lemma number_attr_range:
  assumes "number_attr lo s = Some n" and "0 \<le> lo"
  shows "0 \<le> n \<and> n < 2 ^ 63"
proof (cases "s = []")
  case True
  then show ?thesis using assms(1) by (simp add: number_attr_def)
next
  case False
  then have "Atoi s = Some n" "lo \<le> n"
    using assms(1) by (auto simp: number_attr_def bind_eq_Some_conv split: if_splits)
  then show ?thesis using Atoi_range [of s n] assms(2) by linarith
qed

lemma attributes_of_spec:
  assumes "raw_spec raw"
  shows "attributes_spec (attributes_of raw)"
proof -
  have "normalizeRepoPath (attr raw ''path'') = Inr (at_path (attributes_of raw))"
    using assms by (simp add: raw_spec_def normalizeRepoPath_iff attributes_of_def)
  then have "repo_path (at_path (attributes_of raw))" by (rule normalizeRepoPath_repo_path)
  moreover obtain d r where "number_attr 1 (attr raw ''depth'') = Some d"
      "number_attr 0 (attr raw ''refreshSeconds'') = Some r"
    using assms by (auto simp: raw_spec_def)
  ultimately show ?thesis
    using assms number_attr_range [of 1 "attr raw ''depth''" d]
      number_attr_range [of 0 "attr raw ''refreshSeconds''" r]
    by (simp add: raw_spec_def attributes_spec_def attributes_of_def)
qed

lemma Parse_spec: "Parse raw = Inr a \<Longrightarrow> attributes_spec a"
  by (simp add: Parse_iff attributes_of_spec)

text \<open>
  C22. The path of a request is normalised once and for all: normalising the path \<^verbatim>\<open>Parse\<close> returned
  gives it back, and it names no dot-dot, no \<^verbatim>\<open>.git\<close> and no absolute location.
\<close>

theorem Parse_path_normal:
  assumes "Parse raw = Inr a"
  shows "normalizeRepoPath (at_path a) = Inr (at_path a)
    \<and> ''..'' \<notin> set (clean_comps (at_path a)) \<and> ''.git'' \<notin> set (clean_comps (at_path a))
    \<and> \<not> IsAbs (at_path a)"
proof -
  have "repo_path (at_path a)" using Parse_spec [OF assms] by (simp add: attributes_spec_def)
  then have "normalizeRepoPath (at_path a) = Inr (at_path a)" by (rule normalizeRepoPath_fixed)
  then show ?thesis by (auto simp: normalizeRepoPath_iff path_spec_def)
qed

definition example_raw :: gomap where
  "example_raw =
     [''repo'' \<mapsto> ''https://github.com/example/site.git'', ''revision'' \<mapsto> ''refs/tags/v1.0.0'',
      ''path'' \<mapsto> ''public/./assets/'', ''depth'' \<mapsto> ''2'']"

definition example_attributes :: attributes where
  "example_attributes =
     \<lparr>at_repo = ''https://github.com/example/site.git'', at_revision = ''refs/tags/v1.0.0'',
      at_revision_kind = [], at_path = ''public/assets'', at_depth = 2, at_submodules = False,
      at_lfs = False, at_policy = [], at_credential_profile = [], at_refresh_seconds = 0\<rparr>"

lemma Parse_example: "Parse example_raw = Inr example_attributes"
  by code_simp

theorem Parse_path_normal_witness:
  "Parse example_raw = Inr example_attributes
   \<and> normalizeRepoPath (at_path example_attributes) = Inr (at_path example_attributes)
   \<and> \<not> IsAbs (at_path example_attributes)"
  using Parse_example Parse_path_normal [OF Parse_example] by blast

text \<open>The keys \<^verbatim>\<open>Parse\<close> reads.\<close>

definition attribute_keys :: "string set" where
  "attribute_keys =
     {''repo'', ''revision'', ''revisionKind'', ''path'', ''depth'', ''submodules'', ''lfs'', ''policy'',
      ''credentialProfile'', ''refreshSeconds''}"

lemma mget_restrict: "k \<in> K \<Longrightarrow> mget (raw |` K) k = mget raw k"
  by (simp add: mget_def restrict_map_def)

lemma attribute_keys_mem:
  "''repo'' \<in> attribute_keys" "''revision'' \<in> attribute_keys" "''revisionKind'' \<in> attribute_keys"
  "''path'' \<in> attribute_keys" "''depth'' \<in> attribute_keys" "''submodules'' \<in> attribute_keys"
  "''lfs'' \<in> attribute_keys" "''policy'' \<in> attribute_keys" "''credentialProfile'' \<in> attribute_keys"
  "''refreshSeconds'' \<in> attribute_keys"
  by (simp_all add: attribute_keys_def)

lemma Parse_keys: "Parse (raw |` attribute_keys) = Parse raw"
  by (simp only: Parse_def attribute_keys_mem mget_restrict)

lemma Parse_cong: "(\<And>k. k \<in> attribute_keys \<Longrightarrow> raw k = raw' k) \<Longrightarrow> Parse raw = Parse raw'"
proof -
  assume "\<And>k. k \<in> attribute_keys \<Longrightarrow> raw k = raw' k"
  then have "raw |` attribute_keys = raw' |` attribute_keys" by (auto simp: restrict_map_def)
  then show ?thesis using Parse_keys by metis
qed

end
