(* ===== verification/PolicyEval.thy ===== *)
theory PolicyEval
  imports Policy GoUrl GoGlob Volume
begin

text \<open>
  \<^verbatim>\<open>pkg/policy/evaluator.go\<close>: the policy decision. The regular-expression engine is an argument:
  \<open>rx raw\<close> is \<open>None\<close> when \<^verbatim>\<open>regexp.Compile\<close> fails and otherwise the predicate
  \<^verbatim>\<open>MatchString\<close> of the compiled expression.
\<close>

type_synonym regex_engine = "string \<Rightarrow> (string \<Rightarrow> bool) option"

section \<open>The decision\<close>

fun contains :: "string list \<Rightarrow> string \<Rightarrow> bool" where
  "contains [] target = False"
| "contains (v # vals) target = (if v = target then True else contains vals target)"

fun glob_loop :: "string list \<Rightarrow> string \<Rightarrow> bool" where
  "glob_loop [] v = False"
| "glob_loop (p # ps) v = (if Match p v = Some True then True else glob_loop ps v)"

definition matchesAnyGlob :: "string list \<Rightarrow> string \<Rightarrow> bool" where
  "matchesAnyGlob patterns v = (if patterns = [] then False else glob_loop patterns v)"

fun matchesAnyRegex :: "regex_engine \<Rightarrow> string list \<Rightarrow> string \<Rightarrow> bool" where
  "matchesAnyRegex rx [] v = False"
| "matchesAnyRegex rx (raw # ps) v =
     (case rx raw of
        None \<Rightarrow> matchesAnyRegex rx ps v
      | Some match \<Rightarrow> if match v then True else matchesAnyRegex rx ps v)"

definition isCommitSHA :: "string \<Rightarrow> bool" where
  "isCommitSHA rv \<longleftrightarrow>
     length rv = 40 \<and>
     list_all (\<lambda>ch. \<not> ((ch < CHR ''0'' \<or> ch > CHR ''9'') \<and> (ch < CHR ''a'' \<or> ch > CHR ''f''))) rv"

text \<open>The host of a URL with one of the three schemes in lower case; otherwise what stands between the
  first at-sign and the colon after it.\<close>

definition scp_host :: "string \<Rightarrow> string" where
  "scp_host repo =
     (case Index repo ''@'' of
        None \<Rightarrow> []
      | Some at \<Rightarrow>
          (let after = drop (at + 1) repo in
           case Index after '':'' of None \<Rightarrow> [] | Some c \<Rightarrow> take c after))"

definition HostFromRepo :: "string \<Rightarrow> string" where
  "HostFromRepo repo =
     (if HasPrefix repo ''ssh://'' \<or> HasPrefix repo ''http://'' \<or> HasPrefix repo ''https://'' then
        (case url_parse repo of Some u \<Rightarrow> Hostname u | None \<Rightarrow> scp_host repo)
      else scp_host repo)"

definition is_tag_rev :: "string \<Rightarrow> bool" where
  "is_tag_rev rv \<longleftrightarrow> HasPrefix rv ''refs/tags/'' \<or> HasPrefix rv ''tag:''"

definition is_branch_rev :: "string \<Rightarrow> bool" where
  "is_branch_rev rv \<longleftrightarrow>
     HasPrefix rv ''refs/heads/'' \<or> HasPrefix rv ''branch:'' \<or> (\<not> isCommitSHA rv \<and> \<not> is_tag_rev rv)"

definition checkRevisionPolicy :: "regex_engine \<Rightarrow> string \<Rightarrow> revision_policy \<Rightarrow> unit result" where
  "checkRevisionPolicy rx rv rp =
     (let isCommit = isCommitSHA rv; isTag = is_tag_rev rv; isBranch = is_branch_rev rv in
      if rp_require_pinned_commit rp \<and> \<not> isCommit then Inl ''revision must be a pinned commit SHA''
      else if isBranch \<and> \<not> rp_allow_branches rp \<and> \<not> rp_require_pinned_commit rp
      then Inl ''branch revisions are not allowed by policy''
      else if isTag \<and> \<not> rp_allow_tags rp \<and> \<not> rp_require_pinned_commit rp
      then Inl ''tag revisions are not allowed by policy''
      else if isBranch \<and> rp_allowed_branch_regex rp \<noteq> []
           \<and> \<not> matchesAnyRegex rx (rp_allowed_branch_regex rp) rv
      then Inl ''branch does not match allowed branch patterns''
      else if isTag \<and> rp_allowed_tag_regex rp \<noteq> []
           \<and> \<not> matchesAnyRegex rx (rp_allowed_tag_regex rp) rv
      then Inl ''tag does not match allowed tag patterns''
      else Inr ())"

fun selectPolicy :: "git_content_policy list \<Rightarrow> string \<Rightarrow> string \<Rightarrow> git_content_policy option" where
  "selectPolicy [] ns name = None"
| "selectPolicy (p # ps) ns name =
     (if name \<noteq> [] then
        (if p_name p \<noteq> name then selectPolicy ps ns name
         else if p_namespaces p = [] \<or> contains (p_namespaces p) ns then Some p
         else selectPolicy ps ns name)
      else if p_namespaces p = [] \<or> contains (p_namespaces p) ns then Some p
      else selectPolicy ps ns name)"

definition denied :: "string \<Rightarrow> string \<Rightarrow> eval_result" where
  "denied code msg =
     \<lparr>res_allowed = False, res_resolved_profile = [], res_denial_reason_code = code,
      res_denial_reason = msg\<rparr>"

definition Evaluate ::
  "regex_engine \<Rightarrow> git_content_policy list \<Rightarrow> request \<Rightarrow> string \<Rightarrow> eval_result \<times> git_content_policy" where
  "Evaluate rx policies req policyName =
     (case selectPolicy policies (rq_namespace req) policyName of
        None \<Rightarrow> (denied ''policy_not_found'' ''no matching policy found'', zero_policy)
      | Some p \<Rightarrow>
          if \<not> matchesAnyGlob (p_allowed_repositories p) (rq_repo req)
          then (denied ''repo_not_allowed''
                  (''repository '' @ rq_repo req @ '' is not allowed by policy '' @ p_name p), p)
          else
            (let host = HostFromRepo (rq_repo req) in
             if \<not> contains (p_allowed_hosts p) host
             then (denied ''host_not_allowed''
                     (''git host '' @ host @ '' is not allowed by policy '' @ p_name p), p)
             else if rq_submodules req \<and> \<not> sp_enabled (p_submodules p)
             then (denied ''submodules_disabled''
                     ''submodules were requested but are disabled by policy'', p)
             else if rq_lfs req \<and> \<not> lp_enabled (p_lfs p)
             then (denied ''lfs_disabled'' ''git lfs was requested but is disabled by policy'', p)
             else if rq_depth req > 0 \<and> cp_max_depth (p_clone p) > 0 \<and> rq_depth req > cp_max_depth (p_clone p)
             then (denied ''depth_exceeded''
                     (''requested depth '' @ Itoa (rq_depth req) @ '' exceeds policy max depth ''
                      @ Itoa (cp_max_depth (p_clone p))), p)
             else
               (case checkRevisionPolicy rx (rq_revision req) (p_revisions p) of
                  Inl e \<Rightarrow> (denied ''revision_denied'' e, p)
                | Inr _ \<Rightarrow>
                    (let profile = (if rq_credential_profile req = []
                                    then cr_default_profile (p_credentials p)
                                    else rq_credential_profile req)
                     in if profile \<noteq> [] \<and> \<not> contains (cr_allowed_profiles (p_credentials p)) profile
                        then (denied ''credential_profile_denied''
                                (''credential profile '' @ profile @ '' is not allowed by policy '' @ p_name p), p)
                        else (\<lparr>res_allowed = True, res_resolved_profile = profile,
                               res_denial_reason_code = [], res_denial_reason = []\<rparr>, p)))))"

section \<open>Facts on the parts\<close>

lemma contains_iff [simp]: "contains vals target \<longleftrightarrow> target \<in> set vals"
  by (induction vals) auto

lemma glob_loop_iff: "glob_loop ps v \<longleftrightarrow> (\<exists>p \<in> set ps. Match p v = Some True)"
  by (induction ps) auto

lemma matchesAnyGlob_iff: "matchesAnyGlob ps v \<longleftrightarrow> (\<exists>p \<in> set ps. Match p v = Some True)"
  by (auto simp: matchesAnyGlob_def glob_loop_iff)

lemma matchesAnyRegex_iff:
  "matchesAnyRegex rx ps v \<longleftrightarrow> (\<exists>raw \<in> set ps. \<exists>m. rx raw = Some m \<and> m v)"
  by (induction ps) (auto split: option.splits)

text \<open>The three packages test a commit in the same way.\<close>

lemma isCommitSHA_isHexSHA: "isCommitSHA rv = isHexSHA rv"
  by (simp add: isCommitSHA_def isHexSHA_def)

text \<open>A policy applies to a namespace and an optional policy name.\<close>

definition applies :: "git_content_policy \<Rightarrow> string \<Rightarrow> string \<Rightarrow> bool" where
  "applies p ns name \<longleftrightarrow> (name = [] \<or> p_name p = name) \<and> (p_namespaces p = [] \<or> ns \<in> set (p_namespaces p))"

lemma selectPolicy_find: "selectPolicy ps ns name = find (\<lambda>p. applies p ns name) ps"
  by (induction ps) (auto simp: applies_def)

lemma selectPolicy_first:
  "selectPolicy ps ns name = Some p \<longleftrightarrow>
     (\<exists>pre post. ps = pre @ p # post \<and> applies p ns name \<and> (\<forall>q \<in> set pre. \<not> applies q ns name))"
  unfolding selectPolicy_find by (rule find_first_iff)

section \<open>Revisions\<close>

lemma hex_excludes: "isCommitSHA rv \<Longrightarrow> c \<in> set p \<Longrightarrow> c > CHR ''f'' \<Longrightarrow> \<not> HasPrefix rv p"
proof
  assume sha: "isCommitSHA rv" and c: "c \<in> set p" "c > CHR ''f''" and "HasPrefix rv p"
  then have "c \<in> set rv" by (auto dest: set_mono_prefix)
  then have "\<not> CHR ''9'' < c \<or> \<not> CHR ''f'' < c" using sha by (auto simp: isCommitSHA_def list_all_iff)
  moreover have "CHR ''9'' < CHR ''f''" by code_simp
  ultimately show False using c(2) by (meson less_trans)
qed

lemma revision_kinds:
  "(isCommitSHA rv \<and> \<not> is_tag_rev rv \<and> \<not> is_branch_rev rv)
   \<or> (is_tag_rev rv \<and> \<not> (isCommitSHA rv \<or> is_branch_rev rv))
   \<or> (is_branch_rev rv \<and> \<not> (isCommitSHA rv \<or> is_tag_rev rv))"
proof (cases "isCommitSHA rv")
  case True
  have "\<not> HasPrefix rv ''refs/tags/''" "\<not> HasPrefix rv ''refs/heads/''" "\<not> HasPrefix rv ''branch:''"
    by (rule hex_excludes [OF True, of "CHR ''r''"]; simp)+
  moreover have "\<not> HasPrefix rv ''tag:''" by (rule hex_excludes [OF True, of "CHR ''t''"]; simp)
  ultimately show ?thesis using True by (simp add: is_tag_rev_def is_branch_rev_def)
next
  case False
  have "\<not> (is_tag_rev rv \<and> (HasPrefix rv ''refs/heads/'' \<or> HasPrefix rv ''branch:''))"
    by (auto simp: is_tag_rev_def prefix_def)
  then show ?thesis using False by (auto simp: is_branch_rev_def)
qed

text \<open>
  Every revision is exactly one of a pinned commit, a tag and a branch for the policy: the three
  tests cover every string and no two of them hold together.
\<close>

theorem revision_kinds_partition:
  "length (filter (\<lambda>test. test rv) [isCommitSHA, is_tag_rev, is_branch_rev]) = 1"
  using revision_kinds [of rv] by auto

definition revision_permitted :: "regex_engine \<Rightarrow> string \<Rightarrow> revision_policy \<Rightarrow> bool" where
  "revision_permitted rx rv rp \<longleftrightarrow>
     (if rp_require_pinned_commit rp then isCommitSHA rv
      else if isCommitSHA rv then True
      else if is_tag_rev rv then
        rp_allow_tags rp
        \<and> (rp_allowed_tag_regex rp = [] \<or> (\<exists>raw \<in> set (rp_allowed_tag_regex rp). \<exists>m. rx raw = Some m \<and> m rv))
      else
        rp_allow_branches rp
        \<and> (rp_allowed_branch_regex rp = []
           \<or> (\<exists>raw \<in> set (rp_allowed_branch_regex rp). \<exists>m. rx raw = Some m \<and> m rv)))"

lemma checkRevisionPolicy_iff: "checkRevisionPolicy rx rv rp = Inr () \<longleftrightarrow> revision_permitted rx rv rp"
  using revision_kinds [of rv]
  by (cases "isCommitSHA rv"; cases "is_tag_rev rv"; cases "is_branch_rev rv"; cases "rp_require_pinned_commit rp")
     (auto simp: checkRevisionPolicy_def revision_permitted_def matchesAnyRegex_iff)

section \<open>The decision as a list of checks\<close>

definition request_profile :: "git_content_policy \<Rightarrow> request \<Rightarrow> string" where
  "request_profile p req =
     (if rq_credential_profile req = [] then cr_default_profile (p_credentials p)
      else rq_credential_profile req)"

text \<open>The conditions a request must meet under a policy, with the code of each, in order.\<close>

definition checks :: "regex_engine \<Rightarrow> git_content_policy \<Rightarrow> request \<Rightarrow> (string \<times> bool) list" where
  "checks rx p req =
     [(''repo_not_allowed'', \<exists>g \<in> set (p_allowed_repositories p). Match g (rq_repo req) = Some True),
      (''host_not_allowed'', HostFromRepo (rq_repo req) \<in> set (p_allowed_hosts p)),
      (''submodules_disabled'', rq_submodules req \<longrightarrow> sp_enabled (p_submodules p)),
      (''lfs_disabled'', rq_lfs req \<longrightarrow> lp_enabled (p_lfs p)),
      (''depth_exceeded'',
         cp_max_depth (p_clone p) \<le> 0 \<or> rq_depth req \<le> 0 \<or> rq_depth req \<le> cp_max_depth (p_clone p)),
      (''revision_denied'', revision_permitted rx (rq_revision req) (p_revisions p)),
      (''credential_profile_denied'',
         request_profile p req = [] \<or> request_profile p req \<in> set (cr_allowed_profiles (p_credentials p)))]"

definition first_violation :: "(string \<times> bool) list \<Rightarrow> string" where
  "first_violation cs = (case find (\<lambda>(_, ok). \<not> ok) cs of None \<Rightarrow> [] | Some (code, _) \<Rightarrow> code)"

definition decision_code :: "regex_engine \<Rightarrow> git_content_policy list \<Rightarrow> request \<Rightarrow> string \<Rightarrow> string" where
  "decision_code rx ps req name =
     (case find (\<lambda>p. applies p (rq_namespace req) name) ps of
        None \<Rightarrow> ''policy_not_found''
      | Some p \<Rightarrow> first_violation (checks rx p req))"

lemma checks_code:
  "checks rx p req =
     [(''repo_not_allowed'', matchesAnyGlob (p_allowed_repositories p) (rq_repo req)),
      (''host_not_allowed'', contains (p_allowed_hosts p) (HostFromRepo (rq_repo req))),
      (''submodules_disabled'', \<not> (rq_submodules req \<and> \<not> sp_enabled (p_submodules p))),
      (''lfs_disabled'', \<not> (rq_lfs req \<and> \<not> lp_enabled (p_lfs p))),
      (''depth_exceeded'',
         \<not> (rq_depth req > 0 \<and> cp_max_depth (p_clone p) > 0 \<and> rq_depth req > cp_max_depth (p_clone p))),
      (''revision_denied'', is_ok (checkRevisionPolicy rx (rq_revision req) (p_revisions p))),
      (''credential_profile_denied'',
         \<not> (request_profile p req \<noteq> []
            \<and> \<not> contains (cr_allowed_profiles (p_credentials p)) (request_profile p req)))]"
proof -
  have "is_ok (checkRevisionPolicy rx (rq_revision req) (p_revisions p))
      = revision_permitted rx (rq_revision req) (p_revisions p)"
    using checkRevisionPolicy_iff [of rx "rq_revision req" "p_revisions p"] by (auto simp: is_ok_iff)
  then show ?thesis by (auto simp: checks_def matchesAnyGlob_iff not_less)
qed

lemma first_violation_simps [simp]:
  "first_violation [] = []"
  "first_violation ((c, ok) # cs) = (if ok then first_violation cs else c)"
  by (simp_all add: first_violation_def)

lemma denied_simps [simp]:
  "res_allowed (denied c m) = False"
  "res_denial_reason_code (denied c m) = c"
  "res_resolved_profile (denied c m) = []"
  "res_denial_reason (denied c m) = m"
  by (simp_all add: denied_def)

lemma Evaluate_code:
  "res_denial_reason_code (fst (Evaluate rx ps req name)) = decision_code rx ps req name"
  "res_allowed (fst (Evaluate rx ps req name)) \<longleftrightarrow> decision_code rx ps req name = []"
proof -
  have "res_denial_reason_code (fst (Evaluate rx ps req name)) = decision_code rx ps req name
     \<and> res_allowed (fst (Evaluate rx ps req name)) = (decision_code rx ps req name = [])"
  proof (cases "find (\<lambda>p. applies p (rq_namespace req) name) ps")
    case (Some p)
    have "res_denial_reason_code (fst (Evaluate rx ps req name)) = first_violation (checks rx p req)
       \<and> res_allowed (fst (Evaluate rx ps req name)) = (first_violation (checks rx p req) = [])"
      unfolding Evaluate_def checks_code selectPolicy_find Some Let_def option.case request_profile_def
      by (cases "checkRevisionPolicy rx (rq_revision req) (p_revisions p)") (simp_all del: contains_iff)
    then show ?thesis by (simp add: decision_code_def Some)
  qed (simp add: Evaluate_def decision_code_def selectPolicy_find)
  then show "res_denial_reason_code (fst (Evaluate rx ps req name)) = decision_code rx ps req name"
    "res_allowed (fst (Evaluate rx ps req name)) \<longleftrightarrow> decision_code rx ps req name = []" by blast+
qed

text \<open>
  C7. The decision is the specification's: the first applicable policy is chosen, its checks are made
  in order, the denial code is that of the first check that fails, and a request is allowed exactly
  when there is a policy and no check fails.
\<close>

theorem Evaluate_decision:
  "res_denial_reason_code (fst (Evaluate rx ps req name)) = decision_code rx ps req name
   \<and> res_allowed (fst (Evaluate rx ps req name)) = (decision_code rx ps req name = [])"
  using Evaluate_code by blast

section \<open>What an allowed request satisfies\<close>

lemma Evaluate_selects:
  "snd (Evaluate rx ps req name)
     = (case find (\<lambda>p. applies p (rq_namespace req) name) ps of None \<Rightarrow> zero_policy | Some p \<Rightarrow> p)"
  by (simp add: Evaluate_def selectPolicy_find Let_def split: option.split sum.split)

lemma Evaluate_profile:
  "res_allowed (fst (Evaluate rx ps req name)) \<Longrightarrow>
     res_resolved_profile (fst (Evaluate rx ps req name)) = request_profile (snd (Evaluate rx ps req name)) req"
proof -
  assume ok: "res_allowed (fst (Evaluate rx ps req name))"
  then obtain q where q: "selectPolicy ps (rq_namespace req) name = Some q"
    by (cases "selectPolicy ps (rq_namespace req) name") (simp_all add: Evaluate_def)
  have "snd (Evaluate rx ps req name) = q" using Evaluate_selects q by (simp add: selectPolicy_find)
  moreover have "res_resolved_profile (fst (Evaluate rx ps req name)) = request_profile q req"
    using ok unfolding Evaluate_def q Let_def option.case request_profile_def [symmetric]
    by (cases "rq_submodules req"; cases "rq_lfs req"; cases "0 < rq_depth req")
       (auto split: sum.splits if_split_asm)
  ultimately show ?thesis by simp
qed

lemma first_violation_none: "\<forall>(c, ok) \<in> set cs. c \<noteq> [] \<Longrightarrow> first_violation cs = [] \<longleftrightarrow> (\<forall>(c, ok) \<in> set cs. ok)"
  by (induction cs) (auto split: if_splits)

lemma Evaluate_allowed:
  assumes "Evaluate rx ps req name = (res, p)" and "res_allowed res"
  shows "p \<in> set ps" and "applies p (rq_namespace req) name" and "\<forall>(c, ok) \<in> set (checks rx p req). ok"
    and "res_resolved_profile res = request_profile p req"
proof -
  have code: "decision_code rx ps req name = []" using Evaluate_code(2) [of rx ps req name] assms by simp
  then obtain q where q: "find (\<lambda>p. applies p (rq_namespace req) name) ps = Some q"
      "first_violation (checks rx q req) = []"
    by (auto simp: decision_code_def split: option.splits)
  have p: "p = q" using Evaluate_selects [of rx ps req name] q assms(1) by simp
  show "p \<in> set ps" "applies p (rq_namespace req) name" using q p by (auto simp: find_Some_iff)
  have "\<forall>(c, ok) \<in> set (checks rx q req). c \<noteq> []" by (simp add: checks_def)
  from first_violation_none [OF this] show "\<forall>(c, ok) \<in> set (checks rx p req). ok" using q p by simp
  show "res_resolved_profile res = request_profile p req"
    using Evaluate_profile [of rx ps req name] assms by simp
qed

text \<open>
  C6. What an allowed request satisfies, under policies that were loaded: the policy is one of the list and
  applies to the namespace and name; the repository matches one of its patterns and the host is on its list; submodules and LFS
  are asked for only where enabled; the depth that is cloned is positive, and within the maximum of the policy when the request chose
  it; a pinned commit where the policy requires one; tags and branches only where they are allowed, and matching one of the
  patterns of their kind when there are any; and a credential profile, that of the request or else the policy's default, that is
  empty or on the list.
\<close>

theorem Evaluate_allowed_sound:
  assumes "LoadPolicies rd un file = Inr ps" and "Evaluate rx ps req name = (res, p)" and "res_allowed res"
    and "0 \<le> rq_depth req"
  shows "p \<in> set ps \<and> applies p (rq_namespace req) name
    \<and> (\<exists>g \<in> set (p_allowed_repositories p). Match g (rq_repo req) = Some True)
    \<and> HostFromRepo (rq_repo req) \<in> set (p_allowed_hosts p)
    \<and> (rq_submodules req \<longrightarrow> sp_enabled (p_submodules p)) \<and> (rq_lfs req \<longrightarrow> lp_enabled (p_lfs p))
    \<and> rq_depth req \<le> cp_max_depth (p_clone p)
    \<and> 0 < (if rq_depth req = 0 then cp_default_depth (p_clone p) else rq_depth req)
    \<and> (rp_require_pinned_commit (p_revisions p) \<longrightarrow> isCommitSHA (rq_revision req))
    \<and> (is_tag_rev (rq_revision req) \<longrightarrow> rp_allow_tags (p_revisions p)
         \<and> (rp_allowed_tag_regex (p_revisions p) = []
            \<or> (\<exists>raw \<in> set (rp_allowed_tag_regex (p_revisions p)). \<exists>m. rx raw = Some m \<and> m (rq_revision req))))
    \<and> (is_branch_rev (rq_revision req) \<longrightarrow> rp_allow_branches (p_revisions p)
         \<and> (rp_allowed_branch_regex (p_revisions p) = []
            \<or> (\<exists>raw \<in> set (rp_allowed_branch_regex (p_revisions p)). \<exists>m. rx raw = Some m \<and> m (rq_revision req))))
    \<and> res_resolved_profile res
        = (if rq_credential_profile req = [] then cr_default_profile (p_credentials p) else rq_credential_profile req)
    \<and> res_resolved_profile res \<in> insert [] (set (cr_allowed_profiles (p_credentials p)))"
proof -
  note ok = Evaluate_allowed [OF assms(2,3)]
  have limits: "limits_set p" by (rule LoadPolicies_limits [OF assms(1) ok(1)])
  have c: "\<exists>g \<in> set (p_allowed_repositories p). Match g (rq_repo req) = Some True"
    "HostFromRepo (rq_repo req) \<in> set (p_allowed_hosts p)"
    "rq_submodules req \<longrightarrow> sp_enabled (p_submodules p)" "rq_lfs req \<longrightarrow> lp_enabled (p_lfs p)"
    "cp_max_depth (p_clone p) \<le> 0 \<or> rq_depth req \<le> 0 \<or> rq_depth req \<le> cp_max_depth (p_clone p)"
    "revision_permitted rx (rq_revision req) (p_revisions p)"
    "request_profile p req = [] \<or> request_profile p req \<in> set (cr_allowed_profiles (p_credentials p))"
    using ok(3) by (simp_all add: checks_def)
  have profile: "res_resolved_profile res = request_profile p req" by (rule ok(4))
  have depth: "rq_depth req \<le> cp_max_depth (p_clone p)"
    "0 < (if rq_depth req = 0 then cp_default_depth (p_clone p) else rq_depth req)"
    using c(5) limits assms(4) by (auto simp: limits_set_def)
  note rev = c(6) [unfolded revision_permitted_def] revision_kinds [of "rq_revision req"]
  have "rp_require_pinned_commit (p_revisions p) \<longrightarrow> isCommitSHA (rq_revision req)" using rev by auto
  moreover have "is_tag_rev (rq_revision req) \<longrightarrow> rp_allow_tags (p_revisions p)
         \<and> (rp_allowed_tag_regex (p_revisions p) = []
            \<or> (\<exists>raw \<in> set (rp_allowed_tag_regex (p_revisions p)). \<exists>m. rx raw = Some m \<and> m (rq_revision req)))"
    using rev by (auto split: if_splits)
  moreover have "is_branch_rev (rq_revision req) \<longrightarrow> rp_allow_branches (p_revisions p)
         \<and> (rp_allowed_branch_regex (p_revisions p) = []
            \<or> (\<exists>raw \<in> set (rp_allowed_branch_regex (p_revisions p)). \<exists>m. rx raw = Some m \<and> m (rq_revision req)))"
    using rev by (auto split: if_splits)
  ultimately show ?thesis
    using ok(1,2) c(1-4,7) depth profile by (simp add: request_profile_def)
qed

definition example_policy :: git_content_policy where
  "example_policy =
     zero_policy\<lparr>p_name := ''default'', p_allowed_repositories := [''https://github.com/example/*''],
       p_allowed_hosts := [''github.com''],
       p_revisions := zero_revision_policy\<lparr>rp_allow_tags := True\<rparr>,
       p_credentials := \<lparr>cr_default_profile = ''reader'', cr_allowed_profiles = [''reader'']\<rparr>,
       p_namespaces := [''web'']\<rparr>"

definition example_request :: request where
  "example_request =
     \<lparr>rq_namespace = ''web'', rq_repo = ''https://github.com/example/site.git'',
      rq_revision = ''refs/tags/v1.0.0'', rq_path = ''public/assets'', rq_depth = 2, rq_submodules = False,
      rq_lfs = False, rq_credential_profile = []\<rparr>"

definition no_regex :: regex_engine where
  "no_regex = (\<lambda>_. None)"

lemma example_load:
  "LoadPolicies (\<lambda>_. Inr []) (\<lambda>_. Inr [example_policy]) ''policies.yaml'' = Inr [applyPolicyDefaults example_policy]"
  by (simp add: LoadPolicies_def)

lemma example_evaluate:
  "Evaluate no_regex [applyPolicyDefaults example_policy] example_request [] =
     (\<lparr>res_allowed = True, res_resolved_profile = ''reader'', res_denial_reason_code = [],
       res_denial_reason = []\<rparr>, applyPolicyDefaults example_policy)"
proof -
  let ?p = "applyPolicyDefaults example_policy"
  have "applies ?p (rq_namespace example_request) []" by code_simp
  then have "selectPolicy [?p] (rq_namespace example_request) [] = Some ?p" by (simp add: selectPolicy_find)
  moreover have "matchesAnyGlob (p_allowed_repositories ?p) (rq_repo example_request)"
    "contains (p_allowed_hosts ?p) (HostFromRepo (rq_repo example_request))"
    "checkRevisionPolicy no_regex (rq_revision example_request) (p_revisions ?p) = Inr ()"
    "\<not> rq_submodules example_request" "\<not> rq_lfs example_request"
    "\<not> rq_depth example_request > cp_max_depth (p_clone ?p)"
    "request_profile ?p example_request = ''reader''"
    "contains (cr_allowed_profiles (p_credentials ?p)) ''reader''" by code_simp+
  ultimately show ?thesis
    unfolding Evaluate_def Let_def request_profile_def [symmetric] by (simp del: contains_iff)
qed

theorem Evaluate_allowed_sound_witness:
  "HostFromRepo (rq_repo example_request) \<in> set (p_allowed_hosts (applyPolicyDefaults example_policy))
   \<and> rq_depth example_request \<le> cp_max_depth (p_clone (applyPolicyDefaults example_policy))"
  using Evaluate_allowed_sound [OF example_load example_evaluate] by (simp add: example_request_def)

end
