(* ===== verification/RepoHosts.thy ===== *)
theory RepoHosts
  imports PolicyEval
begin

text \<open>
  The host the policy sees: what \<^verbatim>\<open>HostFromRepo\<close> of \<^verbatim>\<open>pkg/policy/evaluator.go\<close> finds in the two forms of a
  repository name, put together from their parts, and where it differs from the host of the URL.
\<close>

section \<open>The parts of a URL\<close>

text \<open>A host name, and a text without control bytes and percent signs.\<close>

definition host_name :: "string \<Rightarrow> bool" where
  "host_name h \<longleftrightarrow> h \<noteq> [] \<and> list_all (\<lambda>c. is_alpha c \<or> is_digit c \<or> c \<in> set ''-.'') h"

definition plain_text :: "string \<Rightarrow> bool" where
  "plain_text s \<longleftrightarrow> list_all (\<lambda>c. \<not> is_ctl c \<and> c \<noteq> CHR ''%'') s"

text \<open>The user information and the port of a URL, each with its separator, or nothing.\<close>

definition user_part :: "string \<Rightarrow> bool" where
  "user_part u \<longleftrightarrow> u = [] \<or> (\<exists>v. u = v @ ''@'' \<and> list_all userinfo_byte v \<and> CHR ''%'' \<notin> set v)"

definition port_part :: "string \<Rightarrow> bool" where
  "port_part p \<longleftrightarrow> p = [] \<or> (\<exists>ds. p = '':'' @ ds \<and> list_all is_digit ds)"

lemma escapes_plain: "CHR ''%'' \<notin> set s \<Longrightarrow> escapes_ok s"
  by (induction s) auto

lemma unescape_plain:
  "list_all host_byte s \<Longrightarrow> CHR ''%'' \<notin> set s \<Longrightarrow> unescape_host zone s = Some s"
  by (induction s) auto

lemma LastIndexByte_None: "LastIndexByte s c = None \<longleftrightarrow> c \<notin> set s"
  by (induction s) (auto split: option.splits)

lemma LastIndexByte_last: "c \<notin> set b \<Longrightarrow> LastIndexByte (a @ c # b) c = Some (length a)"
  by (induction a) (auto simp: LastIndexByte_None split: option.splits)

lemma host_name_bytes:
  assumes "host_name h"
  shows "list_all host_byte h" and "set h \<inter> set ''%:@/?#[] '' = {}" and "\<not> list_ex is_ctl h"
proof -
  have all: "is_alpha c \<or> is_digit c \<or> c \<in> set ''-.''" if "c \<in> set h" for c
    using assms that by (auto simp: host_name_def list_all_iff)
  show "list_all host_byte h" using all by (auto simp: list_all_iff host_byte_def)
  have "\<not> (is_alpha c \<or> is_digit c \<or> c \<in> set ''-.'')" if "c \<in> set ''%:@/?#[] ''" for c
  proof -
    have "list_all (\<lambda>c. \<not> (is_alpha c \<or> is_digit c \<or> c \<in> set ''-.'')) ''%:@/?#[] ''" by code_simp
    then show ?thesis using that unfolding list_all_iff by blast
  qed
  then show "set h \<inter> set ''%:@/?#[] '' = {}" using all by blast
  have "\<not> is_ctl c" if "is_alpha c \<or> is_digit c \<or> c \<in> set ''-.''" for c
    using that by (auto simp: is_alpha_def is_digit_def is_ctl_def less_char_def less_eq_char_def)
  then show "\<not> list_ex is_ctl h" using all by (auto simp: list_ex_iff)
qed

lemma digits_bytes: "list_all is_digit ds \<Longrightarrow> list_all host_byte ds \<and> set ds \<inter> set ''%:@/?#[] '' = {} \<and> \<not> list_ex is_ctl ds"
  using host_name_bytes [of ds] by (cases "ds = []") (auto simp: host_name_def list_all_iff)

lemma port_bytes:
  assumes "port_part p"
  shows "list_all host_byte p" and "set p \<inter> set ''%@/?#[]'' = {}" and "\<not> list_ex is_ctl p" and "valid_optional_port p"
proof -
  have colon: "host_byte CHR '':''" "\<not> is_ctl CHR '':''" by code_simp+
  consider "p = []" | ds where "p = '':'' @ ds" "list_all is_digit ds" using assms by (auto simp: port_part_def)
  then have "list_all host_byte p \<and> set p \<inter> set ''%@/?#[]'' = {} \<and> \<not> list_ex is_ctl p \<and> valid_optional_port p"
  proof cases
    case 2
    then show ?thesis using digits_bytes [OF 2(2)] colon by (auto simp: valid_optional_port_def)
  qed (simp add: valid_optional_port_def)
  then show "list_all host_byte p" "set p \<inter> set ''%@/?#[]'' = {}" "\<not> list_ex is_ctl p" "valid_optional_port p" by blast+
qed

lemma before_byte: "c \<notin> set b \<Longrightarrow> takeWhile (\<lambda>x. x \<noteq> c) (b @ c # a) = b"
  by (induction b) auto

lemma before_byte_eq: "b @ c # a = b' @ c # a' \<Longrightarrow> c \<notin> set b \<Longrightarrow> c \<notin> set b' \<Longrightarrow> b = b'"
  using before_byte [of c b a] before_byte [of c b' a'] by simp

lemma parse_host_name:
  assumes "host_name h" and "port_part p"
  shows "parse_host (h @ p) = Some (h @ p)"
proof -
  note h = host_name_bytes [OF assms(1)] and p = port_bytes [OF assms(2)]
  have "LastIndexByte (h @ p) CHR ''['' = None" using h(2) p(2) by (auto simp: LastIndexByte_None)
  moreover have "unescape_host False (h @ p) = Some (h @ p)" using h p by (intro unescape_plain) auto
  moreover have "valid_optional_port (drop i (h @ p))" if i: "Index (h @ p) '':'' = Some i" for i
  proof -
    obtain b a where ba: "h @ p = b @ CHR '':'' # a" "CHR '':'' \<notin> set b" "i = length b"
      using i by (auto simp: Index_byte_Some_iff)
    have "p \<noteq> []" using ba(1) h(2) by auto
    then obtain ds where ds: "p = CHR '':'' # ds" using assms(2) by (auto simp: port_part_def)
    have "CHR '':'' \<notin> set h" using h(2) by auto
    then have "h = b" using before_byte_eq [of h "CHR '':''" ds b a] ba(1,2) unfolding ds by simp
    then show ?thesis using ba(3) p(4) by simp
  qed
  ultimately show ?thesis by (auto simp: parse_host_def split: option.splits)
qed

lemma Hostname_name:
  assumes "host_name h" and "port_part p" and "Host u = h @ p"
  shows "Hostname u = h"
proof -
  note h = host_name_bytes [OF assms(1)]
  have no: "\<not> HasPrefix h ''[''" using h(2) by (cases h) auto
  show ?thesis
  proof (cases "p = []")
    case True
    then have "LastIndexByte (Host u) CHR '':'' = None" using assms(3) h(2) by (auto simp: LastIndexByte_None)
    then show ?thesis using no True assms(3) by (simp add: Hostname_def)
  next
    case False
    then obtain ds where ds: "p = CHR '':'' # ds" "list_all is_digit ds" using assms(2) by (auto simp: port_part_def)
    then have "LastIndexByte (Host u) CHR '':'' = Some (length h)"
      using assms(3) LastIndexByte_last digits_bytes [OF ds(2)] by auto
    then show ?thesis using no assms(3) port_bytes(4) [OF assms(2)] by (simp add: Hostname_def)
  qed
qed

lemma parse_authority_parts:
  assumes "user_part u" and "host_name h" and "port_part p"
  shows "parse_authority (u @ h @ p) = Some (h @ p)"
proof -
  have at: "CHR ''@'' \<notin> set (h @ p)" using host_name_bytes [OF assms(2)] port_bytes [OF assms(3)] by auto
  show ?thesis
  proof (cases "u = []")
    case True
    then have "LastIndexByte (u @ h @ p) CHR ''@'' = None" using at by (simp add: LastIndexByte_None)
    then show ?thesis using True parse_host_name [OF assms(2,3)] by (simp add: parse_authority_def)
  next
    case False
    then obtain v where v: "u = v @ ''@''" "list_all userinfo_byte v" "CHR ''%'' \<notin> set v" using assms(1) by (auto simp: user_part_def)
    have "LastIndexByte (u @ h @ p) CHR ''@'' = Some (length v)" using LastIndexByte_last [OF at, of v] v(1) by simp
    then show ?thesis using v parse_host_name [OF assms(2,3)] escapes_plain by (simp add: parse_authority_def)
  qed
qed

text \<open>A URL put together from its parts is parsed into its scheme, in lower case, and its host.\<close>

lemma url_parse_parts:
  assumes "s \<noteq> []" and "list_all is_alpha s" and u: "user_part u" and h: "host_name h" and p: "port_part p" and "plain_text x"
  shows "\<exists>v. url_parse (s @ ''://'' @ u @ h @ p @ ''/'' @ x) = Some v \<and> Scheme v = ToLower s \<and> Hostname v = h"
proof -
  obtain x1 x2 b where cut: "Cut x CHR ''#'' = (x1, x2, b)" by (metis prod_cases3)
  have sub: "set x1 \<subseteq> set x \<and> set x2 \<subseteq> set x" using cut
    by (induction x arbitrary: x1 x2 b) (auto split: if_splits prod.splits)
  have plain: "CHR ''%'' \<notin> set x1" "CHR ''%'' \<notin> set x2" "\<not> list_ex is_ctl x1"
    using assms(6) sub by (auto simp: plain_text_def list_all_iff list_ex_iff)
  have alpha: "is_alpha c \<Longrightarrow> c \<notin> set ''#?/:@%'' \<and> \<not> is_ctl c" for c
    using host_name_bytes [of "[c]"] by (auto simp: host_name_def)
  have ub: "userinfo_byte c \<Longrightarrow> c \<notin> set ''#?/'' \<and> \<not> is_ctl c" for c
    by (auto simp: userinfo_byte_def is_alpha_def is_digit_def is_ctl_def less_char_def less_eq_char_def)
  have us: "set u \<inter> set ''#?/'' = {}" "\<not> list_ex is_ctl u"
  proof -
    have "userinfo_byte CHR ''@''" by code_simp
    then have "list_all userinfo_byte u" using u by (auto simp: user_part_def)
    then show "set u \<inter> set ''#?/'' = {}" "\<not> list_ex is_ctl u" using ub by (auto simp: list_all_iff list_ex_iff)
  qed
  note hb = host_name_bytes [OF h] and pb = port_bytes [OF p]
  let ?auth = "u @ h @ p"
  have auth: "set ?auth \<inter> set ''#?/'' = {}" "\<not> list_ex is_ctl ?auth" using us hb pb by auto
  have front: "CHR ''#'' \<notin> set (s @ ''://'' @ ?auth @ ''/'')" using auth alpha assms(2) by (auto simp: list_all_iff)
  have cut_app: "Cut (y @ x) CHR ''#'' = (y @ x1, x2, b)" if "CHR ''#'' \<notin> set y" for y
    using that cut by (induction y) auto
  have "Cut (s @ ''://'' @ ?auth @ ''/'' @ x) CHR ''#'' = (s @ ''://'' @ ?auth @ ''/'' @ x1, x2, b)"
    using cut_app [OF front] by simp
  moreover have "get_scheme (s @ ''://'' @ ?auth @ ''/'' @ x1) [] (s @ CHR '':'' # ''//'' @ ?auth @ ''/'' @ x1) = Some (s, ''//'' @ ?auth @ ''/'' @ x1)"
    using get_scheme_prefix [of s "[]"] assms(1,2) by simp
  moreover have "\<not> list_ex is_ctl (s @ ''://'' @ ?auth @ ''/'' @ x1)"
  proof -
    have "\<not> list_ex is_ctl s" using alpha assms(2) by (auto simp: list_all_iff list_ex_iff)
    moreover have "\<not> list_ex is_ctl ''://''" "\<not> list_ex is_ctl ''/''" by code_simp+
    ultimately show ?thesis using auth(2) plain(3) by simp
  qed
  moreover have "s @ ''://'' @ ?auth @ ''/'' @ x1 \<noteq> ''*''" using assms(1) by (cases s) auto
  moreover have "parse_after_scheme (ToLower s) (''//'' @ ?auth @ ''/'' @ x1) = Some \<lparr>Scheme = ToLower s, Host = h @ p\<rparr>"
  proof -
    obtain y1 y2 c where q: "Cut x1 CHR ''?'' = (y1, y2, c)" by (metis prod_cases3)
    have "set y1 \<subseteq> set x1" using q by (induction x1 arbitrary: y1 y2 c) (auto split: if_splits prod.splits)
    then have y: "CHR ''%'' \<notin> set y1" using plain(1) by blast
    have no: "CHR ''?'' \<notin> set (''//'' @ ?auth @ ''/'')" using auth by auto
    have "Cut (y @ x1) CHR ''?'' = (y @ y1, y2, c)" if "CHR ''?'' \<notin> set y" for y
      using that q by (induction y) auto
    from this [OF no] have rest: "fst (Cut (''//'' @ ?auth @ ''/'' @ x1) CHR ''?'') = ''//'' @ ?auth @ ''/'' @ y1" by simp
    have "CHR ''/'' \<notin> set ?auth" using auth by auto
    from Cut_append [OF this] have a: "fst (Cut (?auth @ ''/'' @ y1) CHR ''/'') = ?auth" by simp
    have "drop (length ?auth) (?auth @ ''/'' @ y1) = ''/'' @ y1" by (metis append_eq_conv_conj)
    moreover have "escapes_ok (''/'' @ y1)" using y by (intro escapes_plain) auto
    moreover have "ToLower s \<noteq> []" using assms(1) by (simp add: ToLower_def)
    ultimately show ?thesis
      using rest a parse_authority_parts [OF u h p] unfolding parse_after_scheme_def by (simp add: Let_def)
  qed
  ultimately have "url_parse (s @ ''://'' @ ?auth @ ''/'' @ x) = Some \<lparr>Scheme = ToLower s, Host = h @ p\<rparr>"
    using escapes_plain [OF plain(2)] by (simp add: url_parse_def)
  moreover have "Hostname \<lparr>Scheme = ToLower s, Host = h @ p\<rparr> = h" by (rule Hostname_name [OF h p]) simp
  ultimately show ?thesis by simp
qed

section \<open>The host of a repository\<close>


lemma scp_host_parts:
  assumes "CHR ''@'' \<notin> set v" and "CHR '':'' \<notin> set h"
  shows "scp_host (v @ ''@'' @ h @ '':'' @ y) = h"
proof -
  have "Index (v @ ''@'' @ h @ '':'' @ y) ''@'' = Some (length v)" using assms(1) by (auto simp: Index_byte_Some_iff)
  moreover have "Index (h @ CHR '':'' # y) '':'' = Some (length h)" using assms(2) by (auto simp: Index_byte_Some_iff)
  ultimately show ?thesis by (simp add: scp_host_def)
qed



text \<open>
  C24. The check can be passed with a capital letter. Take any spelling of the three schemes but the lower-case one, any two host names, and any
  path: the URL of the first host whose path begins with an at-sign and the second host passes validation, its host is the first one, and the policy
  is shown the second one.
\<close>

theorem host_bypass:
  assumes "list_all is_alpha s" and "ToLower s \<in> {''ssh'', ''http'', ''https''}" and "s \<notin> {''ssh'', ''http'', ''https''}"
    and "host_name h" and "host_name g" and "plain_text x" and "CHR '' '' \<notin> set x"
    and repo: "repo = s @ ''://'' @ h @ ''/@'' @ g @ '':'' @ x"
  shows "validateRepo repo = Inr ()
    \<and> (\<exists>u. url_parse repo = Some u \<and> Hostname u = h)
    \<and> HostFromRepo repo = g"
proof -
  have s: "s \<noteq> []" "CHR '':'' \<notin> set s"
  proof -
    show "s \<noteq> []" using assms(2) by (auto simp: ToLower_def)
    have "\<not> is_alpha CHR '':''" by code_simp
    then show "CHR '':'' \<notin> set s" using assms(1) by (auto simp: list_all_iff)
  qed
  have "host_name s" using s(1) assms(1) by (auto simp: host_name_def list_all_iff)
  note sb = host_name_bytes [OF this] and hb = host_name_bytes [OF assms(4)] and gb = host_name_bytes [OF assms(5)]
  have no: "s = q" if q: "HasPrefix repo (q @ ''://'')" "CHR '':'' \<notin> set q" for q
  proof -
    obtain r where "repo = (q @ ''://'') @ r" using q(1) unfolding prefix_def by blast
    then have q': "repo = q @ CHR '':'' # ''//'' @ r" by simp
    have s': "repo = s @ CHR '':'' # ''//'' @ h @ ''/@'' @ g @ '':'' @ x" using repo by simp
    show ?thesis by (rule before_byte_eq [OF trans [OF s' [symmetric] q'] s(2) q(2)])
  qed
  have "ToLower ''file'' \<notin> {''ssh'', ''http'', ''https''}" by code_simp
  then have "s \<noteq> ''file''" using assms(2) by metis
  then have low: "\<not> HasPrefix repo ''ssh://''" "\<not> HasPrefix repo ''http://''" "\<not> HasPrefix repo ''https://''" "\<not> HasPrefix repo ''file://''"
    using no [of "''ssh''"] no [of "''http''"] no [of "''https''"] no [of "''file''"] assms(3) by force+
  have plain: "plain_text (''@'' @ g @ '':'' @ x)"
  proof -
    have "\<not> is_ctl CHR ''@''" "\<not> is_ctl CHR '':''" by code_simp+
    then show ?thesis using gb assms(6) by (auto simp: plain_text_def list_all_iff list_ex_iff)
  qed
  have "\<exists>u. url_parse (s @ ''://'' @ [] @ h @ [] @ ''/'' @ ''@'' @ g @ '':'' @ x) = Some u \<and> Scheme u = ToLower s \<and> Hostname u = h"
    by (rule url_parse_parts [OF s(1) assms(1) _ assms(4) _ plain]) (simp_all add: user_part_def port_part_def)
  then obtain u where u: "url_parse repo = Some u" "Scheme u = ToLower s" "Hostname u = h" using repo by auto
  have bytes: "set repo \<inter> set blank_bytes = {}"
  proof -
    have ctl: "is_ctl CHR 0x09" "is_ctl CHR 0x0D" "is_ctl CHR 0x0A" "\<not> list_ex is_ctl ''://''" "\<not> list_ex is_ctl ''/@''" "\<not> list_ex is_ctl '':''"
      by code_simp+
    have "\<not> list_ex is_ctl x" using assms(6) by (auto simp: plain_text_def list_all_iff list_ex_iff)
    then have "\<not> list_ex is_ctl repo" unfolding repo list_ex_append using ctl sb hb gb by simp
    moreover have "CHR '' '' \<notin> set repo" unfolding repo using sb hb gb assms(7) by auto
    ultimately show ?thesis using ctl(1-3) by (auto simp: blank_bytes_def list_ex_iff)
  qed
  have c: "CHR ''@'' \<notin> set (s @ ''://'' @ h @ ''/'')" using sb hb by auto
  have "scp_host repo = g" using scp_host_parts [OF c, of g x] gb repo by auto
  moreover have "validateRepo repo = Inr ()"
  proof -
    obtain c r where cr: "s = c # r" "is_alpha c" using s(1) assms(1) by (cases s) auto
    have "\<not> is_alpha CHR ''-''" "\<not> is_alpha CHR ''/''" "\<not> is_alpha CHR ''.''" by code_simp+
    then have "\<not> HasPrefix repo ''-''" "\<not> local_repo repo" using cr low repo by (auto simp: local_repo_def)
    moreover have "Contains repo ''://''" unfolding repo by (rule sublist_appendI)
    moreover have "remote_url repo" using u assms(2,4) by (auto simp: remote_url_def host_name_def)
    ultimately show ?thesis using bytes by (simp add: validateRepo_iff repo_spec_def)
  qed
  ultimately show ?thesis using u low by (auto simp: HostFromRepo_def)
qed

theorem host_bypass_witness:
  "\<exists>repo. validateRepo repo = Inr () \<and> (\<exists>u. url_parse repo = Some u \<and> Hostname u = ''evil.example'')
     \<and> HostFromRepo repo = ''github.com''"
proof -
  have "list_all is_alpha ''HTTPS''" "ToLower ''HTTPS'' \<in> {''ssh'', ''http'', ''https''}" "host_name ''evil.example''" "host_name ''github.com''"
    "plain_text ''site.git''" "CHR '' '' \<notin> set ''site.git''" by code_simp+
  then show ?thesis using host_bypass [of "''HTTPS''" "''evil.example''" "''github.com''" "''site.git''"] by blast
qed

end
