(* ===== verification/MatPaths.thy ===== *)
theory MatPaths
  imports Volume PolicyEval
begin

text \<open>
  \<^verbatim>\<open>pkg/materializer/materializer.go\<close>: the backend's result, the path checks both backends share and
  the reading of a revision as a reference name. Containment is lexical, by \<^verbatim>\<open>filepath.Rel\<close>; the
  locale \<open>path_jail\<close> is the contract of a function that turns an untrusted path into one below a root,
  and \<^verbatim>\<open>safeJoin\<close> and (in \<open>NodePlugin\<close>) \<^verbatim>\<open>safeTargetPath\<close> are its providers.
\<close>

section \<open>Definitions\<close>

record mat_result =
  mr_resolved :: string
  mr_repo_path :: string
  mr_mounted_path :: string
  mr_file_count :: int
  mr_size_bytes :: int
  mr_cache_hit :: bool

definition zero_mat_result :: mat_result where
  "zero_mat_result =
     \<lparr>mr_resolved = [], mr_repo_path = [], mr_mounted_path = [], mr_file_count = 0, mr_size_bytes = 0,
      mr_cache_hit = False\<rparr>"

text \<open>The permission bits \<^verbatim>\<open>0o750\<close> and \<^verbatim>\<open>0o755\<close>.\<close>

definition privateDirPerm :: perm where "privateDirPerm = 488"
definition publicDirPerm :: perm where "publicDirPerm = 493"

definition rel_error :: "string \<Rightarrow> string \<Rightarrow> string" where
  "rel_error base targ = ''Rel: can'' @ [CHR 0x27] @ ''t make '' @ targ @ '' relative to '' @ base"

definition ensureInside :: "string \<Rightarrow> string \<Rightarrow> unit result" where
  "ensureInside root candidate =
     (case Rel root candidate of
        None \<Rightarrow> Inl (rel_error root candidate)
      | Some rel \<Rightarrow>
          if rel = ''..'' \<or> HasPrefix rel ''../'' \<or> IsAbs rel
          then Inl ''requested path escapes repository'' else Inr ())"

definition hasParentPathSegment :: "string \<Rightarrow> bool" where
  "hasParentPathSegment rel = list_ex (\<lambda>part. part = ''..'') (split_on CHR ''/'' rel)"

definition hasGitPathSegment :: "string \<Rightarrow> bool" where
  "hasGitPathSegment rel = list_ex (\<lambda>part. part = ''.git'') (split_on CHR ''/'' rel)"

definition safeJoin :: "string \<Rightarrow> string \<Rightarrow> string result" where
  "safeJoin root rel =
     (if rel = [] then Inr (Clean root)
      else
        (let cleaned = Clean rel in
         if \<not> IsLocal cleaned \<or> hasParentPathSegment cleaned then Inl ''path escapes root''
         else if hasGitPathSegment cleaned then Inl ''path must not reference .git''
         else
           (let target = Join root cleaned in
            bindE (ensureInside root target) (\<lambda>_. Inr target))))"

definition validateSymlinkTarget :: "string \<Rightarrow> string \<Rightarrow> string \<Rightarrow> unit result" where
  "validateSymlinkTarget root linkPath linkTarget =
     (if IsAbs linkTarget
      then Inl (''repository symlink '' @ linkPath @ '' uses an absolute target'')
      else
        (let resolved = Clean (Join (Dir linkPath) linkTarget) in
         case ensureInside root resolved of
           Inl _ \<Rightarrow> Inl (''repository symlink '' @ linkPath @ '' escapes source root'')
         | Inr _ \<Rightarrow> Inr ()))"

definition isHex :: "string \<Rightarrow> bool" where
  "isHex v \<longleftrightarrow>
     list_all (\<lambda>ch. \<not> ((ch < CHR ''0'' \<or> ch > CHR ''9'') \<and> (ch < CHR ''a'' \<or> ch > CHR ''f''))) v"

definition isPinnedCommit :: "string \<Rightarrow> bool" where
  "isPinnedCommit revision \<longleftrightarrow> length revision = 40 \<and> isHex revision"

definition mutableRef :: "attributes \<Rightarrow> string" where
  "mutableRef attrs =
     (let rv = at_revision attrs in
      if at_revision_kind attrs = ''tag''
      then TrimPrefix (TrimPrefix rv ''refs/tags/'') ''tag:''
      else if at_revision_kind attrs = ''branch''
      then TrimPrefix (TrimPrefix rv ''refs/heads/'') ''branch:''
      else if HasPrefix rv ''refs/tags/'' then TrimPrefix rv ''refs/tags/''
      else if HasPrefix rv ''refs/heads/'' then TrimPrefix rv ''refs/heads/''
      else if HasPrefix rv ''tag:'' then TrimPrefix rv ''tag:''
      else if HasPrefix rv ''branch:'' then TrimPrefix rv ''branch:''
      else if isPinnedCommit rv then []
      else rv)"

section \<open>Containment\<close>

lemma ensureInside_iff [path_simps]:
  assumes "''..'' \<notin> set (clean_comps root)" and "''..'' \<notin> set (clean_comps candidate)"
  shows "ensureInside root candidate = Inr () \<longleftrightarrow> inside root candidate"
  using Rel_contained_iff [OF assms]
  by (auto simp: ensureInside_def climbs_def split: option.splits)

lemma split_on_elem:
  "e \<noteq> [] \<Longrightarrow> e \<noteq> ''.'' \<Longrightarrow> e \<in> set (split_on CHR ''/'' s) \<longleftrightarrow> e \<in> set (path_elems s)"
  by (simp add: path_elems_def)

lemma path_elems_Clean [simp]: "path_elems (Clean s) = clean_comps s"
  unfolding Clean_def by (rule path_elems_path_string) (rule clean_comps_ok)

lemma segments_Clean [path_simps]:
  "hasParentPathSegment (Clean s) \<longleftrightarrow> ''..'' \<in> set (clean_comps s)"
  "hasGitPathSegment (Clean s) \<longleftrightarrow> ''.git'' \<in> set (clean_comps s)"
  using split_on_elem [of "''..''" "Clean s"] split_on_elem [of "''.git''" "Clean s"]
  by (auto simp: hasParentPathSegment_def hasGitPathSegment_def list_ex_iff)

text \<open>What may be named below a root: a relative path with no dot-dot left and no \<^verbatim>\<open>.git\<close>.\<close>

definition safe_rel :: "string \<Rightarrow> bool" where
  "safe_rel rel \<longleftrightarrow> \<not> IsAbs rel \<and> ''..'' \<notin> set (clean_comps rel) \<and> ''.git'' \<notin> set (clean_comps rel)"

definition below :: "string \<Rightarrow> string list \<Rightarrow> string" where
  "below root es = path_string (IsAbs root) (clean_comps root @ es)"

lemma below_comps:
  assumes "''..'' \<notin> set (clean_comps root)" and "list_all elem_ok es" and "''..'' \<notin> set es"
  shows "clean_comps (below root es) = clean_comps root @ es" and "IsAbs (below root es) = IsAbs root"
    and "inside root (below root es)"
proof -
  have ok: "list_all elem_ok (clean_comps root @ es)" using assms(2) by simp
  have dots: "dots_first (IsAbs root) (clean_comps root @ es)" using assms by (intro dots_first_plain) simp
  show c: "clean_comps (below root es) = clean_comps root @ es"
    unfolding below_def by (rule clean_comps_path_string [OF ok dots])
  show a: "IsAbs (below root es) = IsAbs root" unfolding below_def by (rule IsAbs_path_string [OF ok])
  show "inside root (below root es)" using c a by (simp add: inside_def)
qed

lemma Join_below:
  assumes "root \<noteq> []" and "\<not> IsAbs rel" and "''..'' \<notin> set (clean_comps rel)"
  shows "Join root rel = below root (clean_comps rel)"
  unfolding below_def by (rule Join_local [OF assms])

lemma Clean_below: "Clean root = below root []"
  by (simp add: below_def Clean_def)

lemma safeJoin_spec:
  assumes "root \<noteq> []" and "''..'' \<notin> set (clean_comps root)"
  shows "safeJoin root rel = Inr t \<longleftrightarrow> safe_rel rel \<and> t = below root (clean_comps rel)"
proof (cases "rel = []")
  case True
  then show ?thesis
    by (auto simp: safeJoin_def safe_rel_def Clean_below IsAbs_def clean_comps_def)
next
  case False
  have local: "IsLocal (Clean rel) \<longleftrightarrow> \<not> IsAbs rel \<and> ''..'' \<notin> set (clean_comps rel)"
    by (simp add: IsLocal_iff)
  have join: "ensureInside root (Join root (Clean rel)) = Inr () \<and> Join root (Clean rel) = below root (clean_comps rel)"
    if "\<not> IsAbs rel" "''..'' \<notin> set (clean_comps rel)"
  proof -
    have "Join root (Clean rel) = below root (clean_comps rel)"
      using Join_below [of root "Clean rel"] assms(1) that by simp
    then show ?thesis
      using below_comps [OF assms(2) clean_comps_ok that(2)] assms(2) that(2) by (simp add: ensureInside_iff)
  qed
  show ?thesis
    using False join by (auto simp: safeJoin_def Let_def local segments_Clean safe_rel_def)
qed

lemma safeJoin_error:
  assumes "root \<noteq> []" and "''..'' \<notin> set (clean_comps root)" and "\<not> safe_rel rel"
  shows "\<exists>e. safeJoin root rel = Inl e"
  using safeJoin_spec [OF assms(1,2), of rel] assms(3) by (cases "safeJoin root rel") auto

text \<open>
  C25. A path joined by \<^verbatim>\<open>safeJoin\<close> is the root followed by the cleaned components of the request, and
  the join succeeds exactly for relative requests that neither climb above the root nor name
  \<^verbatim>\<open>.git\<close>; so whatever it returns lies inside the root.
\<close>

theorem safeJoin_iff:
  assumes "root \<noteq> []" and "''..'' \<notin> set (clean_comps root)"
  shows "safeJoin root rel = Inr t \<longleftrightarrow>
      \<not> IsAbs rel \<and> ''..'' \<notin> set (clean_comps rel) \<and> ''.git'' \<notin> set (clean_comps rel)
      \<and> IsAbs t = IsAbs root \<and> clean_comps t = clean_comps root @ clean_comps rel \<and> t = Clean t"
proof -
  have "safe_rel rel \<Longrightarrow> t = below root (clean_comps rel) \<longleftrightarrow>
      IsAbs t = IsAbs root \<and> clean_comps t = clean_comps root @ clean_comps rel \<and> t = Clean t"
    using below_comps [OF assms(2) clean_comps_ok, of rel]
    by (auto simp: safe_rel_def Clean_def below_def)
  then show ?thesis by (auto simp: safeJoin_spec [OF assms] safe_rel_def)
qed

theorem safeJoin_iff_witness:
  "safeJoin ''/work/repo'' ''public/./site'' = Inr ''/work/repo/public/site''"
proof -
  have "clean_comps ''/work/repo/public/site'' = clean_comps ''/work/repo'' @ clean_comps ''public/./site''"
    "Clean ''/work/repo/public/site'' = ''/work/repo/public/site''"
    "IsAbs ''/work/repo/public/site''" "IsAbs ''/work/repo''" "\<not> IsAbs ''public/./site''"
    "''..'' \<notin> set (clean_comps ''public/./site'')" "''.git'' \<notin> set (clean_comps ''public/./site'')"
    "''..'' \<notin> set (clean_comps ''/work/repo'')" by code_simp+
  then show ?thesis
    using safeJoin_iff [of "''/work/repo''" "''public/./site''" "''/work/repo/public/site''"] by simp
qed

section \<open>The contract of a jail\<close>

text \<open>
  A jail maps a root and an untrusted path to a path, or refuses. What it returns is clean and lies inside
  the root. A strict jail never returns the root itself.
\<close>

locale path_jail =
  fixes root_ok :: "string \<Rightarrow> bool"
    and jail :: "string \<Rightarrow> string \<Rightarrow> string result"
  assumes jail_inside: "root_ok r \<Longrightarrow> jail r p = Inr t \<Longrightarrow> inside r t"
    and jail_clean: "root_ok r \<Longrightarrow> jail r p = Inr t \<Longrightarrow> Clean t = t"
    and jail_root: "root_ok r \<Longrightarrow> jail r p = Inr t \<Longrightarrow> root_ok t"
begin

text \<open>Jails nest, and two paths from disjoint roots never meet.\<close>

lemma jail_nested:
  "root_ok r \<Longrightarrow> jail r p = Inr t \<Longrightarrow> jail t q = Inr u \<Longrightarrow> inside r u"
  using jail_inside jail_root inside_trans by blast

lemma jail_disjoint:
  assumes "root_ok r" and "root_ok r'" and "jail r p = Inr t" and "jail r' p' = Inr t"
  shows "prefix (clean_comps r) (clean_comps r') \<or> prefix (clean_comps r') (clean_comps r)"
  using jail_inside [OF assms(1,3)] jail_inside [OF assms(2,4)]
    prefix_same_cases [of "clean_comps r" "clean_comps t" "clean_comps r'"] by (auto simp: inside_def)

end

locale strict_jail = path_jail +
  assumes jail_below: "root_ok r \<Longrightarrow> jail r p = Inr t \<Longrightarrow> clean_comps t \<noteq> clean_comps r"
begin

lemma jail_strict: "root_ok r \<Longrightarrow> jail r p = Inr t \<Longrightarrow> strict_prefix (clean_comps r) (clean_comps t)"
  using jail_inside [of r p t] jail_below [of r p t] by (auto simp: inside_def strict_prefix_def)

lemma jail_not_root: "root_ok r \<Longrightarrow> jail r p \<noteq> Inr (Clean r)"
  using jail_below [of r p "Clean r"] by auto

end

text \<open>A root a path can be joined to: not empty, and no dot-dot left when cleaned.\<close>

definition join_root :: "string \<Rightarrow> bool" where
  "join_root r \<longleftrightarrow> r \<noteq> [] \<and> ''..'' \<notin> set (clean_comps r)"

interpretation join: path_jail join_root safeJoin
proof
  fix r p t
  assume "join_root r" and j: "safeJoin r p = Inr t"
  then have r: "r \<noteq> []" "''..'' \<notin> set (clean_comps r)" by (simp_all add: join_root_def)
  then have t: "safe_rel p" "t = below r (clean_comps p)" using j safeJoin_spec by auto
  then have "''..'' \<notin> set (clean_comps p)" by (simp add: safe_rel_def)
  note b = below_comps [OF r(2) clean_comps_ok this]
  show "inside r t" using b t by simp
  show "Clean t = t" unfolding Clean_def t(2) b(1,2) by (simp add: below_def)
  have "t \<noteq> []" unfolding t(2) below_def by (rule path_string_not_Nil) simp
  then show "join_root t"
    using b(1) r(2) t \<open>''..'' \<notin> set (clean_comps p)\<close> by (simp add: join_root_def)
qed

section \<open>Symbolic links\<close>

lemma IsAbs_dir_part: "IsAbs p \<Longrightarrow> IsAbs (dir_part p)"
proof -
  assume "IsAbs p"
  then obtain s where s: "p = CHR ''/'' # s" by (cases p) (auto simp: IsAbs_def)
  then obtain b c where bc: "p = b @ CHR ''/'' # c" "CHR ''/'' \<notin> set c"
    by (metis list.set_intros(1) split_list_last)
  then have "dir_part p = b @ ''/''" by (simp add: dir_part_slash)
  then show ?thesis using s bc by (cases b) (auto simp: IsAbs_def)
qed

lemma link_resolution:
  assumes "IsAbs linkPath"
  shows "IsAbs (Join (Dir linkPath) linkTarget)"
    and "clean_comps (Join (Dir linkPath) linkTarget)
      = clean_elems True (rev (clean_comps (dir_part linkPath))) (path_elems linkTarget)"
proof -
  have d: "Dir linkPath \<noteq> []" and a: "IsAbs (Dir linkPath)"
    using IsAbs_dir_part [OF assms] by (simp_all add: Dir_def)
  then show "IsAbs (Join (Dir linkPath) linkTarget)" by simp
  show "clean_comps (Join (Dir linkPath) linkTarget)
      = clean_elems True (rev (clean_comps (dir_part linkPath))) (path_elems linkTarget)"
    using a clean_comps_append_slash [OF d, of linkTarget] by (simp add: Join_def d) (simp add: Dir_def)
qed

text \<open>
  C26. A repository link is accepted exactly when its target is relative and, resolved lexically from the
  link's directory, stays inside the tree that is being copied.
\<close>

theorem validateSymlinkTarget_iff:
  assumes "IsAbs root" and "IsAbs linkPath"
  shows "(validateSymlinkTarget root linkPath linkTarget = Inr ()) =
      (\<not> IsAbs linkTarget
       \<and> prefix (clean_comps root)
           (clean_elems True (rev (clean_comps (dir_part linkPath))) (path_elems linkTarget)))"
proof -
  let ?r = "Join (Dir linkPath) linkTarget"
  have "ensureInside root (Clean ?r) = Inr () \<longleftrightarrow> inside root ?r"
    using IsAbs_no_dots [OF assms(1)] IsAbs_no_dots [OF link_resolution(1) [OF assms(2)]]
    by (simp add: ensureInside_iff)
  then show ?thesis
    using link_resolution [OF assms(2), of linkTarget] assms
    by (auto simp: validateSymlinkTarget_def Let_def inside_def split: sum.splits)
qed

theorem validateSymlinkTarget_iff_witness:
  "validateSymlinkTarget ''/w/src'' ''/w/src/public/link'' ''../docs/a'' = Inr ()
   \<and> validateSymlinkTarget ''/w/src'' ''/w/src/public/link'' ''../../secret'' \<noteq> Inr ()"
proof -
  have "IsAbs ''/w/src''" "IsAbs ''/w/src/public/link''" "\<not> IsAbs ''../docs/a''"
    "prefix (clean_comps ''/w/src'')
       (clean_elems True (rev (clean_comps (dir_part ''/w/src/public/link''))) (path_elems ''../docs/a''))"
    "\<not> prefix (clean_comps ''/w/src'')
       (clean_elems True (rev (clean_comps (dir_part ''/w/src/public/link''))) (path_elems ''../../secret''))"
    by code_simp+
  then show ?thesis
    using validateSymlinkTarget_iff [of "''/w/src''" "''/w/src/public/link''"] by simp
qed

section \<open>Reference names\<close>

text \<open>The three packages test a commit in the same way.\<close>

lemma isPinnedCommit_isHexSHA: "isPinnedCommit rv = isHexSHA rv"
  by (simp add: isPinnedCommit_def isHex_def isHexSHA_def)

lemma isPinnedCommit_isCommitSHA: "isPinnedCommit rv = isCommitSHA rv"
  by (simp add: isPinnedCommit_isHexSHA isCommitSHA_isHexSHA)

text \<open>The prefixes the reference may lose; \<open>pre\<close> is what \<^verbatim>\<open>mutableRef\<close> removed.\<close>

lemma ref_spec_no_colon: "ref_spec name \<Longrightarrow> CHR '':'' \<notin> set name"
  by (auto simp: ref_spec_def unsafe_ref_bytes_def)

lemma ref_name_cases:
  obtains "ref_name rv = rv" "\<forall>p \<in> set ref_prefixes. \<not> HasPrefix rv p"
  | p where "p \<in> set ref_prefixes" "rv = p @ ref_name rv"
proof (cases "find (\<lambda>p. HasPrefix rv p) ref_prefixes")
  case None
  have "ref_name rv = rv" using None by (simp add: ref_name_def)
  then show ?thesis using that(1) None by (simp add: find_None_iff)
next
  case (Some p)
  then have p: "HasPrefix rv p" "p \<in> set ref_prefixes" by (auto simp: find_Some_iff)
  then have "rv = p @ ref_name rv" using Some by (auto simp: ref_name_def prefix_def)
  then show ?thesis using that(2) p(2) by blast
qed

lemma TrimPrefix_colon: "CHR '':'' \<notin> set n \<Longrightarrow> CHR '':'' \<in> set p \<Longrightarrow> TrimPrefix n p = n"
  by (rule TrimPrefix_idle) (auto dest: set_mono_prefix)

lemma hex_no_ref_prefix:
  assumes "isHexSHA rv" and "p \<in> set ref_prefixes"
  shows "\<not> HasPrefix rv p"
proof -
  have "CHR ''r'' \<in> set p \<or> CHR ''t'' \<in> set p" using assms(2) by (auto simp: ref_prefixes_def)
  moreover have "CHR ''f'' < CHR ''r''" "CHR ''f'' < CHR ''t''" by code_simp+
  ultimately show ?thesis using hex_excludes [of rv] assms(1) by (auto simp: isCommitSHA_isHexSHA)
qed

lemma mutableRef_unprefixed:
  assumes "\<forall>p \<in> set ref_prefixes. \<not> HasPrefix (at_revision a) p"
  shows "mutableRef a =
    (if isPinnedCommit (at_revision a) \<and> at_revision_kind a \<noteq> ''tag'' \<and> at_revision_kind a \<noteq> ''branch''
     then [] else at_revision a)"
  using assms by (simp add: mutableRef_def Let_def ref_prefixes_def TrimPrefix_idle)

lemma mutableRef_prefixed:
  assumes "at_revision a = p @ n" and "p \<in> set ref_prefixes" and "CHR '':'' \<notin> set n"
  shows "mutableRef a \<in> {n, at_revision a}"
proof -
  have colon: "TrimPrefix n ''tag:'' = n" "TrimPrefix n ''branch:'' = n"
    using assms(3) by (auto intro: TrimPrefix_colon)
  consider "p = ''refs/heads/''" | "p = ''refs/tags/''" | "p = ''branch:''" | "p = ''tag:''"
    using assms(2) by (auto simp: ref_prefixes_def)
  then show ?thesis
    using colon assms(1) by cases (simp_all add: mutableRef_def Let_def TrimPrefix_def)
qed

text \<open>An operand that is safe to hand to a command line: no option, no blank and no NUL.\<close>

definition operand_ok :: "string \<Rightarrow> bool" where
  "operand_ok s \<longleftrightarrow> \<not> HasPrefix s ''-'' \<and> set s \<inter> set (blank_bytes @ [CHR 0x00]) = {}"

lemma operand_ok_revision: "revision_spec rv \<Longrightarrow> operand_ok rv"
  by (simp add: revision_spec_def operand_ok_def)

lemma operand_ok_ref_name:
  assumes "ref_spec n" and "set n \<subseteq> set rv" and "revision_spec rv"
  shows "operand_ok n \<and> n \<noteq> []"
  using assms by (auto simp: operand_ok_def revision_spec_def ref_spec_def ref_part_ok_def)

lemma parsed_operands:
  assumes "Parse raw = Inr a"
  shows "operand_ok (at_revision a) \<and> operand_ok (mutableRef a)
    \<and> (mutableRef a = []) =
        (isPinnedCommit (at_revision a) \<and> at_revision_kind a \<notin> {''tag'', ''branch''})"
proof -
  have rv: "revision_spec (at_revision a)" "at_revision a \<noteq> []"
    using Parse_spec [OF assms] by (simp_all add: attributes_spec_def)
  show ?thesis
  proof (cases "\<forall>p \<in> set ref_prefixes. \<not> HasPrefix (at_revision a) p")
    case True
    then show ?thesis
      using rv operand_ok_revision [OF rv(1)] by (auto simp: mutableRef_unprefixed operand_ok_def)
  next
    case False
    then obtain p where p: "p \<in> set ref_prefixes" "at_revision a = p @ ref_name (at_revision a)"
      by (cases "at_revision a" rule: ref_name_cases) auto
    then have nh: "\<not> isHexSHA (at_revision a)" using hex_no_ref_prefix by (metis prefixI)
    then have ref: "ref_spec (ref_name (at_revision a))" using rv by (simp add: revision_spec_def)
    moreover have "set (ref_name (at_revision a)) \<subseteq> set (at_revision a)" using p(2) by (metis set_append Un_upper2)
    ultimately have n: "operand_ok (ref_name (at_revision a))" "ref_name (at_revision a) \<noteq> []"
      using operand_ok_ref_name [OF _ _ rv(1)] by blast+
    have "mutableRef a = ref_name (at_revision a) \<or> mutableRef a = at_revision a"
      using mutableRef_prefixed [OF p(2,1) ref_spec_no_colon [OF ref]] by simp
    then show ?thesis
      using n operand_ok_revision [OF rv(1)] rv(2) nh by (elim disjE) (simp_all add: isPinnedCommit_isHexSHA)
  qed
qed

text \<open>
  No option injection: for a request that \<^verbatim>\<open>Parse\<close> accepted, neither the revision nor the reference
  name read from it can be taken for a command-line option, and neither has blanks or NUL bytes; the
  reference name is empty exactly for a pinned commit with no kind.
\<close>

theorem mutableRef_operand:
  assumes "Parse raw = Inr a"
  shows "operand_ok (at_revision a) \<and> operand_ok (mutableRef a)
    \<and> (mutableRef a = []) =
        (isPinnedCommit (at_revision a) \<and> at_revision_kind a \<notin> {''tag'', ''branch''})"
  by (rule parsed_operands [OF assms])

theorem mutableRef_operand_witness:
  "operand_ok (mutableRef example_attributes) \<and> mutableRef example_attributes = ''v1.0.0''"
proof -
  have "mutableRef example_attributes = ''v1.0.0''" by code_simp
  then show ?thesis using mutableRef_operand [OF Parse_example] by simp
qed

end
