(* ===== verification/GoFs.thy ===== *)
theory GoFs
  imports GoPath "HOL-Library.AList"
begin

text \<open>
  The file system the driver works on, and the functions of Go's \<^verbatim>\<open>os\<close> and \<^verbatim>\<open>path/filepath\<close>
  packages the code calls. A file system is an association list from physical paths (component lists
  from the root) to entries; a path string is resolved the way the kernel does it, following symbolic
  links up to a limit of 40. Modification times, owners, the size a directory reports and the clock are
  kept beside the entries. The driver runs as root, so permission bits never refuse an operation; device
  faults and name-length limits are not modelled.
\<close>

section \<open>State\<close>

datatype entry = EFile string perm | EDir perm | ELink string | ESpecial perm

datatype errno = ENOENT | EEXIST | ENOTDIR | EISDIR | ELOOP | EINVAL | EBUSY

type_synonym fs = "(string list \<times> entry) list"

record world =
  w_fs :: fs
  w_mtime :: "string list \<Rightarrow> int"
  w_owner :: "string list \<Rightarrow> int \<times> int"
  w_cwd :: "string list"
  w_umask :: perm
  w_clock :: "nat \<Rightarrow> int"
  w_ticks :: nat
  w_dir_size :: "string list \<Rightarrow> int"

definition look :: "world \<Rightarrow> string list \<Rightarrow> entry option" where
  "look w p = map_of (w_fs w) p"

definition is_dir :: "world \<Rightarrow> string list \<Rightarrow> bool" where
  "is_dir w p = (case look w p of Some (EDir _) \<Rightarrow> True | _ \<Rightarrow> False)"

definition strerror :: "errno \<Rightarrow> string" where
  "strerror e =
     (case e of
        ENOENT \<Rightarrow> ''no such file or directory''
      | EEXIST \<Rightarrow> ''file exists''
      | ENOTDIR \<Rightarrow> ''not a directory''
      | EISDIR \<Rightarrow> ''is a directory''
      | ELOOP \<Rightarrow> ''too many levels of symbolic links''
      | EINVAL \<Rightarrow> ''invalid argument''
      | EBUSY \<Rightarrow> ''device or resource busy'')"

text \<open>The text of a \<^verbatim>\<open>PathError\<close>.\<close>

definition path_error :: "string \<Rightarrow> string \<Rightarrow> errno \<Rightarrow> string" where
  "path_error op path e = op @ '' '' @ path @ '': '' @ strerror e"

section \<open>Path resolution\<close>

datatype lookup = Found "string list" entry | Missing "string list" | Fails errno

function namei :: "fs \<Rightarrow> bool \<Rightarrow> nat \<Rightarrow> string list \<Rightarrow> string list \<Rightarrow> lookup" where
  "namei fs follow n cur [] =
     (case map_of fs cur of Some e \<Rightarrow> Found cur e | None \<Rightarrow> Fails ENOENT)"
| "namei fs follow n cur (e # es) =
     (case map_of fs cur of
        Some (EDir _) \<Rightarrow>
          if e = ''..'' then namei fs follow n (butlast cur) es
          else
            (case map_of fs (cur @ [e]) of
               None \<Rightarrow> if es = [] then Missing (cur @ [e]) else Fails ENOENT
             | Some (ELink t) \<Rightarrow>
                 if es = [] \<and> \<not> follow then Found (cur @ [e]) (ELink t)
                 else if n = 0 then Fails ELOOP
                 else namei fs follow (n - 1) (if IsAbs t then [] else cur) (path_elems t @ es)
             | Some x \<Rightarrow> namei fs follow n (cur @ [e]) es)
      | Some _ \<Rightarrow> Fails ENOTDIR
      | None \<Rightarrow> Fails ENOENT)"
  by pat_completeness auto

termination
  by (relation "measures [\<lambda>(fs, follow, n, cur, es). n, \<lambda>(fs, follow, n, cur, es). length es]") auto

definition max_symlinks :: nat where "max_symlinks = 40"

definition resolve :: "bool \<Rightarrow> string \<Rightarrow> world \<Rightarrow> lookup" where
  "resolve follow path w =
     (if path = [] then Fails ENOENT
      else if CHR 0x00 \<in> set path then Fails EINVAL
      else namei (w_fs w) follow max_symlinks (if IsAbs path then [] else w_cwd w) (path_elems path))"

section \<open>Kernel-level updates\<close>

definition stamped :: "'a \<Rightarrow> int \<Rightarrow> ('a \<Rightarrow> int) \<Rightarrow> 'a \<Rightarrow> int" where
  [simp]: "stamped p t f = f(p := t)"

text \<open>For evaluation, the time is computed before the function is updated.\<close>

lemma stamped_code [code]:
  "stamped p 0 f = (\<lambda>x. if x = p then 0 else f x)"
  "stamped p (Int.Pos n) f = (\<lambda>x. if x = p then Int.Pos n else f x)"
  "stamped p (Int.Neg n) f = (\<lambda>x. if x = p then Int.Neg n else f x)"
  by (auto simp: fun_eq_iff)

definition touch :: "string list \<Rightarrow> world \<Rightarrow> world" where
  "touch p w =
     w\<lparr>w_mtime := stamped (butlast p) (w_clock w (w_ticks w)) (stamped p (w_clock w (w_ticks w)) (w_mtime w)),
       w_ticks := Suc (w_ticks w)\<rparr>"

definition set_entry :: "string list \<Rightarrow> entry \<Rightarrow> world \<Rightarrow> world" where
  "set_entry p e w = w\<lparr>w_fs := AList.update p e (w_fs w)\<rparr>"

definition put :: "string list \<Rightarrow> entry \<Rightarrow> world \<Rightarrow> world" where
  "put p e w = touch p (set_entry p e w)"

definition remove_tree :: "string list \<Rightarrow> world \<Rightarrow> world" where
  "remove_tree p w = touch p (w\<lparr>w_fs := filter (\<lambda>(q, _). \<not> prefix p q) (w_fs w)\<rparr>)"

text \<open>\<^verbatim>\<open>time.Now()\<close>.\<close>

definition time_now :: "world \<Rightarrow> int \<times> world" where
  "time_now w = (w_clock w (w_ticks w), w\<lparr>w_ticks := Suc (w_ticks w)\<rparr>)"

section \<open>Operations that return an error\<close>

type_synonym ('s, 'a) action = "'s \<Rightarrow> 'a result \<times> 's"

definition ret :: "'a \<Rightarrow> 's \<Rightarrow> ('e + 'a) \<times> 's" where
  "ret v s = (Inr v, s)"

definition fail :: "'e \<Rightarrow> 's \<Rightarrow> ('e + 'a) \<times> 's" where
  "fail e s = (Inl e, s)"

definition bindW ::
  "('s \<Rightarrow> ('e + 'a) \<times> 's) \<Rightarrow> ('a \<Rightarrow> 's \<Rightarrow> ('e + 'b) \<times> 's) \<Rightarrow> 's \<Rightarrow> ('e + 'b) \<times> 's" where
  "bindW m f s = (case m s of (Inl e, s') \<Rightarrow> (Inl e, s') | (Inr v, s') \<Rightarrow> f v s')"

text \<open>A pure check, and \<^verbatim>\<open>fmt.Errorf("...: %w", err)\<close>.\<close>

definition liftW :: "'a result \<Rightarrow> ('s, 'a) action" where
  "liftW x s = (x, s)"

definition wrap :: "string \<Rightarrow> ('s, 'a) action \<Rightarrow> ('s, 'a) action" where
  "wrap msg m s = (case m s of (Inl e, s') \<Rightarrow> (Inl (msg @ '': '' @ e), s') | (Inr v, s') \<Rightarrow> (Inr v, s'))"

section \<open>Package os\<close>

definition Lstat :: "string \<Rightarrow> world \<Rightarrow> entry result" where
  "Lstat path w =
     (case resolve False path w of
        Found _ e \<Rightarrow> Inr e
      | Missing _ \<Rightarrow> Inl (path_error ''lstat'' path ENOENT)
      | Fails e \<Rightarrow> Inl (path_error ''lstat'' path e))"

definition Stat :: "string \<Rightarrow> world \<Rightarrow> entry result" where
  "Stat path w =
     (case resolve True path w of
        Found _ e \<Rightarrow> Inr e
      | Missing _ \<Rightarrow> Inl (path_error ''stat'' path ENOENT)
      | Fails e \<Rightarrow> Inl (path_error ''stat'' path e))"

definition Readlink :: "string \<Rightarrow> world \<Rightarrow> string result" where
  "Readlink path w =
     (case resolve False path w of
        Found _ (ELink t) \<Rightarrow> Inr t
      | Found _ _ \<Rightarrow> Inl (path_error ''readlink'' path EINVAL)
      | Missing _ \<Rightarrow> Inl (path_error ''readlink'' path ENOENT)
      | Fails e \<Rightarrow> Inl (path_error ''readlink'' path e))"

text \<open>\<^verbatim>\<open>os.Open\<close>, and reading an open file to the end: a directory opens, and reading it fails.\<close>

definition Open :: "string \<Rightarrow> world \<Rightarrow> entry result" where
  "Open path w =
     (case resolve True path w of
        Found _ e \<Rightarrow> Inr e
      | Missing _ \<Rightarrow> Inl (path_error ''open'' path ENOENT)
      | Fails e \<Rightarrow> Inl (path_error ''open'' path e))"

fun read_entry :: "string \<Rightarrow> entry \<Rightarrow> string result" where
  "read_entry path (EFile c _) = Inr c"
| "read_entry path (EDir _) = Inl (path_error ''read'' path EISDIR)"
| "read_entry path _ = Inr []"

definition Mkdir :: "string \<Rightarrow> perm \<Rightarrow> (world, unit) action" where
  "Mkdir path perm w =
     (case resolve False path w of
        Found _ _ \<Rightarrow> (Inl (path_error ''mkdir'' path EEXIST), w)
      | Missing p \<Rightarrow> (Inr (), put p (EDir (and perm (not (w_umask w)))) w)
      | Fails e \<Rightarrow> (Inl (path_error ''mkdir'' path e), w))"

text \<open>The parent \<^verbatim>\<open>os.MkdirAll\<close> creates first: the path without its last element, slash kept.\<close>

definition parent_part :: "string \<Rightarrow> string" where
  "parent_part path =
     rev (dropWhile (\<lambda>c. c \<noteq> CHR ''/'') (dropWhile (\<lambda>c. c = CHR ''/'') (rev path)))"

lemma parent_part_shorter: "path \<noteq> [] \<Longrightarrow> length (parent_part path) < length path"
proof -
  assume "path \<noteq> []"
  then obtain c cs where r: "rev path = c # cs" by (cases "rev path") auto
  have "length (dropWhile (\<lambda>c. c \<noteq> CHR ''/'') (dropWhile (\<lambda>c. c = CHR ''/'') (c # cs))) < length (c # cs)"
    using length_dropWhile_le [of "\<lambda>c. c \<noteq> CHR ''/''" "dropWhile (\<lambda>c. c = CHR ''/'') cs"]
      length_dropWhile_le [of "\<lambda>c. c = CHR ''/''" cs] length_dropWhile_le [of "\<lambda>c. c \<noteq> CHR ''/''" cs]
    by auto
  then show ?thesis using r by (simp add: parent_part_def)
qed

function MkdirAll :: "string \<Rightarrow> perm \<Rightarrow> (world, unit) action" where
  "MkdirAll path perm w =
     (case Stat path w of
        Inr (EDir _) \<Rightarrow> (Inr (), w)
      | Inr _ \<Rightarrow> (Inl (path_error ''mkdir'' path ENOTDIR), w)
      | Inl _ \<Rightarrow>
          (let parent = parent_part path;
               (r1, w1) = (if path \<noteq> [] \<and> parent \<noteq> [] then MkdirAll parent perm w else (Inr (), w))
           in case r1 of
                Inl e \<Rightarrow> (Inl e, w1)
              | Inr _ \<Rightarrow>
                  (case Mkdir path perm w1 of
                     (Inr _, w2) \<Rightarrow> (Inr (), w2)
                   | (Inl e, w2) \<Rightarrow>
                       (case Lstat path w2 of Inr (EDir _) \<Rightarrow> (Inr (), w2) | _ \<Rightarrow> (Inl e, w2)))))"
  by pat_completeness auto

termination
  by (relation "measure (\<lambda>(path, perm, w). length path)") (auto simp: parent_part_shorter)

declare namei.simps [simp del] MkdirAll.simps [simp del]

text \<open>\<^verbatim>\<open>os.OpenFile\<close> with \<^verbatim>\<open>O_CREATE|O_EXCL|O_WRONLY\<close> and the content written to it.\<close>

definition CreateExcl :: "string \<Rightarrow> perm \<Rightarrow> string \<Rightarrow> (world, unit) action" where
  "CreateExcl path perm content w =
     (case resolve False path w of
        Found _ _ \<Rightarrow> (Inl (path_error ''open'' path EEXIST), w)
      | Missing p \<Rightarrow> (Inr (), put p (EFile content (and perm (not (w_umask w)))) w)
      | Fails e \<Rightarrow> (Inl (path_error ''open'' path e), w))"

definition link_error :: "string \<Rightarrow> string \<Rightarrow> errno \<Rightarrow> string" where
  "link_error old new e = ''symlink '' @ old @ '' '' @ new @ '': '' @ strerror e"

definition Symlink :: "string \<Rightarrow> string \<Rightarrow> (world, unit) action" where
  "Symlink old new w =
     (if old = [] then (Inl (link_error old new ENOENT), w)
      else if CHR 0x00 \<in> set old then (Inl (link_error old new EINVAL), w)
      else
        (case resolve False new w of
           Found _ _ \<Rightarrow> (Inl (link_error old new EEXIST), w)
         | Missing p \<Rightarrow> (Inr (), put p (ELink old) w)
         | Fails e \<Rightarrow> (Inl (link_error old new e), w)))"

text \<open>\<^verbatim>\<open>os.RemoveAll\<close>: a path that does not exist is no error, a final link is not followed.\<close>

definition RemoveAll :: "string \<Rightarrow> (world, unit) action" where
  "RemoveAll path w =
     (if path = [] then (Inr (), w)
      else if path = ''.'' \<or> HasSuffix path ''/.'' then (Inl (path_error ''RemoveAll'' path EINVAL), w)
      else
        (case resolve False path w of
           Found p _ \<Rightarrow>
             if p = [] then (Inl (path_error ''unlinkat'' path EBUSY), w) else (Inr (), remove_tree p w)
         | Missing _ \<Rightarrow> (Inr (), w)
         | Fails ENOENT \<Rightarrow> (Inr (), w)
         | Fails e \<Rightarrow> (Inl (path_error ''unlinkat'' path e), w)))"

fun set_perm :: "perm \<Rightarrow> entry \<Rightarrow> entry" where
  "set_perm m (EFile c _) = EFile c m"
| "set_perm m (EDir _) = EDir m"
| "set_perm m (ESpecial _) = ESpecial m"
| "set_perm m (ELink t) = ELink t"

definition Chmod :: "string \<Rightarrow> perm \<Rightarrow> (world, unit) action" where
  "Chmod path m w =
     (case resolve True path w of
        Found p e \<Rightarrow> (Inr (), set_entry p (set_perm m e) w)
      | Missing _ \<Rightarrow> (Inl (path_error ''chmod'' path ENOENT), w)
      | Fails e \<Rightarrow> (Inl (path_error ''chmod'' path e), w))"

definition Lchown :: "string \<Rightarrow> int \<Rightarrow> int \<Rightarrow> (world, unit) action" where
  "Lchown path uid gid w =
     (case resolve False path w of
        Found p _ \<Rightarrow> (Inr (), w\<lparr>w_owner := (w_owner w)(p := (uid, gid))\<rparr>)
      | Missing _ \<Rightarrow> (Inl (path_error ''lchown'' path ENOENT), w)
      | Fails e \<Rightarrow> (Inl (path_error ''lchown'' path e), w))"

text \<open>\<^verbatim>\<open>os.WriteFile\<close> opens with \<^verbatim>\<open>O_WRONLY|O_CREATE|O_TRUNC\<close>: it follows a final link, and keeps the
  permissions of a file that exists.\<close>

definition WriteFile :: "string \<Rightarrow> string \<Rightarrow> perm \<Rightarrow> (world, unit) action" where
  "WriteFile path content perm w =
     (case resolve True path w of
        Found p (EFile _ m) \<Rightarrow> (Inr (), put p (EFile content m) w)
      | Found p (EDir _) \<Rightarrow> (Inl (path_error ''open'' path EISDIR), w)
      | Found p _ \<Rightarrow> (Inr (), w)
      | Missing p \<Rightarrow> (Inr (), put p (EFile content (and perm (not (w_umask w)))) w)
      | Fails e \<Rightarrow> (Inl (path_error ''open'' path e), w))"

text \<open>The file kinds, \<^verbatim>\<open>fs.DirEntry\<close> being a name with a kind; \<^verbatim>\<open>os.ReadDir\<close> sorts by name.\<close>

datatype kind = KDir | KFile | KLink | KSpecial

fun kind_of :: "entry \<Rightarrow> kind" where
  "kind_of (EFile _ _) = KFile"
| "kind_of (EDir _) = KDir"
| "kind_of (ELink _) = KLink"
| "kind_of (ESpecial _) = KSpecial"

definition names :: "fs \<Rightarrow> string list \<Rightarrow> string list" where
  "names fs p = sort (map (last \<circ> fst) (filter (\<lambda>(q, _). q \<noteq> [] \<and> butlast q = p) fs))"

definition dir_list :: "fs \<Rightarrow> string list \<Rightarrow> (string \<times> kind) list" where
  "dir_list fs p =
     map (\<lambda>n. (n, case map_of fs (p @ [n]) of None \<Rightarrow> KSpecial | Some e \<Rightarrow> kind_of e)) (names fs p)"

definition ReadDir :: "string \<Rightarrow> world \<Rightarrow> (string \<times> kind) list result" where
  "ReadDir path w =
     (case resolve True path w of
        Found p (EDir _) \<Rightarrow> Inr (dir_list (w_fs w) p)
      | Found _ _ \<Rightarrow> Inl (path_error ''readdirent'' path ENOTDIR)
      | Missing _ \<Rightarrow> Inl (path_error ''open'' path ENOENT)
      | Fails e \<Rightarrow> Inl (path_error ''open'' path e))"

text \<open>\<^verbatim>\<open>info.Size()\<close> of an entry and \<^verbatim>\<open>info.ModTime()\<close>.\<close>

definition size_at :: "world \<Rightarrow> string list \<Rightarrow> entry \<Rightarrow> int" where
  "size_at w p e =
     (case e of EFile c _ \<Rightarrow> int (length c) | ELink t \<Rightarrow> int (length t) | EDir _ \<Rightarrow> w_dir_size w p | ESpecial _ \<Rightarrow> 0)"

text \<open>\<^verbatim>\<open>d.Info()\<close>: size, modification time and the entry itself.\<close>

definition Info :: "string \<Rightarrow> world \<Rightarrow> (int \<times> int \<times> entry) result" where
  "Info path w =
     (case resolve False path w of
        Found p e \<Rightarrow> Inr (size_at w p e, w_mtime w p, e)
      | Missing _ \<Rightarrow> Inl (path_error ''lstat'' path ENOENT)
      | Fails e \<Rightarrow> Inl (path_error ''lstat'' path e))"

section \<open>filepath.WalkDir\<close>

text \<open>
  The walk works on the live file system: each directory is read when it is reached. A callback gets
  the path, the kind (none when the root cannot be read), the error if there is one, and the state; it
  may answer with \<^verbatim>\<open>SkipDir\<close>. The state is any type with a world in it. The fuel bounds the depth; it is
  one more than the number of entries at the start, so it can only run out when the callback
  itself keeps deepening the tree it walks.
\<close>

datatype walk_result = WOk | WSkipDir | WErr string | WFuel

type_synonym 's callback = "string \<Rightarrow> kind option \<Rightarrow> string option \<Rightarrow> 's \<Rightarrow> walk_result \<times> 's"

fun walk_list :: "(string \<Rightarrow> kind \<Rightarrow> 's \<Rightarrow> walk_result \<times> 's) \<Rightarrow> (string \<times> kind) list \<Rightarrow> 's \<Rightarrow> walk_result \<times> 's" where
  "walk_list visit [] s = (WOk, s)"
| "walk_list visit ((name, d) # ds) s =
     (case visit name d s of
        (WOk, s') \<Rightarrow> walk_list visit ds s'
      | (WSkipDir, s') \<Rightarrow> (WOk, s')
      | (r, s') \<Rightarrow> (r, s'))"

primrec walk_dir :: "('s \<Rightarrow> world) \<Rightarrow> 's callback \<Rightarrow> nat \<Rightarrow> string \<Rightarrow> kind \<Rightarrow> 's \<Rightarrow> walk_result \<times> 's" where
  "walk_dir wd f 0 path d s = (WFuel, s)"
| "walk_dir wd f (Suc n) path d s =
     (case f path (Some d) None s of
        (WOk, s1) \<Rightarrow>
          if d \<noteq> KDir then (WOk, s1)
          else
            (case ReadDir path (wd s1) of
               Inl e \<Rightarrow>
                 (case f path (Some d) (Some e) s1 of
                    (WSkipDir, s2) \<Rightarrow> (WOk, s2)
                  | (r, s2) \<Rightarrow> (r, s2))
             | Inr ds \<Rightarrow> walk_list (\<lambda>name. walk_dir wd f n (Join path name)) ds s1)
      | (WSkipDir, s1) \<Rightarrow> (if d = KDir then WOk else WSkipDir, s1)
      | (r, s1) \<Rightarrow> (r, s1))"

definition WalkDir :: "('s \<Rightarrow> world) \<Rightarrow> 's callback \<Rightarrow> string \<Rightarrow> 's \<Rightarrow> walk_result \<times> 's" where
  "WalkDir wd f root s =
     (let (r, s') =
        (case Lstat root (wd s) of
           Inl e \<Rightarrow> f root None (Some e) s
         | Inr e \<Rightarrow> walk_dir wd f (Suc (length (w_fs (wd s)))) root (kind_of e) s)
      in (if r = WSkipDir then WOk else r, s'))"

text \<open>The walk as an action: running out of fuel is reported as an error of its own.\<close>

definition fuel_error :: string where "fuel_error = ''walk: fuel''"

definition walk_action :: "walk_result \<times> 's \<Rightarrow> unit result \<times> 's" where
  "walk_action rs =
     (case rs of (WErr e, s) \<Rightarrow> (Inl e, s) | (WFuel, s) \<Rightarrow> (Inl fuel_error, s) | (_, s) \<Rightarrow> (Inr (), s))"

end
