(* ===== verification/FsFacts.thy ===== *)
theory FsFacts
  imports GoFs
begin

text \<open>
  Facts on the file-system model: well-formed states and their preservation, and what each operation does at
  an absolute path whose parents are directories.
\<close>

section \<open>Well-formed states\<close>

definition name_ok :: "string \<Rightarrow> bool" where
  "name_ok n \<longleftrightarrow> plain_elem n \<and> CHR 0x00 \<notin> set n"

definition entry_ok :: "entry \<Rightarrow> bool" where
  "entry_ok e = (case e of ELink t \<Rightarrow> t \<noteq> [] \<and> CHR 0x00 \<notin> set t | _ \<Rightarrow> True)"

definition wf_world :: "world \<Rightarrow> bool" where
  "wf_world w \<longleftrightarrow>
     distinct (map fst (w_fs w)) \<and> is_dir w [] \<and> (\<forall>p e. look w p = Some e \<longrightarrow> entry_ok e)
     \<and> (\<forall>p n. look w (p @ [n]) \<noteq> None \<longrightarrow> name_ok n \<and> is_dir w p)"

lemma is_dir_iff: "is_dir w p \<longleftrightarrow> (\<exists>m. look w p = Some (EDir m))"
  by (auto simp: is_dir_def split: option.splits entry.splits)

lemma look_touch [simp]: "look (touch p w) q = look w q"
  by (simp add: look_def touch_def)

lemma look_ticks [simp]: "look (w\<lparr>w_ticks := n\<rparr>) q = look w q"
  by (simp add: look_def)

lemma look_set_entry [simp, fs_simps]: "look (set_entry p e w) q = (if q = p then Some e else look w q)"
  by (simp add: look_def set_entry_def update_conv)

lemma look_put [simp, fs_simps]: "look (put p e w) q = (if q = p then Some e else look w q)"
  by (simp add: put_def)

lemma look_remove_tree [simp, fs_simps]: "look (remove_tree p w) q = (if prefix p q then None else look w q)"
  using map_of_filter_key [of "\<lambda>q. \<not> prefix p q" "w_fs w" q] by (simp add: remove_tree_def look_def touch_def)

lemma world_const [simp]:
  "w_umask (set_entry p e w) = w_umask w" "w_cwd (set_entry p e w) = w_cwd w"
  "w_umask (put p e w) = w_umask w" "w_umask (remove_tree p w) = w_umask w" "w_umask (touch p w) = w_umask w"
  "w_cwd (put p e w) = w_cwd w" "w_cwd (remove_tree p w) = w_cwd w" "w_cwd (touch p w) = w_cwd w"
  "w_dir_size (put p e w) = w_dir_size w" "w_dir_size (remove_tree p w) = w_dir_size w"
  "w_clock (put p e w) = w_clock w" "w_clock (remove_tree p w) = w_clock w" "w_clock (touch p w) = w_clock w"
  by (simp_all add: put_def set_entry_def remove_tree_def touch_def)

lemma wf_parent: "wf_world w \<Longrightarrow> look w p \<noteq> None \<Longrightarrow> p \<noteq> [] \<Longrightarrow> is_dir w (butlast p) \<and> name_ok (last p)"
  unfolding wf_world_def by (metis append_butlast_last_id)

lemma mtime_remove_tree: "q \<noteq> p \<Longrightarrow> q \<noteq> butlast p \<Longrightarrow> w_mtime (remove_tree p w) q = w_mtime w q"
  by (simp add: remove_tree_def touch_def)

lemma wf_entry: "wf_world w \<Longrightarrow> look w p = Some e \<Longrightarrow> entry_ok e"
  unfolding wf_world_def by blast

lemma wf_root: "wf_world w \<Longrightarrow> is_dir w []"
  by (simp add: wf_world_def)

lemma wf_ancestors: "wf_world w \<Longrightarrow> look w (p @ q) \<noteq> None \<Longrightarrow> look w p \<noteq> None"
proof (induction q rule: rev_induct)
  case (snoc n q)
  then have "is_dir w (p @ q)" using wf_parent [of w "p @ q @ [n]"] by (simp add: butlast_append)
  then show ?case using snoc by (auto simp: is_dir_iff)
qed simp

lemma wf_missing: "wf_world w \<Longrightarrow> look w p = None \<Longrightarrow> look w (p @ q) = None"
  using wf_ancestors [of w p q] by blast

lemma wf_strict_ancestors: "wf_world w \<Longrightarrow> look w (p @ n # q) \<noteq> None \<Longrightarrow> is_dir w p \<and> name_ok n"
  using wf_ancestors [of w "p @ [n]" q] wf_parent [of w "p @ [n]"] by simp

lemma wf_touch [simp]: "wf_world (touch p w) = wf_world w"
  by (simp add: wf_world_def is_dir_iff) (simp add: touch_def)

lemma wf_ticks [simp]: "wf_world (w\<lparr>w_ticks := n\<rparr>) = wf_world w"
  by (simp add: wf_world_def is_dir_iff)

lemma wf_set_entry:
  assumes "wf_world w" and "p \<noteq> []" and "is_dir w (butlast p)" and "name_ok (last p)"
    and "is_dir w p \<Longrightarrow> \<exists>m. e = EDir m" and "entry_ok e"
  shows "wf_world (set_entry p e w)"
proof -
  have dirs: "is_dir w q \<Longrightarrow> is_dir (set_entry p e w) q" for q using assms(5) by (auto simp: is_dir_iff)
  have "distinct (map fst (w_fs (set_entry p e w)))"
    using assms(1) by (simp add: wf_world_def set_entry_def distinct_update)
  moreover have "name_ok n \<and> is_dir (set_entry p e w) q" if "look (set_entry p e w) (q @ [n]) \<noteq> None" for q n
    using that assms dirs by (cases "q @ [n] = p") (auto simp: wf_world_def)
  moreover have "entry_ok e'" if "look (set_entry p e w) q = Some e'" for q e'
    using that assms(1,6) by (auto simp: wf_world_def split: if_splits)
  ultimately show ?thesis using assms(1) dirs by (simp add: wf_world_def)
qed

lemma wf_put:
  assumes "wf_world w" and "p \<noteq> []" and "is_dir w (butlast p)" and "name_ok (last p)"
    and "is_dir w p \<Longrightarrow> \<exists>m. e = EDir m" and "entry_ok e"
  shows "wf_world (put p e w)"
  using wf_set_entry [OF assms] by (simp add: put_def)

lemma wf_set_perm:
  assumes "wf_world w" and "look w p = Some e"
  shows "wf_world (set_entry p (set_perm m e) w)"
proof (cases "p = []")
  case True
  then obtain m' where "e = EDir m'" using wf_root [OF assms(1)] assms(2) by (auto simp: is_dir_iff)
  then have "is_dir (set_entry p (set_perm m e) w) q = is_dir w q" for q using True assms(2) by (auto simp: is_dir_iff)
  moreover have "distinct (map fst (w_fs (set_entry p (set_perm m e) w)))"
    using assms(1) by (simp add: wf_world_def set_entry_def distinct_update)
  ultimately show ?thesis using assms(1) True \<open>e = EDir m'\<close> by (auto simp: wf_world_def entry_ok_def)
next
  case False
  have "entry_ok (set_perm m e)" using wf_entry [OF assms] by (cases e) (simp_all add: entry_ok_def)
  then show ?thesis
    using False wf_parent [OF assms(1), of p] assms by (intro wf_set_entry) (auto simp: is_dir_iff)
qed

lemma wf_remove_tree: "wf_world w \<Longrightarrow> p \<noteq> [] \<Longrightarrow> wf_world (remove_tree p w)"
proof -
  assume w: "wf_world w" and p: "p \<noteq> []"
  have "distinct (map fst (w_fs (remove_tree p w)))"
    using w by (auto simp: wf_world_def remove_tree_def touch_def distinct_map_filter)
  moreover have "is_dir (remove_tree p w) []" using w p by (simp add: wf_world_def is_dir_iff)
  moreover have "name_ok n \<and> is_dir (remove_tree p w) q" if "look (remove_tree p w) (q @ [n]) \<noteq> None" for q n
    using that w by (auto simp: wf_world_def is_dir_iff split: if_splits)
  moreover have "entry_ok e" if "look (remove_tree p w) q = Some e" for q e
    using that w by (auto simp: wf_world_def split: if_splits)
  ultimately show ?thesis by (simp add: wf_world_def)
qed

lemma wf_link: "wf_world w \<Longrightarrow> look w p = Some (ELink t) \<Longrightarrow> t \<noteq> [] \<and> CHR 0x00 \<notin> set t"
  using wf_entry [of w p "ELink t"] by (simp add: entry_ok_def)

section \<open>Resolving physical paths\<close>

text \<open>An absolute path by its components, and the paths whose parents are directories.\<close>

abbreviation abs_path :: "string list \<Rightarrow> string" where
  "abs_path p \<equiv> path_string True p"

definition reach :: "world \<Rightarrow> string list \<Rightarrow> bool" where
  "reach w p \<longleftrightarrow> list_all name_ok p \<and> (p = [] \<or> is_dir w (butlast p))"

lemma name_ok_elem: "name_ok n \<Longrightarrow> elem_ok n \<and> n \<noteq> ''..'' \<and> plain_elem n"
  by (auto simp: name_ok_def plain_elem_def)

lemma name_ok_elems: "list_all name_ok p \<Longrightarrow> list_all elem_ok p \<and> ''..'' \<notin> set p"
  by (auto simp: list_all_iff dest: name_ok_elem)

lemma wf_names: "wf_world w \<Longrightarrow> look w p \<noteq> None \<Longrightarrow> list_all name_ok p"
proof (induction p rule: rev_induct)
  case (snoc n p)
  then show ?case using wf_parent [of w "p @ [n]"] wf_ancestors [of w p "[n]"] by simp
qed simp

lemma wf_reach: "wf_world w \<Longrightarrow> look w p \<noteq> None \<Longrightarrow> reach w p"
  using wf_names [of w p] wf_parent [of w p] by (auto simp: reach_def)

lemma reach_child: "wf_world w \<Longrightarrow> is_dir w p \<Longrightarrow> name_ok n \<Longrightarrow> reach w (p @ [n])"
  using wf_names [of w p] by (auto simp: reach_def is_dir_iff)

lemma namei_dirs:
  assumes "wf_world w" and "is_dir w (cur @ es)" and "''..'' \<notin> set es"
  shows "namei (w_fs w) follow n cur (es @ fs) = namei (w_fs w) follow n (cur @ es) fs"
  using assms(2,3)
proof (induction es arbitrary: cur)
  case (Cons e es)
  have dir: "is_dir w (cur @ [e])"
  proof (cases es)
    case (Cons e' es')
    then show ?thesis
      using wf_strict_ancestors [OF assms(1), of "cur @ [e]" e' es'] Cons.prems(1) by (auto simp: is_dir_iff)
  qed (use Cons.prems in simp)
  then obtain m m' where "look w cur = Some (EDir m)" "look w (cur @ [e]) = Some (EDir m')"
    using wf_parent [OF assms(1), of "cur @ [e]"] by (auto simp: is_dir_iff)
  moreover have "e \<noteq> ''..''" using Cons.prems by auto
  ultimately show ?case using Cons.IH [of "cur @ [e]"] Cons.prems by (simp add: look_def namei.simps)
qed simp

lemma namei_last:
  assumes "is_dir w p" and "e \<noteq> ''..''" and "\<not> follow \<or> (\<forall>t. look w (p @ [e]) \<noteq> Some (ELink t))"
  shows "namei (w_fs w) follow n p [e] =
    (case look w (p @ [e]) of None \<Rightarrow> Missing (p @ [e]) | Some x \<Rightarrow> Found (p @ [e]) x)"
proof -
  obtain m where "map_of (w_fs w) p = Some (EDir m)" using assms(1) by (auto simp: is_dir_iff look_def)
  then show ?thesis using assms(2,3) by (auto simp: look_def namei.simps split: option.splits entry.splits)
qed

lemma set_abs_path: "set (path_string r es) \<subseteq> {CHR ''/'', CHR ''.''} \<union> \<Union> (set ` set es)"
  using set_join_with [of "CHR ''/''" es] by (auto simp: path_string_def)

lemma resolve_elems:
  assumes "wf_world w" and "reach w p" and "IsAbs s" and "path_elems s = p" and "CHR 0x00 \<notin> set s"
    and "\<not> follow \<or> (\<forall>t. look w p \<noteq> Some (ELink t))"
  shows "resolve follow s w = (case look w p of None \<Rightarrow> Missing p | Some e \<Rightarrow> Found p e)"
proof -
  have s: "s \<noteq> []" using assms(3) by (auto simp: IsAbs_def)
  show ?thesis
  proof (cases p rule: rev_cases)
    case Nil
    then show ?thesis using s assms wf_root [OF assms(1)] by (auto simp: resolve_def look_def is_dir_iff namei.simps)
  next
    case (snoc q n)
    then have q: "is_dir w ([] @ q)" "''..'' \<notin> set q" "n \<noteq> ''..''"
      using assms(2) name_ok_elems [of p] by (auto simp: reach_def)
    have "namei (w_fs w) follow max_symlinks [] (q @ [n]) = namei (w_fs w) follow max_symlinks q [n]"
      using namei_dirs [OF assms(1) q(1,2)] by simp
    then show ?thesis
      using namei_last [of w q n follow max_symlinks] q assms(3-6) s unfolding snoc by (simp add: resolve_def)
  qed
qed

lemma no_nul_abs_path: "list_all name_ok p \<Longrightarrow> CHR 0x00 \<notin> set (abs_path p)"
  using set_abs_path [of True p] by (auto simp: list_all_iff name_ok_def)

lemma resolve_abs:
  assumes "wf_world w" and "reach w p" and "\<not> follow \<or> (\<forall>t. look w p \<noteq> Some (ELink t))"
  shows "resolve follow (abs_path p) w = (case look w p of None \<Rightarrow> Missing p | Some e \<Rightarrow> Found p e)"
proof -
  have "list_all name_ok p" using assms(2) by (simp add: reach_def)
  then show ?thesis
    using resolve_elems [OF assms(1,2) _ _ _ assms(3), of "abs_path p"] no_nul_abs_path [of p]
      name_ok_elems [of p] by simp
qed

lemma name_ok_no_slash: "name_ok n \<Longrightarrow> CHR ''/'' \<notin> set n"
  by (simp add: name_ok_def plain_elem_def elem_ok_def)

lemma Join_abs: "list_all name_ok (p @ [n]) \<Longrightarrow> Join (abs_path p) n = abs_path (p @ [n])"
proof -
  assume p: "list_all name_ok (p @ [n])"
  then have ok: "list_all elem_ok p" "''..'' \<notin> set p" "plain_elem n"
    using name_ok_elems [of p] name_ok_elem [of n] by auto
  then have "clean_comps (abs_path p) = p" by (simp add: clean_comps_path_string dots_first_plain)
  then show ?thesis using Join_name [of "abs_path p" n] ok path_string_not_Nil [OF ok(1)] by simp
qed

lemma clean_comps_abs: "list_all name_ok p \<Longrightarrow> clean_comps (abs_path p) = p \<and> IsAbs (abs_path p)"
  using name_ok_elems [of p] by (simp add: clean_comps_path_string dots_first_plain)

lemma Clean_abs: "list_all name_ok p \<Longrightarrow> Clean (abs_path p) = abs_path p"
  using clean_comps_abs [of p] by (simp add: Clean_def)

lemma Clean_abs_path: "IsAbs s \<Longrightarrow> Clean s = abs_path (clean_comps s)"
  by (simp add: Clean_def)

section \<open>Operations at physical paths\<close>

lemma Lstat_abs:
  "wf_world w \<Longrightarrow> reach w p \<Longrightarrow> Lstat (abs_path p) w =
     (case look w p of None \<Rightarrow> Inl (path_error ''lstat'' (abs_path p) ENOENT) | Some e \<Rightarrow> Inr e)"
  by (simp add: Lstat_def resolve_abs split: option.splits)

lemma Info_abs:
  "wf_world w \<Longrightarrow> look w p = Some e \<Longrightarrow> Info (abs_path p) w = Inr (size_at w p e, w_mtime w p, e)"
  by (simp add: Info_def resolve_abs wf_reach)

lemma Readlink_abs: "wf_world w \<Longrightarrow> look w p = Some (ELink t) \<Longrightarrow> Readlink (abs_path p) w = Inr t"
  by (simp add: Readlink_def resolve_abs wf_reach)

lemma Open_abs: "wf_world w \<Longrightarrow> look w p = Some (EFile c m) \<Longrightarrow> Open (abs_path p) w = Inr (EFile c m)"
  by (simp add: Open_def resolve_abs wf_reach)

lemma ReadDir_abs: "wf_world w \<Longrightarrow> is_dir w p \<Longrightarrow> ReadDir (abs_path p) w = Inr (dir_list (w_fs w) p)"
  by (auto simp: ReadDir_def resolve_abs wf_reach is_dir_iff)

lemma Mkdir_abs:
  "wf_world w \<Longrightarrow> reach w p \<Longrightarrow> look w p = None \<Longrightarrow>
     Mkdir (abs_path p) m w = (Inr (), put p (EDir (and m (not (w_umask w)))) w)"
  by (simp add: Mkdir_def resolve_abs)

lemma CreateExcl_abs:
  "wf_world w \<Longrightarrow> reach w p \<Longrightarrow> look w p = None \<Longrightarrow>
     CreateExcl (abs_path p) m c w = (Inr (), put p (EFile c (and m (not (w_umask w)))) w)"
  by (simp add: CreateExcl_def resolve_abs)

lemma Symlink_abs:
  "wf_world w \<Longrightarrow> reach w p \<Longrightarrow> look w p = None \<Longrightarrow> t \<noteq> [] \<Longrightarrow> CHR 0x00 \<notin> set t \<Longrightarrow>
     Symlink t (abs_path p) w = (Inr (), put p (ELink t) w)"
  by (simp add: Symlink_def resolve_abs)

lemma abs_path_snoc:
  assumes "list_all elem_ok p"
  obtains q where "abs_path (p @ [n]) = q @ CHR ''/'' # n" and "path_elems q = p" and "q = [] \<or> IsAbs q"
proof (cases "p = []")
  case True
  then show ?thesis using that [of "[]"] by (simp add: path_string_def)
next
  case False
  then show ?thesis using that [of "abs_path p"] assms by (simp add: path_string_snoc)
qed

lemma path_elems_parent:
  assumes "list_all name_ok (p @ [n])"
  shows "path_elems (parent_part (abs_path (p @ [n]))) = p \<and> IsAbs (parent_part (abs_path (p @ [n])))
    \<and> set (parent_part (abs_path (p @ [n]))) \<subseteq> set (abs_path (p @ [n]))"
proof -
  have n: "n \<noteq> []" "CHR ''/'' \<notin> set n" and p: "list_all elem_ok p"
    using assms name_ok_elems [of "p @ [n]"] by (auto simp: elem_ok_def)
  obtain q where q: "abs_path (p @ [n]) = q @ CHR ''/'' # n" "path_elems q = p" "q = [] \<or> IsAbs q"
    using abs_path_snoc [OF p] by blast
  have d1: "dropWhile (\<lambda>c. c = CHR ''/'') (rev n @ CHR ''/'' # rev q) = rev n @ CHR ''/'' # rev q"
    using n by (cases n rule: rev_cases) auto
  have d2: "dropWhile (\<lambda>c. c \<noteq> CHR ''/'') (rev n @ CHR ''/'' # rev q) = CHR ''/'' # rev q"
    using n(2) by (simp add: dropWhile_append)
  have "parent_part (abs_path (p @ [n])) = q @ ''/''" unfolding parent_part_def q(1) by (simp add: d1 d2)
  then show ?thesis using q path_elems_trailing [of q] by (auto simp: IsAbs_def)
qed

lemma MkdirAll_dir: "Stat path w = Inr (EDir m') \<Longrightarrow> MkdirAll path m w = (Inr (), w)"
  by (simp add: MkdirAll.simps)

lemma MkdirAll_is_dir:
  assumes "wf_world w" and "is_dir w p"
  shows "MkdirAll (abs_path p) m w = (Inr (), w)"
proof -
  obtain m' where "look w p = Some (EDir m')" using assms(2) by (auto simp: is_dir_iff)
  then have "Stat (abs_path p) w = Inr (EDir m')"
    using assms(1) wf_reach [OF assms(1), of p] by (simp add: Stat_def resolve_abs)
  then show ?thesis by (rule MkdirAll_dir)
qed

lemma MkdirAll_new:
  assumes "wf_world w" and "list_all name_ok p" and "p \<noteq> []" and "is_dir w (butlast p)" and "look w p = None"
  shows "MkdirAll (abs_path p) m w = (Inr (), put p (EDir (and m (not (w_umask w)))) w)"
proof -
  obtain q n where p: "p = q @ [n]" using assms(3) by (cases p rule: rev_cases) auto
  have r: "reach w p" "reach w q" using assms wf_reach [of w q] by (auto simp: reach_def p is_dir_iff)
  obtain m' where q: "look w q = Some (EDir m')" using assms(4) by (auto simp: p is_dir_iff)
  let ?pp = "parent_part (abs_path p)"
  have pp: "path_elems ?pp = q" "IsAbs ?pp" "set ?pp \<subseteq> set (abs_path p)"
    using path_elems_parent [of q n] assms(2) by (simp_all add: p)
  have "resolve True ?pp w = Found q (EDir m')"
    using resolve_elems [OF assms(1) r(2) pp(2,1)] pp(3) no_nul_abs_path [OF assms(2)] q by auto
  then have up: "MkdirAll ?pp m w = (Inr (), w)" by (intro MkdirAll_dir) (simp add: Stat_def)
  have "\<exists>e. Stat (abs_path p) w = Inl e" using assms r by (simp add: Stat_def resolve_abs)
  moreover have "abs_path p \<noteq> []" "?pp \<noteq> []" using pp(2) by (auto simp: path_string_def IsAbs_def)
  ultimately show ?thesis
    using up Mkdir_abs [OF assms(1) r(1) assms(5), of m] by (auto simp: MkdirAll.simps [of "abs_path p"])
qed

text \<open>\<^verbatim>\<open>RemoveAll\<close> at a physical path leaves nothing there, and nothing else changes.\<close>

lemma abs_path_no_dot: "list_all name_ok p \<Longrightarrow> p \<noteq> [] \<Longrightarrow> abs_path p \<noteq> ''.'' \<and> \<not> HasSuffix (abs_path p) ''/.''"
proof -
  assume p: "list_all name_ok p" "p \<noteq> []"
  then obtain q n where pq: "p = q @ [n]" by (cases p rule: rev_cases) auto
  then have n: "elem_ok n" using p name_ok_elem by auto
  have "False" if suf: "HasSuffix (abs_path p) ''/.''"
  proof -
    obtain a where "abs_path p = a @ ''/.''" using suf unfolding suffix_def by auto
    then have a: "abs_path p = a @ CHR ''/'' # ''.''" by simp
    obtain b where "abs_path p = b @ CHR ''/'' # n"
      using abs_path_snoc [of q n] p(1) name_ok_elems [of p] unfolding pq by auto
    then have "split_on CHR ''/'' a @ [''.''] = split_on CHR ''/'' b @ [n]"
      using a split_on_append [of "CHR ''/''" a "''.''"] split_on_append [of "CHR ''/''" b n] n
      by (simp add: elem_ok_def)
    then show False using n by (simp add: elem_ok_def)
  qed
  then show ?thesis by (auto simp: path_string_def)
qed

lemma RemoveAll_abs:
  assumes "wf_world w" and "reach w p" and "p \<noteq> []"
  obtains w' where "RemoveAll (abs_path p) w = (Inr (), w')" and "wf_world w'" and "w_umask w' = w_umask w"
    and "w_cwd w' = w_cwd w" and "\<And>q. look w' q = (if prefix p q then None else look w q)"
    and "w_dir_size w' = w_dir_size w" and "w_clock w' = w_clock w"
    and "\<And>q. q \<noteq> p \<Longrightarrow> q \<noteq> butlast p \<Longrightarrow> w_mtime w' q = w_mtime w q" and "w_ticks w \<le> w_ticks w'"
proof (cases "look w p")
  case None
  then have "resolve False (abs_path p) w = Missing p" using assms by (simp add: resolve_abs)
  then have "RemoveAll (abs_path p) w = (Inr (), w)"
    using assms abs_path_no_dot [of p] by (simp add: RemoveAll_def reach_def)
  moreover have "look w q = None" if "prefix p q" for q
    using that wf_ancestors [OF assms(1), of p] None unfolding prefix_def by blast
  ultimately show ?thesis using that assms(1) by simp
next
  case (Some e)
  then have "resolve False (abs_path p) w = Found p e" using assms by (simp add: resolve_abs)
  moreover have "abs_path p \<noteq> []" by (simp add: path_string_def)
  ultimately have "RemoveAll (abs_path p) w = (Inr (), remove_tree p w)"
    using assms abs_path_no_dot [of p] by (simp add: RemoveAll_def reach_def)
  moreover have "w_ticks w \<le> w_ticks (remove_tree p w)" by (simp add: remove_tree_def touch_def)
  ultimately show ?thesis using that wf_remove_tree [OF assms(1,3)] by (simp add: mtime_remove_tree)
qed

section \<open>Resolution through links\<close>

text \<open>A path that is found is still found when entries are added, and a name below a directory that is found is looked up in that directory,
  however many links lead there.\<close>

lemma namei_more:
  "namei fs follow k cur es = Found q ent \<Longrightarrow> map_of fs \<subseteq>\<^sub>m map_of fs' \<Longrightarrow> namei fs' follow k cur es = Found q ent"
proof (induction fs follow k cur es rule: namei.induct)
  case (1 fs follow n cur)
  then show ?case by (auto simp: namei.simps map_le_def dom_def split: option.splits)
next
  case (2 fs follow n cur e es)
  have more: "map_of fs x = Some y \<Longrightarrow> map_of fs' x = Some y" for x y using "2.prems"(2) by (metis domI map_le_def)
  from "2.prems"(1) obtain m where m: "map_of fs cur = Some (EDir m)"
    by (auto simp: namei.simps split: option.splits entry.splits)
  show ?case
  proof (cases "e = ''..''")
    case True
    then show ?thesis using 2 m more [OF m] by (simp add: namei.simps)
  next
    case False
    then obtain x where x: "map_of fs (cur @ [e]) = Some x"
      using "2.prems"(1) m by (auto simp: namei.simps split: option.splits if_splits)
    show ?thesis
    proof (cases x)
      case (ELink t)
      note link = x [unfolded ELink]
      show ?thesis
      proof (cases "es = [] \<and> \<not> follow")
        case True
        then show ?thesis using "2.prems"(1) False m link more [OF m] more [OF link] by (auto simp: namei.simps)
      next
        case go: False
        then have n: "n \<noteq> 0" and run: "namei fs follow (n - 1) (if IsAbs t then [] else cur) (path_elems t @ es) = Found q ent"
          using "2.prems"(1) m link False by (auto simp: namei.simps split: if_splits)
        from "2.IH"(4) [OF m refl False link refl go n run "2.prems"(2)] show ?thesis
          using go n False more [OF m] more [OF link] by (auto simp: namei.simps)
      qed
    qed (use 2 False m x more [OF m] more [OF x] in \<open>auto simp: namei.simps\<close>)
  qed
qed

lemma namei_below:
  "namei fs True k cur es = Found q (EDir m) \<Longrightarrow> n \<noteq> ''..'' \<Longrightarrow> (\<forall>t. map_of fs (q @ [n]) \<noteq> Some (ELink t)) \<Longrightarrow>
     namei fs True k cur (es @ [n]) = (case map_of fs (q @ [n]) of None \<Rightarrow> Missing (q @ [n]) | Some e \<Rightarrow> Found (q @ [n]) e)"
proof (induction fs "True" k cur es rule: namei.induct)
  case (1 fs k cur)
  then show ?case by (auto simp: namei.simps split: option.splits entry.splits)
next
  case (2 fs k cur e es)
  from "2.prems"(1) obtain m' where m: "map_of fs cur = Some (EDir m')"
    by (auto simp: namei.simps split: option.splits entry.splits)
  show ?case
  proof (cases "e = ''..''")
    case True
    then show ?thesis using 2 m by (simp add: namei.simps)
  next
    case False
    then obtain x where x: "map_of fs (cur @ [e]) = Some x"
      using "2.prems"(1) m by (auto simp: namei.simps split: option.splits if_splits)
    show ?thesis
    proof (cases x)
      case (ELink t)
      note link = x [unfolded ELink]
      have k: "k \<noteq> 0" and run: "namei fs True (k - 1) (if IsAbs t then [] else cur) (path_elems t @ es) = Found q (EDir m)"
        using "2.prems"(1) m link False by (auto simp: namei.simps split: if_splits)
      have go: "\<not> (es = [] \<and> \<not> True)" by simp
      from "2.hyps"(4) [OF m refl False link refl go k run "2.prems"(2,3)] show ?thesis
        using k False m link by (simp add: namei.simps)
    qed (use 2 False m x in \<open>auto simp: namei.simps\<close>)
  qed
qed

lemma namei_look: "namei fs follow k cur es = Found q ent \<Longrightarrow> map_of fs q = Some ent"
  by (induction fs follow k cur es rule: namei.induct) (auto simp: namei.simps split: option.splits entry.splits if_splits)

lemma resolve_look: "resolve follow s w = Found q ent \<Longrightarrow> look w q = Some ent"
  by (auto simp: resolve_def look_def dest: namei_look split: if_splits)

lemma resolve_more:
  "resolve follow s w = Found q ent \<Longrightarrow> map_of (w_fs w) \<subseteq>\<^sub>m map_of (w_fs w') \<Longrightarrow> w_cwd w' = w_cwd w \<Longrightarrow> resolve follow s w' = Found q ent"
  using namei_more [of "w_fs w" follow max_symlinks _ _ q ent "w_fs w'"] by (auto simp: resolve_def split: if_splits)

lemma resolve_below:
  assumes "resolve True (abs_path p) w = Found q (EDir m)" and "list_all name_ok (p @ [n])" and "\<forall>t. look w (q @ [n]) \<noteq> Some (ELink t)"
  shows "resolve True (abs_path (p @ [n])) w = (case look w (q @ [n]) of None \<Rightarrow> Missing (q @ [n]) | Some e \<Rightarrow> Found (q @ [n]) e)"
proof -
  have names: "list_all elem_ok (p @ [n])" "''..'' \<notin> set (p @ [n])" using name_ok_elems [OF assms(2)] by blast+
  have abs: "IsAbs (abs_path x) \<and> path_elems (abs_path x) = x \<and> abs_path x \<noteq> [] \<and> CHR 0x00 \<notin> set (abs_path x)" if "list_all name_ok x" for x
    using that no_nul_abs_path [OF that] name_ok_elems [OF that] clean_comps_abs [OF that] path_string_not_Nil [of x True]
    by (simp add: path_elems_path_string)
  have "namei (w_fs w) True max_symlinks [] p = Found q (EDir m)"
    using assms(1) abs [of p] assms(2) by (simp add: resolve_def)
  moreover have "n \<noteq> ''..''" using names(2) by auto
  ultimately show ?thesis
    using namei_below [of "w_fs w" max_symlinks "[]" p q m n] assms(3) abs [OF assms(2)] by (simp add: resolve_def look_def)
qed

end
