(* ===== verification/FsWalk.thy ===== *)
theory FsWalk
  imports FsFacts
begin

text \<open>
  The rule for \<^verbatim>\<open>filepath.WalkDir\<close> on the live file system. The locale \<open>walker\<close> is the contract of a
  callback: an invariant over the set of paths visited so far that every visit extends, and that keeps the
  kinds of the entries below the root. Its theorem is that the walk visits every path below the root
  once, parents first, and nothing below a directory the callback skips.
\<close>

section \<open>Directory listings\<close>

lemma set_names: "set (names fs p) = {n. p @ [n] \<in> fst ` set fs}"
proof -
  have "n \<in> (last \<circ> fst) ` {x \<in> set fs. (case x of (q, _) \<Rightarrow> q \<noteq> [] \<and> butlast q = p)} \<longleftrightarrow> p @ [n] \<in> fst ` set fs" for n
  proof
    assume "n \<in> (last \<circ> fst) ` {x \<in> set fs. (case x of (q, _) \<Rightarrow> q \<noteq> [] \<and> butlast q = p)}"
    then obtain q e where "(q, e) \<in> set fs" "q \<noteq> []" "butlast q = p" "last q = n" by auto
    then show "p @ [n] \<in> fst ` set fs" by force
  next
    assume "p @ [n] \<in> fst ` set fs"
    then obtain e where "(p @ [n], e) \<in> set fs" by auto
    then show "n \<in> (last \<circ> fst) ` {x \<in> set fs. (case x of (q, _) \<Rightarrow> q \<noteq> [] \<and> butlast q = p)}"
      by (intro image_eqI [of _ _ "(p @ [n], e)"]) auto
  qed
  then show ?thesis by (auto simp: names_def)
qed

lemma distinct_names:
  assumes "distinct (map fst fs)"
  shows "distinct (names fs p)"
proof -
  let ?fs = "filter (\<lambda>(q, _). q \<noteq> [] \<and> butlast q = p) fs"
  have "inj_on (last \<circ> fst) (set ?fs)"
  proof (rule inj_onI)
    fix x y
    assume xy: "x \<in> set ?fs" "y \<in> set ?fs" "(last \<circ> fst) x = (last \<circ> fst) y"
    then have "fst x = fst y" by (auto simp: case_prod_beta) (metis append_butlast_last_id)
    then show "x = y" using xy assms by (auto simp: distinct_map inj_on_def)
  qed
  then have "distinct (map (last \<circ> fst) ?fs)"
    using assms by (simp add: distinct_map distinct_filter)
  then show ?thesis by (simp add: names_def)
qed

definition shape_of :: "world \<Rightarrow> string list \<Rightarrow> kind option" where
  "shape_of w p = map_option kind_of (look w p)"

lemma look_key: "look w p \<noteq> None \<longleftrightarrow> p \<in> fst ` set (w_fs w)"
  by (simp add: look_def map_of_eq_None_iff)

lemma dir_list_spec:
  assumes "wf_world w"
  shows "distinct (map fst (dir_list (w_fs w) p))"
    and "set (dir_list (w_fs w) p) = {(n, k). shape_of w (p @ [n]) = Some k}"
proof -
  have "distinct (map fst (w_fs w))" using assms by (simp add: wf_world_def)
  then show "distinct (map fst (dir_list (w_fs w) p))"
    by (simp add: dir_list_def comp_def distinct_names)
  have "(n, k) \<in> set (dir_list (w_fs w) p) \<longleftrightarrow> shape_of w (p @ [n]) = Some k" for n k
  proof -
    have "(n, k) \<in> set (dir_list (w_fs w) p) \<longleftrightarrow>
        look w (p @ [n]) \<noteq> None \<and> k = (case look w (p @ [n]) of None \<Rightarrow> KSpecial | Some e \<Rightarrow> kind_of e)"
      unfolding look_key by (auto simp: dir_list_def set_names look_def)
    then show ?thesis by (auto simp: shape_of_def split: option.splits)
  qed
  then show "set (dir_list (w_fs w) p) = {(n, k). shape_of w (p @ [n]) = Some k}" by auto
qed

lemma wf_depth:
  assumes "wf_world w" and "look w p \<noteq> None"
  shows "length p < length (w_fs w)"
proof -
  have "set (prefixes p) \<subseteq> fst ` set (w_fs w)"
  proof
    fix q
    assume "q \<in> set (prefixes p)"
    then obtain r where "p = q @ r" by (auto simp: prefix_def)
    then show "q \<in> fst ` set (w_fs w)" using wf_ancestors [OF assms(1), of q r] assms(2) look_key by simp
  qed
  then have "card (set (prefixes p)) \<le> card (fst ` set (w_fs w))" by (intro card_mono) auto
  also have "\<dots> \<le> length (w_fs w)" by (metis card_length length_map list.set_map)
  finally show ?thesis by (simp add: distinct_card)
qed

lemma is_dir_shape: "is_dir w p \<longleftrightarrow> shape_of w p = Some KDir"
proof -
  have "kind_of e = KDir \<longleftrightarrow> (\<exists>m. e = EDir m)" for e by (cases e) auto
  then show ?thesis by (auto simp: is_dir_iff shape_of_def)
qed

section \<open>The contract of a callback\<close>

locale walker =
  fixes wd :: "'s \<Rightarrow> world"
    and f :: "'s callback"
    and root :: "string list"
    and shape :: "string list \<Rightarrow> kind option"
    and skips :: "string list \<Rightarrow> bool"
    and inv :: "string list set \<Rightarrow> 's \<Rightarrow> bool"
    and bad :: "string \<Rightarrow> 's \<Rightarrow> bool"
  assumes inv_wf: "inv X s \<Longrightarrow> wf_world (wd s)"
    and inv_shape: "inv X s \<Longrightarrow> prefix root p \<Longrightarrow> shape_of (wd s) p = shape p"
    and visit_ok: "inv X s \<Longrightarrow> prefix root p \<Longrightarrow> shape p = Some d \<Longrightarrow> p \<notin> X \<Longrightarrow> p = root \<or> butlast p \<in> X \<Longrightarrow>
          f (abs_path p) (Some d) None s = (WOk, s') \<Longrightarrow> \<not> skips p \<and> inv (insert p X) s'"
    and visit_skip: "inv X s \<Longrightarrow> prefix root p \<Longrightarrow> shape p = Some d \<Longrightarrow> p \<notin> X \<Longrightarrow> p = root \<or> butlast p \<in> X \<Longrightarrow>
          f (abs_path p) (Some d) None s = (WSkipDir, s') \<Longrightarrow> d = KDir \<and> skips p \<and> inv (insert p X) s'"
    and visit_err: "inv X s \<Longrightarrow> prefix root p \<Longrightarrow> shape p = Some d \<Longrightarrow> p \<notin> X \<Longrightarrow> p = root \<or> butlast p \<in> X \<Longrightarrow>
          f (abs_path p) (Some d) None s = (WErr e, s') \<Longrightarrow> bad e s'"
    and visit_fuel: "f (abs_path p) (Some d) None s \<noteq> (WFuel, s')"
begin

text \<open>What a walk from \<open>p\<close> visits.\<close>

definition visited :: "string list \<Rightarrow> string list set" where
  "visited p = {x. prefix p x \<and> shape x \<noteq> None \<and> (\<forall>y. prefix p y \<and> strict_prefix y x \<longrightarrow> \<not> skips y)}"

lemma visited_skip: "skips p \<Longrightarrow> shape p \<noteq> None \<Longrightarrow> visited p = {p}"
  by (auto simp: visited_def strict_prefix_def)

lemma prefix_child: "prefix p x \<Longrightarrow> x \<noteq> p \<Longrightarrow> \<exists>n. prefix (p @ [n]) x"
  unfolding prefix_def by (metis append_self_conv append_Cons append_Nil append_assoc neq_Nil_conv)

lemma inv_child:
  assumes "inv X s" and "prefix root p" and "prefix (p @ [n]) x" and "shape x \<noteq> None"
  shows "shape (p @ [n]) \<noteq> None" and "shape p = Some KDir"
proof -
  obtain q where q: "x = p @ n # q" using assms(3) by (auto simp: prefix_def)
  have "look (wd s) x \<noteq> None" using inv_shape [OF assms(1), of x] assms q by (auto simp: shape_of_def)
  then have "look (wd s) (p @ [n]) \<noteq> None" "is_dir (wd s) p"
    using wf_strict_ancestors [of "wd s" p n q] wf_ancestors [of "wd s" "p @ [n]" q] inv_wf [OF assms(1)] q by auto
  moreover have "shape (p @ [n]) = shape_of (wd s) (p @ [n])" "shape p = shape_of (wd s) p"
    using inv_shape [OF assms(1)] assms(2) by simp_all
  ultimately show "shape (p @ [n]) \<noteq> None" "shape p = Some KDir"
    by (simp_all add: is_dir_shape) (simp add: shape_of_def)
qed

lemma visited_leaf:
  assumes "inv X s" and "prefix root p" and "shape p = Some d" and "d \<noteq> KDir"
  shows "visited p = {p}"
proof -
  have "x = p" if "prefix p x" "shape x \<noteq> None" for x
    using prefix_child [OF that(1)] inv_child(2) [OF assms(1,2) _ that(2)] assms(3,4) by auto
  then show ?thesis using assms(3) by (auto simp: visited_def strict_prefix_def)
qed

lemma visited_dir:
  assumes "inv X s" and "prefix root p" and "shape p \<noteq> None" and "\<not> skips p"
  shows "visited p = insert p (\<Union>n \<in> {n. shape (p @ [n]) \<noteq> None}. visited (p @ [n]))"
proof -
  have "x \<in> visited p \<longleftrightarrow> x = p \<or> (\<exists>n. shape (p @ [n]) \<noteq> None \<and> x \<in> visited (p @ [n]))" for x
  proof (cases "x = p")
    case True
    then show ?thesis using assms(3) by (auto simp: visited_def strict_prefix_def)
  next
    case False
    have "x \<in> visited p \<longleftrightarrow> x \<in> visited (p @ [n])" if n: "prefix (p @ [n]) x" for n
    proof -
      have "prefix p y \<and> strict_prefix y x \<longleftrightarrow> y = p \<or> prefix (p @ [n]) y \<and> strict_prefix y x" for y
        using n False prefix_order.antisym
        by (auto simp: prefix_def strict_prefix_def append_eq_append_conv2 append_eq_Cons_conv Cons_eq_append_conv)
      then show ?thesis using n assms(4) unfolding visited_def by (auto dest: append_prefixD)
    qed
    moreover have "\<exists>n. prefix (p @ [n]) x \<and> shape (p @ [n]) \<noteq> None" if "x \<in> visited p"
      using that prefix_child [of p x] False inv_child(1) [OF assms(1,2)] by (auto simp: visited_def)
    moreover have "prefix (p @ [n]) x" if "x \<in> visited (p @ [n])" for n using that by (simp add: visited_def)
    ultimately show ?thesis using False by blast
  qed
  then show ?thesis by blast
qed

text \<open>The outcome of a walk: the invariant with all it visited, or the error of the visit that failed.\<close>

definition outcome :: "string list set \<Rightarrow> walk_result \<times> 's \<Rightarrow> bool" where
  "outcome X rs \<longleftrightarrow>
     (case fst rs of WOk \<Rightarrow> inv X (snd rs) | WErr e \<Rightarrow> bad e (snd rs) | WSkipDir \<Rightarrow> False | WFuel \<Rightarrow> False)"

lemma outcome_simps [simp]:
  "outcome X (WOk, s) = inv X s"
  "outcome X (WErr e, s) = bad e s"
  "outcome X (WSkipDir, s) = False"
  "outcome X (WFuel, s) = False"
  by (simp_all add: outcome_def)

lemma walk_list_outcome:
  assumes "\<And>n k X s. (n, k) \<in> set ds \<Longrightarrow> inv X s \<Longrightarrow> p \<in> X \<Longrightarrow> visited (p @ [n]) \<inter> X = {} \<Longrightarrow>
      outcome (X \<union> visited (p @ [n])) (visit n k s)"
    and "inv X s" and "p \<in> X" and "distinct (map fst ds)"
    and "\<And>n. n \<in> fst ` set ds \<Longrightarrow> visited (p @ [n]) \<inter> X = {}"
  shows "outcome (X \<union> (\<Union>n \<in> fst ` set ds. visited (p @ [n]))) (walk_list visit ds s)"
  using assms
proof (induction ds arbitrary: X s)
  case (Cons nk ds)
  obtain n k where nk: "nk = (n, k)" by (cases nk)
  have out: "outcome (X \<union> visited (p @ [n])) (visit n k s)" using Cons.prems nk by auto
  show ?case
  proof (cases "visit n k s")
    case (Pair r s')
    show ?thesis
    proof (cases r)
      case WOk
      then have inv': "inv (X \<union> visited (p @ [n])) s'" using out Pair by simp
      have "visited (p @ [m]) \<inter> (X \<union> visited (p @ [n])) = {}" if "m \<in> fst ` set ds" for m
      proof -
        have "m \<noteq> n" using that Cons.prems(4) nk by auto
        then have "visited (p @ [m]) \<inter> visited (p @ [n]) = {}" by (auto simp: visited_def prefix_def)
        then show ?thesis using Cons.prems(5) [of m] that by auto
      qed
      then have "outcome ((X \<union> visited (p @ [n])) \<union> (\<Union>n \<in> fst ` set ds. visited (p @ [n]))) (walk_list visit ds s')"
        using Cons.prems inv' by (intro Cons.IH) auto
      then show ?thesis using WOk Pair nk by (simp add: Un_assoc)
    qed (use out Pair nk in auto)
  qed
qed simp

theorem walk_outcome:
  assumes "inv X s" and "prefix root p" and "shape p = Some d" and "visited p \<inter> X = {}"
    and "p = root \<or> butlast p \<in> X"
    and "\<And>x. prefix p x \<Longrightarrow> shape x \<noteq> None \<Longrightarrow> length x < length p + n"
  shows "outcome (X \<union> visited p) (walk_dir wd f n (abs_path p) d s)"
  using assms
proof (induction n arbitrary: p d X s)
  case 0
  then show ?case by force
next
  case (Suc n)
  have p: "p \<in> visited p" using Suc.prems(3) by (auto simp: visited_def strict_prefix_def)
  then have fresh: "p \<notin> X" using Suc.prems(4) by auto
  note visit = visit_ok [OF Suc.prems(1-3) fresh Suc.prems(5)] visit_skip [OF Suc.prems(1-3) fresh Suc.prems(5)]
    visit_err [OF Suc.prems(1-3) fresh Suc.prems(5)]
  obtain r s1 where fr: "f (abs_path p) (Some d) None s = (r, s1)" by fastforce
  show ?case
  proof (cases r)
    case WOk
    then have inv1: "inv (insert p X) s1" and noskip: "\<not> skips p" using visit(1) fr by auto
    show ?thesis
    proof (cases "d = KDir")
      case False
      then show ?thesis using visited_leaf [OF inv1 Suc.prems(2,3)] inv1 WOk fr by simp
    next
      case True
      let ?ds = "dir_list (w_fs (wd s1)) p"
      have wf: "wf_world (wd s1)" using inv_wf [OF inv1] .
      have shape: "shape_of (wd s1) x = shape x" if "prefix p x" for x
        using inv_shape [OF inv1] Suc.prems(2) that by (metis prefix_order.trans)
      then have "is_dir (wd s1) p" using Suc.prems(3) True by (simp add: is_dir_shape)
      then have rd: "ReadDir (abs_path p) (wd s1) = Inr ?ds" by (rule ReadDir_abs [OF wf])
      have ds: "(m, k) \<in> set ?ds \<longleftrightarrow> shape (p @ [m]) = Some k" for m k
        using dir_list_spec(2) [OF wf, of p] shape [of "p @ [m]"] by simp
      have names: "fst ` set ?ds = {m. shape (p @ [m]) \<noteq> None}"
      proof -
        have "fst ` set ?ds = {m. \<exists>k. (m, k) \<in> set ?ds}" by force
        then show ?thesis by (simp add: ds)
      qed
      have step: "outcome (Y \<union> visited (p @ [m])) (walk_dir wd f n (Join (abs_path p) m) k t)"
        if "(m, k) \<in> set ?ds" "inv Y t" "p \<in> Y" "visited (p @ [m]) \<inter> Y = {}" for m k Y t
      proof -
        have k: "shape (p @ [m]) = Some k" using that(1) ds by simp
        then have "look (wd s1) (p @ [m]) \<noteq> None" using shape [of "p @ [m]"] by (auto simp: shape_of_def)
        then have "Join (abs_path p) m = abs_path (p @ [m])" using wf_names [OF wf] by (intro Join_abs) blast
        moreover have "outcome (Y \<union> visited (p @ [m])) (walk_dir wd f n (abs_path (p @ [m])) k t)"
        proof (rule Suc.IH [OF that(2) _ k that(4)])
          show "prefix root (p @ [m])" using Suc.prems(2) by simp
          show "p @ [m] = root \<or> butlast (p @ [m]) \<in> Y" using that(3) by simp
          show "length x < length (p @ [m]) + n" if "prefix (p @ [m]) x" "shape x \<noteq> None" for x
            using Suc.prems(6) [of x] that by (auto dest: append_prefixD)
        qed
        ultimately show ?thesis by simp
      qed
      have disj: "visited (p @ [m]) \<inter> insert p X = {}" if "m \<in> fst ` set ?ds" for m
      proof -
        have "visited (p @ [m]) \<subseteq> visited p"
          using visited_dir [OF inv1 Suc.prems(2) _ noskip] Suc.prems(3) that names by auto
        moreover have "p \<notin> visited (p @ [m])" by (simp add: visited_def)
        ultimately show ?thesis using Suc.prems(4) by blast
      qed
      have "outcome (insert p X \<union> (\<Union>m \<in> fst ` set ?ds. visited (p @ [m])))
          (walk_list (\<lambda>name. walk_dir wd f n (Join (abs_path p) name)) ?ds s1)"
        by (rule walk_list_outcome [OF step inv1 _ dir_list_spec(1) [OF wf] disj]) auto
      moreover have "insert p X \<union> (\<Union>m \<in> fst ` set ?ds. visited (p @ [m])) = X \<union> visited p"
        using visited_dir [OF inv1 Suc.prems(2) _ noskip] Suc.prems(3) names by auto
      ultimately show ?thesis using WOk fr True rd by simp
    qed
  next
    case WSkipDir
    then show ?thesis using visit(2) fr visited_skip [of p] Suc.prems(3) by auto
  next
    case (WErr e)
    then show ?thesis using visit(3) fr by simp
  next
    case WFuel
    then show ?thesis using visit_fuel fr by auto
  qed
qed

theorem WalkDir_outcome:
  assumes "inv {} s" and "look (wd s) root \<noteq> None"
  shows "outcome (visited root) (WalkDir wd f (abs_path root) s)"
proof -
  have wf: "wf_world (wd s)" using inv_wf [OF assms(1)] .
  obtain e where e: "look (wd s) root = Some e" using assms(2) by auto
  have shape: "shape_of (wd s) x = shape x" if "prefix root x" for x using inv_shape [OF assms(1) that] .
  have deep: "length x < length root + Suc (length (w_fs (wd s)))" if "prefix root x" "shape x \<noteq> None" for x
    using shape [OF that(1)] that(2) wf_depth [OF wf, of x] by (auto simp: shape_of_def)
  have "shape root = Some (kind_of e)" using shape [of root] e by (simp add: shape_of_def)
  then have "outcome ({} \<union> visited root) (walk_dir wd f (Suc (length (w_fs (wd s)))) (abs_path root) (kind_of e) s)"
    using deep by (intro walk_outcome [OF assms(1)]) auto
  moreover have "Lstat (abs_path root) (wd s) = Inr e" using Lstat_abs [OF wf wf_reach [OF wf assms(2)]] e by simp
  ultimately show ?thesis
    by (cases "walk_dir wd f (Suc (length (w_fs (wd s)))) (abs_path root) (kind_of e) s")
       (auto simp: WalkDir_def outcome_def split: walk_result.splits)
qed

end

end
