(* ===== verification/CopyTree.thy ===== *)
theory CopyTree
  imports MatPaths FsWalk
begin

text \<open>
  \<^verbatim>\<open>CopyContentTree\<close> and \<^verbatim>\<open>copyRegularFile\<close> of \<^verbatim>\<open>pkg/materializer/gitbinary.go\<close> and \<^verbatim>\<open>countFiles\<close> of
  \<^verbatim>\<open>fslimits.go\<close>, on the live file system. The copy is specified pointwise: what stands at every path
  after a copy that succeeds, and when it succeeds.
\<close>

section \<open>Definitions\<close>

definition to_walk :: "unit result \<times> 's \<Rightarrow> walk_result \<times> 's" where
  "to_walk rs = (case rs of (Inl e, s) \<Rightarrow> (WErr e, s) | (Inr _, s) \<Rightarrow> (WOk, s))"

text \<open>The bits \<^verbatim>\<open>0o555\<close>.\<close>

definition readonly_bits :: perm where "readonly_bits = 365"

definition copyRegularFile :: "string \<Rightarrow> string \<Rightarrow> string \<Rightarrow> perm \<Rightarrow> (world, unit) action" where
  "copyRegularFile src dstRoot rel mode =
     bindW (liftW (safeJoin dstRoot rel)) (\<lambda>dst.
     bindW (MkdirAll (Dir dst) publicDirPerm) (\<lambda>_.
     bindW (\<lambda>w. (Open src w, w)) (\<lambda>inp.
     bindW (CreateExcl dst (and mode readonly_bits)
              (case read_entry src inp of Inr c \<Rightarrow> c | Inl _ \<Rightarrow> [])) (\<lambda>_.
       liftW (case read_entry src inp of Inr _ \<Rightarrow> Inr () | Inl e \<Rightarrow> Inl e)))))"

fun entry_perm :: "entry \<Rightarrow> perm" where
  "entry_perm (EFile _ m) = m"
| "entry_perm (EDir m) = m"
| "entry_perm (ESpecial m) = m"
| "entry_perm (ELink _) = 511"

text \<open>The callback of the walk; \<open>src\<close> and \<open>dst\<close> are the cleaned arguments.\<close>

definition copy_visit :: "string \<Rightarrow> string \<Rightarrow> world callback" where
  "copy_visit src dst path d err w =
     (case err of
        Some e \<Rightarrow> (WErr e, w)
      | None \<Rightarrow>
          (case Rel src path of
             None \<Rightarrow> (WErr (rel_error src path), w)
           | Some rel0 \<Rightarrow>
               (let rel = Clean rel0 in
                if rel = ''.'' then to_walk (MkdirAll dst publicDirPerm w)
                else if \<not> IsLocal rel \<or> hasParentPathSegment rel
                then (WErr ''repository path escapes source root'', w)
                else if hasGitPathSegment rel then (if d = Some KDir then WSkipDir else WOk, w)
                else
                  (case safeJoin dst rel of
                     Inl e \<Rightarrow> (WErr e, w)
                   | Inr target \<Rightarrow>
                       (case Info path w of
                          Inl e \<Rightarrow> (WErr e, w)
                        | Inr (_, _, ELink _) \<Rightarrow>
                            (case Readlink path w of
                               Inl e \<Rightarrow> (WErr e, w)
                             | Inr linkTarget \<Rightarrow>
                                 (case validateSymlinkTarget src path linkTarget of
                                    Inl e \<Rightarrow> (WErr e, w)
                                  | Inr _ \<Rightarrow> to_walk (Symlink linkTarget target w)))
                        | Inr (_, _, info) \<Rightarrow>
                            if d = Some KDir then to_walk (MkdirAll target publicDirPerm w)
                            else if kind_of info \<noteq> KFile then (WOk, w)
                            else to_walk (copyRegularFile path dst rel (entry_perm info) w))))))"

definition CopyContentTree :: "string \<Rightarrow> string \<Rightarrow> (world, unit) action" where
  "CopyContentTree src dst w =
     walk_action (WalkDir id (copy_visit (Clean src) (Clean dst)) (Clean src) w)"

text \<open>The counts are the callback's own variables, kept beside the world.\<close>

definition count_visit :: "(world \<times> int \<times> int) callback" where
  "count_visit path d err s =
     (case err of
        Some e \<Rightarrow> (WErr e, s)
      | None \<Rightarrow>
          if d = Some KDir then (WOk, s)
          else
            (case Info path (fst s) of
               Inl e \<Rightarrow> (WErr e, s)
             | Inr (n, _, _) \<Rightarrow> (WOk, fst s, fst (snd s) + 1, snd (snd s) + n)))"

definition countFiles :: "string \<Rightarrow> (world, int \<times> int) action" where
  "countFiles root w =
     (case walk_action (WalkDir fst count_visit root (w, 0, 0)) of
        (Inl e, w', _) \<Rightarrow> (Inl e, w')
      | (Inr _, w', fc, sz) \<Rightarrow> (Inr (fc, sz), w'))"

section \<open>The specification of a copy\<close>

text \<open>What an entry becomes: content and links unchanged, files without write permission,
  directories with the public permissions, special files left out.\<close>

fun copied_entry :: "perm \<Rightarrow> entry \<Rightarrow> entry option" where
  "copied_entry um (EFile c m) = Some (EFile c (and (and m readonly_bits) (not um)))"
| "copied_entry um (EDir _) = Some (EDir (and publicDirPerm (not um)))"
| "copied_entry um (ELink t) = Some (ELink t)"
| "copied_entry um (ESpecial _) = None"

definition exported :: "world \<Rightarrow> string list \<Rightarrow> string list \<Rightarrow> entry option" where
  "exported w S q =
     (if ''.git'' \<in> set q then None else Option.bind (look w (S @ q)) (copied_entry (w_umask w)))"

definition link_ok :: "string list \<Rightarrow> string list \<Rightarrow> string \<Rightarrow> bool" where
  "link_ok S q t \<longleftrightarrow> validateSymlinkTarget (abs_path S) (abs_path (S @ q)) t = Inr ()"

definition links_ok :: "world \<Rightarrow> string list \<Rightarrow> bool" where
  "links_ok w S \<longleftrightarrow> (\<forall>q t. ''.git'' \<notin> set q \<and> look w (S @ q) = Some (ELink t) \<longrightarrow> link_ok S q t)"

text \<open>The source is a directory, the destination does not exist yet but its parent does, and neither
  contains the other.\<close>

definition copy_ready :: "world \<Rightarrow> string list \<Rightarrow> string list \<Rightarrow> bool" where
  "copy_ready w S D \<longleftrightarrow>
     wf_world w \<and> is_dir w S \<and> D \<noteq> [] \<and> list_all name_ok D \<and> ''..'' \<notin> set D \<and> is_dir w (butlast D)
     \<and> look w D = None \<and> \<not> prefix S D \<and> \<not> prefix D S"

definition copy_inv :: "world \<Rightarrow> string list \<Rightarrow> string list \<Rightarrow> string list set \<Rightarrow> world \<Rightarrow> bool" where
  "copy_inv w0 S D X w \<longleftrightarrow>
     copy_ready w0 S D \<and> wf_world w \<and> w_umask w = w_umask w0 \<and> w_cwd w = w_cwd w0
     \<and> (\<forall>x. look w x =
          (if prefix D x \<and> S @ drop (length D) x \<in> X then exported w0 S (drop (length D) x) else look w0 x))
     \<and> (\<forall>q t. S @ q \<in> X \<and> ''.git'' \<notin> set q \<and> look w0 (S @ q) = Some (ELink t) \<longrightarrow> link_ok S q t)"

definition copy_bad :: "world \<Rightarrow> string list \<Rightarrow> string list \<Rightarrow> string \<Rightarrow> world \<Rightarrow> bool" where
  "copy_bad w0 S D e w \<longleftrightarrow>
     \<not> links_ok w0 S \<and> wf_world w \<and> w_umask w = w_umask w0 \<and> (\<forall>x. \<not> prefix D x \<longrightarrow> look w x = look w0 x)"

definition copy_skips :: "world \<Rightarrow> string list \<Rightarrow> string list \<Rightarrow> bool" where
  "copy_skips w0 S p \<longleftrightarrow> ''.git'' \<in> set (drop (length S) p) \<and> shape_of w0 p = Some KDir"

section \<open>The contract of the copy\<close>

lemma bind_exported_root: "is_dir w S \<Longrightarrow> exported w S [] = Some (EDir (and publicDirPerm (not (w_umask w))))"
  by (auto simp: exported_def is_dir_iff)

lemma copy_inv_ready: "copy_inv w0 S D X w \<Longrightarrow> copy_ready w0 S D"
  by (simp add: copy_inv_def)

lemma copy_inv_source:
  assumes "copy_inv w0 S D X w"
  shows "look w (S @ q) = look w0 (S @ q)"
proof -
  have "\<not> prefix D (S @ q)"
    using copy_inv_ready [OF assms] prefix_same_cases [of D "S @ q" S] by (auto simp: copy_ready_def)
  then show ?thesis using assms by (simp add: copy_inv_def)
qed

lemma copy_inv_target:
  "copy_inv w0 S D X w \<Longrightarrow> look w (D @ q) = (if S @ q \<in> X then exported w0 S q else look w0 (D @ q))"
  by (simp add: copy_inv_def)

lemma copy_ready_nothing: "copy_ready w S D \<Longrightarrow> look w (D @ q) = None"
  using wf_ancestors [of w D q] unfolding copy_ready_def by blast

lemma copy_inv_parent:
  assumes inv: "copy_inv w0 S D X w" and q: "q \<noteq> []" "S @ butlast q \<in> X" "''.git'' \<notin> set q"
    and e: "look w0 (S @ q) \<noteq> None"
  shows "is_dir w (D @ butlast q)" and "reach w (D @ q)"
proof -
  have ready: "copy_ready w0 S D" by (rule copy_inv_ready [OF inv])
  then have wf: "wf_world w0" and D: "list_all name_ok D" by (simp_all add: copy_ready_def)
  have dir: "is_dir w0 (S @ butlast q)" using wf_parent [OF wf e] q(1) by (simp add: butlast_append)
  have "''.git'' \<notin> set (butlast q)" using q(3) by (auto dest: in_set_butlastD)
  then show d: "is_dir w (D @ butlast q)"
    using dir q(2) by (auto simp: is_dir_iff copy_inv_target [OF inv] exported_def)
  show "reach w (D @ q)"
    using d q(1) D wf_names [OF wf e] by (simp add: reach_def butlast_append)
qed

text \<open>Extending the invariant by an entry that is copied, and by one that is left out.\<close>

lemma copy_inv_put:
  assumes inv: "copy_inv w0 S D X w" and fresh: "S @ q \<notin> X"
    and w': "wf_world w'" "w_umask w' = w_umask w" "w_cwd w' = w_cwd w"
      "\<And>x. look w' x = (if x = D @ q then exported w0 S q else look w x)"
    and good: "\<And>t. ''.git'' \<notin> set q \<Longrightarrow> look w0 (S @ q) = Some (ELink t) \<Longrightarrow> link_ok S q t"
  shows "copy_inv w0 S D (insert (S @ q) X) w'"
proof -
  have "look w' x =
      (if prefix D x \<and> S @ drop (length D) x \<in> insert (S @ q) X then exported w0 S (drop (length D) x)
       else look w0 x)" for x
    using inv w'(4) [of x] by (auto simp: copy_inv_def prefix_def)
  then show ?thesis using inv w' good by (auto simp: copy_inv_def)
qed

lemma copy_inv_skip:
  assumes inv: "copy_inv w0 S D X w" and "S @ q \<notin> X" and "exported w0 S q = None"
    and "\<And>t. ''.git'' \<notin> set q \<Longrightarrow> look w0 (S @ q) = Some (ELink t) \<Longrightarrow> link_ok S q t"
  shows "copy_inv w0 S D (insert (S @ q) X) w"
proof (rule copy_inv_put [OF inv assms(2)])
  show "wf_world w" using inv by (simp add: copy_inv_def)
  show "look w x = (if x = D @ q then exported w0 S q else look w x)" for x
    using copy_inv_target [OF inv, of q] copy_ready_nothing [OF copy_inv_ready [OF inv], of q] assms(2,3) by simp
qed (use assms(4) in auto)

section \<open>One visit\<close>

text \<open>The relative path the callback computes and what the path checks say of it.\<close>

lemma copy_rel:
  assumes "list_all name_ok S" and "list_all name_ok q"
  shows "Rel (abs_path S) (abs_path (S @ q)) = Some (path_string False q)"
proof -
  have S: "clean_comps (abs_path S) = S" "IsAbs (abs_path S)" using clean_comps_abs [OF assms(1)] by auto
  have Sq: "clean_comps (abs_path (S @ q)) = S @ q" "IsAbs (abs_path (S @ q))"
    using clean_comps_abs [of "S @ q"] assms by auto
  then have "inside (abs_path S) (abs_path (S @ q))" using S by (simp add: inside_def)
  then show ?thesis using S Sq by (simp add: Rel_inside path_string_def)
qed

lemma copy_rel_facts:
  assumes "list_all name_ok q"
  shows "Clean (path_string False q) = path_string False q"
    and "path_string False q = ''.'' \<longleftrightarrow> q = []"
    and "q \<noteq> [] \<Longrightarrow> IsLocal (path_string False q)"
    and "\<not> hasParentPathSegment (path_string False q)"
    and "hasGitPathSegment (path_string False q) \<longleftrightarrow> ''.git'' \<in> set q"
    and "clean_comps (path_string False q) = q" and "\<not> IsAbs (path_string False q)"
proof -
  have ok: "list_all elem_ok q" "''..'' \<notin> set q" using name_ok_elems [OF assms] by auto
  show c: "clean_comps (path_string False q) = q" and a: "\<not> IsAbs (path_string False q)"
    using ok by (simp_all add: clean_comps_path_string dots_first_plain)
  show cl: "Clean (path_string False q) = path_string False q"
    using c a by (simp add: Clean_def)
  show "path_string False q = ''.'' \<longleftrightarrow> q = []" using Clean_dot_iff [of "path_string False q"] cl c a by simp
  show "IsLocal (path_string False q)" if "q \<noteq> []"
    using ok c a path_string_not_Nil [OF ok(1)] by (simp add: IsLocal_iff)
  show "\<not> hasParentPathSegment (path_string False q)" "hasGitPathSegment (path_string False q) \<longleftrightarrow> ''.git'' \<in> set q"
    using segments_Clean [of "path_string False q"] cl c ok by simp_all
qed

lemma copy_safeJoin:
  assumes "list_all name_ok D" and "list_all name_ok q" and "''.git'' \<notin> set q"
  shows "safeJoin (abs_path D) (path_string False q) = Inr (abs_path (D @ q))"
proof -
  have D: "clean_comps (abs_path D) = D" "IsAbs (abs_path D)" "''..'' \<notin> set D"
    using clean_comps_abs [OF assms(1)] name_ok_elems [OF assms(1)] by auto
  then have "safe_rel (path_string False q)"
    using copy_rel_facts [OF assms(2)] name_ok_elems [OF assms(2)] assms(3) by (simp add: safe_rel_def)
  then show ?thesis
    using safeJoin_spec [of "abs_path D" "path_string False q"] D copy_rel_facts [OF assms(2)]
    by (simp add: below_def path_string_def)
qed

lemma copy_regular:
  assumes inv: "copy_inv w0 S D X w" and q: "q \<noteq> []" "S @ butlast q \<in> X" "''.git'' \<notin> set q"
    and e: "look w0 (S @ q) = Some (EFile c m)" and fresh: "S @ q \<notin> X"
  shows "copyRegularFile (abs_path (S @ q)) (abs_path D) (path_string False q) m w
    = (Inr (), put (D @ q) (EFile c (and (and m readonly_bits) (not (w_umask w)))) w)"
proof -
  have ready: "copy_ready w0 S D" by (rule copy_inv_ready [OF inv])
  have wf: "wf_world w" "wf_world w0" "list_all name_ok D" using inv ready by (simp_all add: copy_inv_def copy_ready_def)
  have names: "list_all name_ok q" using wf_names [OF wf(2), of "S @ q"] e by simp
  have "look w0 (S @ q) \<noteq> None" using e by simp
  note par = copy_inv_parent [OF inv q this]
  have "look w (D @ q) = None" using copy_inv_target [OF inv] fresh copy_ready_nothing [OF ready] by simp
  moreover have "Open (abs_path (S @ q)) w = Inr (EFile c m)"
    using e copy_inv_source [OF inv] by (intro Open_abs [OF wf(1)]) simp
  moreover have "Dir (abs_path (D @ q)) = abs_path (D @ butlast q)"
  proof -
    obtain r n where r: "q = r @ [n]" using q(1) by (cases q rule: rev_cases) auto
    have "list_all elem_ok ((D @ r) @ [n])" "''..'' \<notin> set (D @ r)"
      using name_ok_elems [of "(D @ r) @ [n]"] names wf(3) by (auto simp: r)
    then show ?thesis using Dir_path_string [of "D @ r" n True] by (simp add: r dots_first_plain)
  qed
  ultimately show ?thesis
    using copy_safeJoin [OF wf(3) names q(3)] MkdirAll_is_dir [OF wf(1) par(1)] CreateExcl_abs [OF wf(1) par(2)]
    by (simp add: copyRegularFile_def bindW_def liftW_def)
qed

definition visit_result :: "world \<Rightarrow> string list \<Rightarrow> string list \<Rightarrow> string list \<Rightarrow> entry \<Rightarrow> world \<Rightarrow> walk_result \<times> world" where
  "visit_result w0 S D q e w =
     (if ''.git'' \<in> set q then (if kind_of e = KDir then WSkipDir else WOk, w)
      else
        (case e of
           ELink t \<Rightarrow>
             (case validateSymlinkTarget (abs_path S) (abs_path (S @ q)) t of
                Inl msg \<Rightarrow> (WErr msg, w)
              | Inr _ \<Rightarrow> (WOk, put (D @ q) e w))
         | ESpecial _ \<Rightarrow> (WOk, w)
         | _ \<Rightarrow> (WOk, put (D @ q) (the (copied_entry (w_umask w0) e)) w)))"

lemma copy_visit_eq:
  assumes inv: "copy_inv w0 S D X w" and e: "look w0 (S @ q) = Some e" and fresh: "S @ q \<notin> X"
    and par: "q = [] \<or> S @ butlast q \<in> X"
  shows "copy_visit (abs_path S) (abs_path D) (abs_path (S @ q)) (Some (kind_of e)) None w
    = visit_result w0 S D q e w"
proof -
  have ready: "copy_ready w0 S D" by (rule copy_inv_ready [OF inv])
  have wf: "wf_world w" "wf_world w0" "list_all name_ok D" and um: "w_umask w = w_umask w0"
    using inv ready by (simp_all add: copy_inv_def copy_ready_def)
  have names: "list_all name_ok S" "list_all name_ok q" using wf_names [OF wf(2), of "S @ q"] e by auto
  have here: "look w (S @ q) = Some e" using e copy_inv_source [OF inv] by simp
  have free: "look w (D @ q) = None" using copy_inv_target [OF inv] fresh copy_ready_nothing [OF ready] by simp
  note facts = copy_rel [OF names] copy_rel_facts [OF names(2)] Info_abs [OF wf(1) here]
  show ?thesis
  proof (cases "q = []")
    case True
    then obtain m where m: "e = EDir m" using ready e by (auto simp: copy_ready_def is_dir_iff)
    have "is_dir w (butlast D)" "D \<noteq> []"
    proof -
      have "S \<noteq> butlast D" using ready by (auto simp: copy_ready_def) (metis append_butlast_last_id prefixI)
      show "D \<noteq> []" using ready by (simp add: copy_ready_def)
      then have "\<not> prefix D (butlast D)" by (metis append_butlast_last_id not_Cons_self2 prefix_order.antisym prefixI append_self_conv)
      then show "is_dir w (butlast D)" using inv ready by (simp add: copy_inv_def copy_ready_def is_dir_iff)
    qed
    then have "MkdirAll (abs_path D) publicDirPerm w = (Inr (), put D (EDir (and publicDirPerm (not (w_umask w)))) w)"
      using MkdirAll_new [OF wf(1,3)] free True by simp
    then show ?thesis using True facts m um by (simp add: copy_visit_def visit_result_def to_walk_def)
  next
    case False
    show ?thesis
    proof (cases "''.git'' \<in> set q")
      case True
      then show ?thesis using False facts by (simp add: copy_visit_def visit_result_def Let_def)
    next
      case nogit: False
      have "look w0 (S @ q) \<noteq> None" using e by simp
      note parent = copy_inv_parent [OF inv False _ nogit this]
      have p: "S @ butlast q \<in> X" using par False by simp
      note common = copy_safeJoin [OF wf(3) names(2) nogit] facts False nogit
      show ?thesis
      proof (cases e)
        case (EFile c m)
        then show ?thesis
          using copy_regular [OF inv False p nogit _ fresh, of c m] e common um
          by (simp add: copy_visit_def visit_result_def to_walk_def)
      next
        case (EDir m)
        have "MkdirAll (abs_path (D @ q)) publicDirPerm w
            = (Inr (), put (D @ q) (EDir (and publicDirPerm (not (w_umask w)))) w)"
          using MkdirAll_new [OF wf(1), of "D @ q"] wf(3) names(2) parent(1) [OF p] free False
          by (simp add: butlast_append)
        then show ?thesis using EDir common um by (simp add: copy_visit_def visit_result_def to_walk_def)
      next
        case (ELink t)
        have t: "t \<noteq> []" "CHR 0x00 \<notin> set t" using wf_link [OF wf(1)] here ELink by auto
        have "Readlink (abs_path (S @ q)) w = Inr t" using Readlink_abs [OF wf(1)] here ELink by simp
        moreover have "Symlink t (abs_path (D @ q)) w = (Inr (), put (D @ q) (ELink t) w)"
          using Symlink_abs [OF wf(1) parent(2) [OF p] free t] .
        ultimately show ?thesis
          using ELink common by (auto simp: copy_visit_def visit_result_def to_walk_def split: sum.splits)
      next
        case (ESpecial m)
        then show ?thesis using common by (simp add: copy_visit_def visit_result_def)
      qed
    qed
  qed
qed

text \<open>What a visit does to the invariant.\<close>

lemma copy_inv_step:
  assumes inv: "copy_inv w0 S D X w" and e: "look w0 (S @ q) = Some e" and fresh: "S @ q \<notin> X"
    and par: "q = [] \<or> S @ butlast q \<in> X" and nogit: "''.git'' \<notin> set q"
    and good: "\<And>t. e = ELink t \<Longrightarrow> link_ok S q t" and c: "copied_entry (w_umask w0) e = Some e'"
  shows "copy_inv w0 S D (insert (S @ q) X) (put (D @ q) e' w)"
proof (rule copy_inv_put [OF inv fresh])
  have ready: "copy_ready w0 S D" by (rule copy_inv_ready [OF inv])
  have wf: "wf_world w" "wf_world w0" "list_all name_ok D" using inv ready by (simp_all add: copy_inv_def copy_ready_def)
  have names: "list_all name_ok (D @ q)" using wf_names [OF wf(2), of "S @ q"] e wf(3) by simp
  have D: "D \<noteq> []" using ready by (simp add: copy_ready_def)
  have dir: "is_dir w (butlast (D @ q))"
  proof (cases "q = []")
    case True
    have "\<not> prefix D (butlast D)" using D by (metis append_butlast_last_id not_Cons_self2 prefix_order.antisym prefixI append_self_conv)
    then show ?thesis using True inv ready by (simp add: copy_inv_def copy_ready_def is_dir_iff)
  next
    case False
    then show ?thesis using copy_inv_parent(1) [OF inv False _ nogit] par e by (simp add: butlast_append)
  qed
  have "look w (D @ q) = None" using copy_inv_target [OF inv] fresh copy_ready_nothing [OF ready] by simp
  moreover have "entry_ok e'"
    using c wf_link [OF wf(2), of "S @ q"] e by (cases e) (auto simp: entry_ok_def)
  moreover have "name_ok (last (D @ q))" using names D by (metis append_is_Nil_conv last_in_set list_all_iff)
  ultimately show "wf_world (put (D @ q) e' w)" using dir D by (intro wf_put [OF wf(1)]) (auto simp: is_dir_iff)
  show "look (put (D @ q) e' w) x = (if x = D @ q then exported w0 S q else look w x)" for x
    using c e nogit by (simp add: exported_def)
qed (use e good in auto)

lemma copy_visit_outcome:
  assumes inv: "copy_inv w0 S D X w" and p: "prefix S p" "shape_of w0 p = Some d" "p \<notin> X"
    "p = S \<or> butlast p \<in> X"
    and call: "copy_visit (abs_path S) (abs_path D) (abs_path p) (Some d) None w = (r, w')"
  shows "r = WOk \<and> \<not> copy_skips w0 S p \<and> copy_inv w0 S D (insert p X) w'
    \<or> r = WSkipDir \<and> d = KDir \<and> copy_skips w0 S p \<and> copy_inv w0 S D (insert p X) w'
    \<or> (\<exists>e. r = WErr e \<and> copy_bad w0 S D e w')"
proof -
  obtain q where q: "p = S @ q" using p(1) by (auto simp: prefix_def)
  obtain e where e: "look w0 (S @ q) = Some e" "d = kind_of e" using p(2) by (auto simp: shape_of_def q)
  have par: "q = [] \<or> S @ butlast q \<in> X" using p(4) by (cases "q = []") (auto simp: q butlast_append)
  have fresh: "S @ q \<notin> X" using p(3) q by simp
  have res: "visit_result w0 S D q e w = (r, w')"
    using copy_visit_eq [OF inv e(1) fresh par] call e(2) q by simp
  have skips: "copy_skips w0 S p \<longleftrightarrow> ''.git'' \<in> set q \<and> kind_of e = KDir"
    using e by (simp add: copy_skips_def shape_of_def q)
  show ?thesis
  proof (cases "''.git'' \<in> set q")
    case True
    then have "copy_inv w0 S D (insert (S @ q) X) w"
      by (intro copy_inv_skip [OF inv fresh]) (auto simp: exported_def)
    then show ?thesis using res True skips e(2) q by (auto simp: visit_result_def split: if_splits)
  next
    case False
    have special: "copy_inv w0 S D (insert (S @ q) X) w" if "e = ESpecial m" for m
      using that e(1) by (intro copy_inv_skip [OF inv fresh]) (auto simp: exported_def)
    have bad: "copy_bad w0 S D msg w" if "e = ELink t" "\<not> link_ok S q t" for t msg
      using that e(1) False inv by (auto simp: copy_bad_def links_ok_def copy_inv_def)
    note step = copy_inv_step [OF inv e(1) fresh par False]
    show ?thesis
      using res False skips q step special bad
      by (cases e) (auto simp: visit_result_def link_ok_def split: sum.splits)
  qed
qed

lemma to_walk_no_fuel [simp]: "to_walk rs \<noteq> (WFuel, s)"
  by (auto simp: to_walk_def split: sum.splits prod.splits)

lemma copy_visit_no_fuel: "copy_visit src dst path d err w \<noteq> (WFuel, w')"
  unfolding copy_visit_def Let_def
  by (simp split: option.split sum.split prod.split entry.split)

interpretation copy: walker id "copy_visit (abs_path S) (abs_path D)" S "shape_of w0" "copy_skips w0 S"
  "copy_inv w0 S D" "copy_bad w0 S D" for S D w0
proof (unfold_locales, goal_cases)
  case (1 X w)
  then show ?case by (simp add: copy_inv_def)
next
  case (2 X w p)
  then obtain q where "p = S @ q" by (auto simp: prefix_def)
  then show ?case using copy_inv_source [OF 2(1)] by (simp add: shape_of_def)
next
  case (3 X w p d w')
  then show ?case using copy_visit_outcome [OF 3] by simp
next
  case (4 X w p d w')
  then show ?case using copy_visit_outcome [OF 4] by simp
next
  case (5 X w p d e w')
  then show ?case using copy_visit_outcome [OF 5] by simp
next
  case 6
  show ?case by (rule copy_visit_no_fuel)
qed

section \<open>The copy against its specification\<close>

lemma copy_visited:
  assumes "look w0 (S @ q) \<noteq> None" and "''.git'' \<notin> set q"
  shows "S @ q \<in> copy.visited w0 S S"
  using assms
  by (auto simp: copy.visited_def shape_of_def copy_skips_def strict_prefix_def prefix_def)

lemma copy_inv_start: "copy_ready w S D \<Longrightarrow> copy_inv w S D {} w"
  by (simp add: copy_inv_def copy_ready_def)

lemma copy_inv_done:
  assumes inv: "copy_inv w0 S D (copy.visited w0 S S) w"
  shows "look w x = (if prefix D x then exported w0 S (drop (length D) x) else look w0 x)" and "links_ok w0 S"
proof -
  have ready: "copy_ready w0 S D" by (rule copy_inv_ready [OF inv])
  show "look w x = (if prefix D x then exported w0 S (drop (length D) x) else look w0 x)"
  proof (cases "prefix D x")
    case True
    then obtain q where x: "x = D @ q" by (auto simp: prefix_def)
    have "exported w0 S q = None" if "S @ q \<notin> copy.visited w0 S S"
    proof -
      have "look w0 (S @ q) = None \<or> ''.git'' \<in> set q" using copy_visited [of w0 S q] that by blast
      then show ?thesis by (auto simp: exported_def)
    qed
    then show ?thesis using copy_inv_target [OF inv, of q] copy_ready_nothing [OF ready, of q] by (auto simp: x)
  qed (use inv in \<open>simp add: copy_inv_def\<close>)
  show "links_ok w0 S" using inv copy_visited [of w0 S] by (simp add: links_ok_def copy_inv_def)
qed

lemma CopyContentTree_steps:
  assumes "IsAbs src" and "IsAbs dst" and ready: "copy_ready w (clean_comps src) (clean_comps dst)"
    and call: "CopyContentTree src dst w = (r, w')"
  shows "(r = Inr () \<and> copy_inv w (clean_comps src) (clean_comps dst) (copy.visited w (clean_comps src) (clean_comps src)) w')
     \<or> (\<exists>e. r = Inl e \<and> copy_bad w (clean_comps src) (clean_comps dst) e w')"
proof -
  let ?S = "clean_comps src" and ?D = "clean_comps dst"
  have "look w ?S \<noteq> None" using ready by (auto simp: copy_ready_def is_dir_iff)
  then have "copy.outcome w ?S ?D (copy.visited w ?S ?S) (WalkDir id (copy_visit (abs_path ?S) (abs_path ?D)) (abs_path ?S) w)"
    using copy.WalkDir_outcome [OF copy_inv_start [OF ready]] by simp
  then show ?thesis
    using call assms(1,2)
    by (cases "WalkDir id (copy_visit (abs_path ?S) (abs_path ?D)) (abs_path ?S) w")
       (auto simp: CopyContentTree_def walk_action_def Clean_abs_path copy.outcome_def split: walk_result.splits)
qed

text \<open>
  C13. The copy of a content tree, path by path. It succeeds exactly when every symbolic link outside
  \<^verbatim>\<open>.git\<close> passes the link check; then below the destination stands the source without anything named
  \<^verbatim>\<open>.git\<close>, with files stripped of their write permission, links and contents unchanged and special files
  left out, and nothing else has changed. A copy that fails changes nothing outside the destination.
\<close>

theorem CopyContentTree_spec:
  assumes "IsAbs src" and "IsAbs dst" and "copy_ready w (clean_comps src) (clean_comps dst)"
    and "CopyContentTree src dst w = (r, w')"
  shows "(r = Inr ()) = links_ok w (clean_comps src)
    \<and> (\<forall>x. \<not> prefix (clean_comps dst) x \<longrightarrow> look w' x = look w x)
    \<and> (r = Inr () \<longrightarrow> (\<forall>q. look w' (clean_comps dst @ q) = exported w (clean_comps src) q))"
proof -
  let ?S = "clean_comps src" and ?D = "clean_comps dst"
  consider "r = Inr ()" "copy_inv w ?S ?D (copy.visited w ?S ?S) w'"
    | e where "r = Inl e" "copy_bad w ?S ?D e w'"
    using CopyContentTree_steps [OF assms] by blast
  then show ?thesis
  proof cases
    case 1
    show ?thesis using copy_inv_done [OF 1(2)] 1(1) by simp
  next
    case 2
    then show ?thesis by (simp add: copy_bad_def)
  qed
qed

lemma CopyContentTree_wf:
  assumes "IsAbs src" and "IsAbs dst" and "copy_ready w (clean_comps src) (clean_comps dst)"
    and "CopyContentTree src dst w = (r, w')"
  shows "wf_world w' \<and> w_umask w' = w_umask w"
  using CopyContentTree_steps [OF assms] by (auto simp: copy_inv_def copy_bad_def)

section \<open>Counting\<close>

definition content_files :: "world \<Rightarrow> string list \<Rightarrow> string list set" where
  "content_files w S = {p. prefix S p \<and> look w p \<noteq> None \<and> \<not> is_dir w p}"

definition total_size :: "world \<Rightarrow> string list set \<Rightarrow> int" where
  "total_size w X = (\<Sum>p \<in> X. size_at w p (the (look w p)))"

definition count_inv :: "world \<Rightarrow> string list set \<Rightarrow> world \<times> int \<times> int \<Rightarrow> bool" where
  "count_inv w0 X s \<longleftrightarrow>
     wf_world w0 \<and> fst s = w0 \<and> finite X
     \<and> fst (snd s) = int (card {p \<in> X. \<not> is_dir w0 p})
     \<and> snd (snd s) = total_size w0 {p \<in> X. \<not> is_dir w0 p}"

lemma count_visit_step:
  assumes inv: "count_inv w0 X s" and p: "shape_of w0 p = Some d" "p \<notin> X"
  shows "\<exists>s'. count_visit (abs_path p) (Some d) None s = (WOk, s') \<and> count_inv w0 (insert p X) s'"
proof (cases "d = KDir")
  case True
  then have "{x \<in> insert p X. \<not> is_dir w0 x} = {x \<in> X. \<not> is_dir w0 x}" using p(1) by (auto simp: is_dir_shape)
  then show ?thesis using inv True by (simp add: count_visit_def count_inv_def)
next
  case False
  obtain e where e: "look w0 p = Some e" using p(1) by (auto simp: shape_of_def)
  have "\<not> is_dir w0 p" using False p(1) by (simp add: is_dir_shape)
  then have "{x \<in> insert p X. \<not> is_dir w0 x} = insert p {x \<in> X. \<not> is_dir w0 x}" by auto
  then have "int (card {x \<in> insert p X. \<not> is_dir w0 x}) = int (card {x \<in> X. \<not> is_dir w0 x}) + 1"
    "total_size w0 {x \<in> insert p X. \<not> is_dir w0 x} = total_size w0 {x \<in> X. \<not> is_dir w0 x} + size_at w0 p e"
    using inv p(2) e by (simp_all add: count_inv_def total_size_def)
  moreover have "Info (abs_path p) w0 = Inr (size_at w0 p e, w_mtime w0 p, e)"
    using inv e by (intro Info_abs) (simp_all add: count_inv_def)
  ultimately show ?thesis using inv False by (simp add: count_visit_def count_inv_def)
qed

interpretation count: walker fst count_visit S "shape_of w0" "\<lambda>_. False" "count_inv w0" "\<lambda>_ _. False" for S w0
proof (unfold_locales, goal_cases)
  case (3 X s p d s')
  then show ?case using count_visit_step [OF 3(1,3,4)] by auto
next
  case (4 X s p d s')
  then show ?case using count_visit_step [OF 4(1,3,4)] by auto
next
  case (5 X s p d e s')
  then show ?case using count_visit_step [OF 5(1,3,4)] by auto
next
  case (6 p d s s')
  show ?case by (simp add: count_visit_def split: sum.split prod.split)
qed (simp_all add: count_inv_def)

lemma countFiles_spec:
  assumes "wf_world w" and "look w S \<noteq> None"
  shows "countFiles (abs_path S) w = (Inr (int (card (content_files w S)), total_size w (content_files w S)), w)"
proof -
  have "count_inv w {} (w, 0, 0)" using assms(1) by (simp add: count_inv_def total_size_def)
  then have out: "count.outcome w (count.visited w S) (WalkDir fst count_visit (abs_path S) (w, 0, 0))"
    using count.WalkDir_outcome [of w "(w, 0, 0)" S] assms(2) by simp
  have "{p \<in> count.visited w S. \<not> is_dir w p} = content_files w S"
    by (auto simp: count.visited_def content_files_def shape_of_def)
  then show ?thesis
    using out by (cases "WalkDir fst count_visit (abs_path S) (w, 0, 0)")
      (auto simp: countFiles_def walk_action_def count.outcome_def count_inv_def split: walk_result.splits)
qed

section \<open>An example\<close>

definition example_world :: world where
  "example_world =
     \<lparr>w_fs =
        [([], EDir 493), ([''w''], EDir 493), ([''w'', ''repo''], EDir 493),
         ([''w'', ''repo'', ''.git''], EDir 493), ([''w'', ''repo'', ''.git'', ''config''], EFile ''url'' 420),
         ([''w'', ''repo'', ''run.sh''], EFile ''exec'' 493),
         ([''w'', ''repo'', ''docs''], EDir 493), ([''w'', ''repo'', ''docs'', ''go''], ELink ''../run.sh'')],
      w_mtime = (\<lambda>_. 0), w_owner = (\<lambda>_. (0, 0)), w_cwd = [], w_umask = 18,
      w_clock = int, w_ticks = 1, w_dir_size = (\<lambda>_. 4096)\<rparr>"

lemma wf_world_code:
  "wf_world w \<longleftrightarrow> distinct (map fst (w_fs w)) \<and> is_dir w []
     \<and> list_all (\<lambda>(p, e). entry_ok e \<and> (p = [] \<or> name_ok (last p) \<and> is_dir w (butlast p))) (w_fs w)"
proof (cases "distinct (map fst (w_fs w))")
  case True
  have mem: "(p, e) \<in> set (w_fs w) \<longleftrightarrow> look w p = Some e" for p e
    using map_of_eq_Some_iff [OF True] by (simp add: look_def)
  have "list_all (\<lambda>(p, e). entry_ok e \<and> (p = [] \<or> name_ok (last p) \<and> is_dir w (butlast p))) (w_fs w)
      \<longleftrightarrow> (\<forall>p e. look w p = Some e \<longrightarrow> entry_ok e)
        \<and> (\<forall>p e. look w p = Some e \<longrightarrow> p = [] \<or> name_ok (last p) \<and> is_dir w (butlast p))"
    unfolding list_all_iff split_paired_Ball_Sigma split_paired_All Ball_def mem [symmetric] prod.case by blast
  moreover have "(\<forall>p e. look w p = Some e \<longrightarrow> p = [] \<or> name_ok (last p) \<and> is_dir w (butlast p))
      \<longleftrightarrow> (\<forall>p n. look w (p @ [n]) \<noteq> None \<longrightarrow> name_ok n \<and> is_dir w p)"
    by (metis append_butlast_last_id butlast_snoc last_snoc not_None_eq snoc_eq_iff_butlast)
  ultimately show ?thesis using True unfolding wf_world_def by blast
qed (simp add: wf_world_def)

lemma links_ok_code:
  assumes "list_all (\<lambda>(p, e). case e of
      ELink t \<Rightarrow> prefix S p \<and> ''.git'' \<notin> set (drop (length S) p) \<longrightarrow> link_ok S (drop (length S) p) t
    | _ \<Rightarrow> True) (w_fs w)"
  shows "links_ok w S"
proof -
  have "link_ok S q t" if "''.git'' \<notin> set q" "look w (S @ q) = Some (ELink t)" for q t
    using that assms map_of_SomeD [of "w_fs w" "S @ q"] by (fastforce simp: look_def list_all_iff)
  then show ?thesis by (simp add: links_ok_def)
qed

lemma example_ready: "copy_ready example_world [''w'', ''repo''] [''w'', ''content'']"
proof -
  have "wf_world example_world" unfolding wf_world_code by code_simp
  moreover have "is_dir example_world [''w'', ''repo'']" "list_all name_ok [''w'', ''content'']"
    "is_dir example_world [''w'']" "look example_world [''w'', ''content''] = None" by code_simp+
  ultimately show ?thesis by (simp add: copy_ready_def)
qed

lemma example_links: "links_ok example_world [''w'', ''repo'']"
  by (rule links_ok_code) code_simp

lemma example_comps:
  "IsAbs ''/w/repo''" "IsAbs ''/w/content''"
  "clean_comps ''/w/repo'' = [''w'', ''repo'']" "clean_comps ''/w/content'' = [''w'', ''content'']"
  by code_simp+

theorem CopyContentTree_spec_witness:
  "fst (CopyContentTree ''/w/repo'' ''/w/content'' example_world) = Inr ()
   \<and> look (snd (CopyContentTree ''/w/repo'' ''/w/content'' example_world)) [''w'', ''content'', ''.git''] = None
   \<and> look (snd (CopyContentTree ''/w/repo'' ''/w/content'' example_world)) [''w'', ''content'', ''run.sh'']
     = Some (EFile ''exec'' 365)"
proof -
  have exp: "exported example_world [''w'', ''repo''] [''.git''] = None"
    "exported example_world [''w'', ''repo''] [''run.sh''] = Some (EFile ''exec'' 365)" by code_simp+
  let ?run = "CopyContentTree ''/w/repo'' ''/w/content'' example_world"
  have "copy_ready example_world (clean_comps ''/w/repo'') (clean_comps ''/w/content'')"
    using example_ready by (simp add: example_comps)
  note copied = CopyContentTree_spec [OF example_comps(1,2) this surjective_pairing, unfolded example_comps(3,4)]
  have ok: "fst ?run = Inr ()" using copied example_links by simp
  have "look (snd ?run) ([''w'', ''content''] @ q) = exported example_world [''w'', ''repo''] q" for q
    using copied ok by simp
  from this [of "[''.git'']"] this [of "[''run.sh'']"] ok show ?thesis by (simp add: exp)
qed

end
