(* ===== verification/Publish.thy ===== *)
theory Publish
  imports CopyTree
begin

text \<open>
  \<^verbatim>\<open>cmd/nodeplugin/publish.go\<close>: publishing a content tree read-only at a target path, and unpublishing.
\<close>

section \<open>Definitions\<close>

definition chmod_visit :: "world callback" where
  "chmod_visit path d err w =
     (case err of
        Some e \<Rightarrow> (WErr e, w)
      | None \<Rightarrow>
          (case Info path w of
             Inl e \<Rightarrow> (WErr e, w)
           | Inr (_, _, info) \<Rightarrow>
               if kind_of info = KLink then (WOk, w)
               else if d = Some KDir then to_walk (Chmod path readonly_bits w)
               else if kind_of info = KFile then to_walk (Chmod path (and (entry_perm info) readonly_bits) w)
               else (WOk, w)))"

definition chmodReadOnly :: "string \<Rightarrow> (world, unit) action" where
  "chmodReadOnly root w = walk_action (WalkDir id chmod_visit root w)"

definition publishReadOnly :: "string \<Rightarrow> string \<Rightarrow> (world, unit) action" where
  "publishReadOnly source target =
     bindW (RemoveAll target) (\<lambda>_.
     bindW (CopyContentTree source target) (\<lambda>_.
       chmodReadOnly target))"

definition unpublish :: "string \<Rightarrow> (world, unit) action" where
  "unpublish target = RemoveAll target"

section \<open>Making a tree read-only\<close>

fun readonly_entry :: "entry \<Rightarrow> entry" where
  "readonly_entry (EFile c m) = EFile c (and m readonly_bits)"
| "readonly_entry (EDir _) = EDir readonly_bits"
| "readonly_entry (ELink t) = ELink t"
| "readonly_entry (ESpecial m) = ESpecial m"

lemma kind_readonly [simp]: "kind_of (readonly_entry e) = kind_of e"
  by (cases e) auto

definition chmod_inv :: "world \<Rightarrow> string list set \<Rightarrow> world \<Rightarrow> bool" where
  "chmod_inv w0 X w \<longleftrightarrow>
     wf_world w0 \<and> wf_world w \<and> w_umask w = w_umask w0 \<and> w_cwd w = w_cwd w0
     \<and> (\<forall>x. look w x = (if x \<in> X then map_option readonly_entry (look w0 x) else look w0 x))"

lemma Chmod_abs:
  "wf_world w \<Longrightarrow> look w p = Some e \<Longrightarrow> kind_of e \<noteq> KLink \<Longrightarrow>
     Chmod (abs_path p) m w = (Inr (), set_entry p (set_perm m e) w)"
proof -
  assume w: "wf_world w" "look w p = Some e" "kind_of e \<noteq> KLink"
  then have "\<forall>t. look w p \<noteq> Some (ELink t)" by auto
  then have "resolve True (abs_path p) w = Found p e" using w resolve_abs [OF w(1) wf_reach, of p True] by simp
  then show ?thesis by (simp add: Chmod_def)
qed

lemma chmod_inv_shape: "chmod_inv w0 X w \<Longrightarrow> shape_of w p = shape_of w0 p"
  by (cases "look w0 p") (auto simp: chmod_inv_def shape_of_def)

lemma chmod_inv_extend:
  assumes "chmod_inv w0 X w" and "look w0 p = Some e" and "readonly_entry e = set_perm m e" and "p \<notin> X"
  shows "chmod_inv w0 (insert p X) (set_entry p (set_perm m e) w)"
  using assms wf_set_perm [of w p e m] by (auto simp: chmod_inv_def)

lemma chmod_visit_step:
  assumes inv: "chmod_inv w0 X w" and p: "shape_of w0 p = Some d" "p \<notin> X"
  shows "\<exists>w'. chmod_visit (abs_path p) (Some d) None w = (WOk, w') \<and> chmod_inv w0 (insert p X) w'"
proof -
  obtain e where e: "look w0 p = Some e" "d = kind_of e" using p(1) by (auto simp: shape_of_def)
  have wf: "wf_world w" and here: "look w p = Some e" using inv e p(2) by (simp_all add: chmod_inv_def)
  have same: "chmod_inv w0 (insert p X) w" if "readonly_entry e = e" using inv e that by (auto simp: chmod_inv_def)
  note facts = Info_abs [OF wf here] Chmod_abs [OF wf here] chmod_inv_extend [OF inv e(1) _ p(2)]
  show ?thesis
    using same facts e(2) by (cases e) (auto simp: chmod_visit_def to_walk_def)
qed

interpretation chmod: walker id chmod_visit S "shape_of w0" "\<lambda>_. False" "chmod_inv w0" "\<lambda>_ _. False" for S w0
proof (unfold_locales, goal_cases)
  case (2 X w p)
  then show ?case using chmod_inv_shape by simp
next
  case (3 X s p d s')
  then show ?case using chmod_visit_step [OF 3(1,3,4)] by auto
next
  case (4 X s p d s')
  then show ?case using chmod_visit_step [OF 4(1,3,4)] by auto
next
  case (5 X s p d e s')
  then show ?case using chmod_visit_step [OF 5(1,3,4)] by auto
next
  case (6 p d s s')
  show ?case by (simp add: chmod_visit_def split: sum.split prod.split)
qed (simp add: chmod_inv_def)

lemma chmodReadOnly_spec:
  assumes "wf_world w" and "look w S \<noteq> None"
  obtains w' where "chmodReadOnly (abs_path S) w = (Inr (), w')" and "wf_world w'"
    and "w_umask w' = w_umask w" and "w_cwd w' = w_cwd w"
    and "\<And>x. look w' x = (if prefix S x then map_option readonly_entry (look w x) else look w x)"
proof -
  have "chmod_inv w {} w" using assms(1) by (simp add: chmod_inv_def)
  then have out: "chmod.outcome w (chmod.visited w S) (WalkDir id chmod_visit (abs_path S) w)"
    using chmod.WalkDir_outcome [of w w S] assms(2) by simp
  then obtain w' where run: "WalkDir id chmod_visit (abs_path S) w = (WOk, w')" and inv: "chmod_inv w (chmod.visited w S) w'"
    by (cases "WalkDir id chmod_visit (abs_path S) w") (auto simp: chmod.outcome_def split: walk_result.splits)
  have "look w' x = (if prefix S x then map_option readonly_entry (look w x) else look w x)" for x
    using inv by (auto simp: chmod_inv_def chmod.visited_def shape_of_def)
  then show ?thesis using that inv run by (simp add: chmodReadOnly_def walk_action_def chmod_inv_def)
qed

section \<open>Publishing\<close>

definition published :: "world \<Rightarrow> string list \<Rightarrow> string list \<Rightarrow> entry option" where
  "published w S q = map_option readonly_entry (exported w S q)"

text \<open>Source and target directories of a publication: as for a copy, but the target may exist.\<close>

definition publish_ready :: "world \<Rightarrow> string list \<Rightarrow> string list \<Rightarrow> bool" where
  "publish_ready w S D \<longleftrightarrow>
     wf_world w \<and> is_dir w S \<and> D \<noteq> [] \<and> list_all name_ok D \<and> is_dir w (butlast D)
     \<and> \<not> prefix S D \<and> \<not> prefix D S"

lemma prefix_butlast_not: "D \<noteq> [] \<Longrightarrow> \<not> prefix D (butlast D)"
  by (metis append_butlast_last_id append_self_conv not_Cons_self2 prefix_order.antisym prefixI)

lemma not_prefix_append: "\<not> prefix S D \<Longrightarrow> \<not> prefix D S \<Longrightarrow> \<not> prefix D (S @ q)"
  using prefix_same_cases [of D "S @ q" S] by auto

lemma publish_copy_ready:
  assumes "publish_ready w S D" and "wf_world w'" and "\<And>x. look w' x = (if prefix D x then None else look w x)"
  shows "copy_ready w' S D" and "\<And>q. look w' (S @ q) = look w (S @ q)"
proof -
  have p: "wf_world w" "is_dir w S" "D \<noteq> []" "list_all name_ok D" "is_dir w (butlast D)"
      "\<not> prefix S D" "\<not> prefix D S"
    using assms(1) by (simp_all add: publish_ready_def)
  show q: "look w' (S @ q) = look w (S @ q)" for q using assms(3) not_prefix_append [OF p(6,7)] by simp
  have "is_dir w' S" "is_dir w' (butlast D)"
    using p q [of "[]"] assms(3) prefix_butlast_not [OF p(3)] by (simp_all add: is_dir_iff)
  then show "copy_ready w' S D"
    using p assms(2,3) name_ok_elems [OF p(4)] by (simp add: copy_ready_def)
qed

lemma publishReadOnly_steps:
  assumes "IsAbs source" and "IsAbs target" and "Clean target = target"
    and ready: "publish_ready w (clean_comps source) (clean_comps target)"
    and call: "publishReadOnly source target w = (r, w')"
  shows "(r = Inr ()) = links_ok w (clean_comps source)
    \<and> (\<forall>x. \<not> prefix (clean_comps target) x \<longrightarrow> look w' x = look w x)
    \<and> wf_world w' \<and> w_umask w' = w_umask w
    \<and> (r = Inr () \<longrightarrow> (\<forall>q. look w' (clean_comps target @ q) = published w (clean_comps source) q))"
proof -
  let ?S = "clean_comps source" and ?D = "clean_comps target"
  have p: "wf_world w" "?D \<noteq> []" "list_all name_ok ?D" "is_dir w (butlast ?D)"
    using ready by (simp_all add: publish_ready_def)
  have target: "target = abs_path ?D" using Clean_abs_path [OF assms(2)] assms(3) by simp
  have "reach w ?D" using p by (simp add: reach_def)
  then obtain w1 where rm: "RemoveAll target w = (Inr (), w1)" and wf1: "wf_world w1" and um1: "w_umask w1 = w_umask w"
    and look1: "\<And>x. look w1 x = (if prefix ?D x then None else look w x)"
    using RemoveAll_abs [OF p(1) _ p(2)] target by metis
  note copy_ready = publish_copy_ready [OF ready wf1 look1]
  have links: "links_ok w1 ?S = links_ok w ?S" by (simp add: links_ok_def copy_ready(2))
  have exported: "exported w1 ?S q = exported w ?S q" for q by (simp add: exported_def copy_ready(2) um1)
  obtain r2 w2 where cp: "CopyContentTree source target w1 = (r2, w2)" by fastforce
  note copied = CopyContentTree_spec [OF assms(1,2) copy_ready(1) cp] CopyContentTree_wf [OF assms(1,2) copy_ready(1) cp]
  show ?thesis
  proof (cases r2)
    case (Inl e)
    then show ?thesis using call rm cp copied links look1 um1 by (auto simp: publishReadOnly_def bindW_def)
  next
    case (Inr u)
    have ok: "links_ok w ?S" "wf_world w2" "w_umask w2 = w_umask w"
      using Inr copied links cp um1 by auto
    have look2: "look w2 (?D @ q) = exported w ?S q" "\<not> prefix ?D x \<Longrightarrow> look w2 x = look w x" for q x
      using copied(1) Inr exported look1 by simp_all
    have "look w2 ?D \<noteq> None" using look2(1) [of "[]"] ready by (auto simp: exported_def publish_ready_def is_dir_iff)
    then obtain w3 where "chmodReadOnly target w2 = (Inr (), w3)" "wf_world w3" "w_umask w3 = w_umask w2"
      and look3: "\<And>x. look w3 x = (if prefix ?D x then map_option readonly_entry (look w2 x) else look w2 x)"
      using chmodReadOnly_spec [OF ok(2)] target by metis
    then have "r = Inr () \<and> w' = w3" using call rm cp Inr by (simp add: publishReadOnly_def bindW_def)
    then show ?thesis
      using ok \<open>wf_world w3\<close> \<open>w_umask w3 = w_umask w2\<close> look2 look3 by (simp add: published_def)
  qed
qed

text \<open>
  C14. Publishing a content directory at a target. It succeeds exactly when the links of the source pass
  the check; then whatever stood at the target is gone and below it stands the read-only copy of the source,
  without \<^verbatim>\<open>.git\<close>; no other path changes, whether it succeeds or not.
\<close>

theorem publishReadOnly_spec:
  assumes "IsAbs source" and "IsAbs target" and "Clean target = target"
    and "publish_ready w (clean_comps source) (clean_comps target)"
    and "publishReadOnly source target w = (r, w')"
  shows "(r = Inr ()) = links_ok w (clean_comps source)
    \<and> (\<forall>x. \<not> prefix (clean_comps target) x \<longrightarrow> look w' x = look w x)
    \<and> (r = Inr () \<longrightarrow> (\<forall>q. look w' (clean_comps target @ q) = published w (clean_comps source) q))"
  using publishReadOnly_steps [OF assms] by blast

lemma example_publish:
  "IsAbs ''/w/vol''" "Clean ''/w/vol'' = ''/w/vol''" "clean_comps ''/w/vol'' = [''w'', ''vol'']"
  "publish_ready example_world (clean_comps ''/w/repo'') (clean_comps ''/w/vol'')"
  "fst (publishReadOnly ''/w/repo'' ''/w/vol'' example_world) = Inr ()"
proof -
  show vol: "IsAbs ''/w/vol''" "Clean ''/w/vol'' = ''/w/vol''" and comps: "clean_comps ''/w/vol'' = [''w'', ''vol'']"
    by code_simp+
  have "is_dir example_world [''w'']" "list_all name_ok [''w'', ''vol'']" by code_simp+
  then show ready: "publish_ready example_world (clean_comps ''/w/repo'') (clean_comps ''/w/vol'')"
    using example_ready by (simp add: publish_ready_def copy_ready_def example_comps comps)
  show "fst (publishReadOnly ''/w/repo'' ''/w/vol'' example_world) = Inr ()"
    using publishReadOnly_steps [OF example_comps(1) vol ready surjective_pairing] example_links
    by (simp add: example_comps)
qed

lemma example_published:
  "publishReadOnly ''/w/repo'' ''/w/vol'' example_world
     = (Inr (), snd (publishReadOnly ''/w/repo'' ''/w/vol'' example_world))"
  using example_publish(5) by (metis prod.collapse)

theorem publishReadOnly_spec_witness:
  "look (snd (publishReadOnly ''/w/repo'' ''/w/vol'' example_world)) [''w'', ''vol'', ''run.sh'']
     = Some (EFile ''exec'' 365)
   \<and> look (snd (publishReadOnly ''/w/repo'' ''/w/vol'' example_world)) [''w'', ''vol'', ''docs''] = Some (EDir 365)"
proof -
  have "published example_world [''w'', ''repo''] [''run.sh''] = Some (EFile ''exec'' 365)"
    "published example_world [''w'', ''repo''] [''docs''] = Some (EDir 365)" by code_simp+
  moreover have "look (snd (publishReadOnly ''/w/repo'' ''/w/vol'' example_world)) ([''w'', ''vol''] @ q)
      = published example_world [''w'', ''repo''] q" for q
    using publishReadOnly_spec [OF example_comps(1) example_publish(1,2,4) example_published]
    by (simp add: example_comps example_publish(3))
  from this [of "[''run.sh'']"] this [of "[''docs'']"] calculation show ?thesis by simp
qed

text \<open>No published file or directory has a write bit, and nothing published is named \<^verbatim>\<open>.git\<close>.\<close>

definition writable :: "entry \<Rightarrow> bool" where
  "writable e = (case e of EFile _ m \<Rightarrow> and m 146 \<noteq> 0 | EDir m \<Rightarrow> and m 146 \<noteq> 0 | _ \<Rightarrow> False)"

lemma readonly_mask: "and (and m readonly_bits) 146 = (0 :: perm)"
proof -
  have "and readonly_bits 146 = (0 :: perm)" by (simp add: readonly_bits_def)
  then show ?thesis by (simp add: and.assoc)
qed

lemma published_readonly:
  assumes "published w S q = Some e"
  shows "\<not> writable e" and "''.git'' \<notin> set q" and "kind_of e \<noteq> KSpecial"
proof -
  have dir: "and readonly_bits 146 = (0 :: perm)" using readonly_mask [of "-1"] by simp
  obtain e0 where e0: "exported w S q = Some e0" "e = readonly_entry e0" using assms by (auto simp: published_def)
  then show "\<not> writable e" by (cases e0) (auto simp: writable_def readonly_mask dir)
  show "''.git'' \<notin> set q" using e0 by (auto simp: exported_def split: if_splits)
  then obtain e1 where "copied_entry (w_umask w) e1 = Some e0"
    using e0 by (auto simp: exported_def bind_eq_Some_conv)
  then show "kind_of e \<noteq> KSpecial" using e0(2) by (cases e1) auto
qed

text \<open>
  C15. What a workload sees is read-only: after a publication that succeeded no file or directory at the
  target has a write bit for anyone, no path at the target has a component \<^verbatim>\<open>.git\<close>, and the only entries are
  files, directories and links.
\<close>

theorem publishReadOnly_safe:
  assumes "IsAbs source" and "IsAbs target" and "Clean target = target"
    and "publish_ready w (clean_comps source) (clean_comps target)"
    and "publishReadOnly source target w = (Inr (), w')"
    and "look w' (clean_comps target @ q) = Some e"
  shows "\<not> writable e \<and> ''.git'' \<notin> set q \<and> kind_of e \<noteq> KSpecial"
proof -
  have "published w (clean_comps source) q = Some e" using publishReadOnly_steps [OF assms(1-5)] assms(6) by simp
  then show ?thesis by (intro conjI published_readonly)
qed

theorem publishReadOnly_safe_witness:
  "\<not> writable (EDir readonly_bits)
   \<and> look (snd (publishReadOnly ''/w/repo'' ''/w/vol'' example_world)) [''w'', ''vol''] = Some (EDir readonly_bits)"
proof -
  have root: "published example_world [''w'', ''repo''] [] = Some (EDir readonly_bits)" by code_simp
  have "look (snd (publishReadOnly ''/w/repo'' ''/w/vol'' example_world)) (clean_comps ''/w/vol'' @ q)
      = published example_world [''w'', ''repo''] q" for q
    using publishReadOnly_steps [OF example_comps(1) example_publish(1,2,4) example_published]
    by (simp add: example_comps)
  then have here: "look (snd (publishReadOnly ''/w/repo'' ''/w/vol'' example_world)) (clean_comps ''/w/vol'' @ [])
      = Some (EDir readonly_bits)" by (simp only: root)
  then show ?thesis
    using publishReadOnly_safe [OF example_comps(1) example_publish(1,2,4) example_published here]
    by (simp add: example_publish(3))
qed

text \<open>
  C27. Unpublishing undoes a publication: afterwards nothing stands at or below the target, every other
  path is as it was before the publication, and unpublishing again changes nothing.
\<close>

theorem unpublish_restores:
  assumes "IsAbs source" and "IsAbs target" and "Clean target = target"
    and "publish_ready w (clean_comps source) (clean_comps target)"
    and "publishReadOnly source target w = (Inr (), w')"
  shows "\<exists>w''. unpublish target w' = (Inr (), w'')
    \<and> (\<forall>x. look w'' x = (if prefix (clean_comps target) x then None else look w x))
    \<and> unpublish target w'' = (Inr (), w'')"
proof -
  let ?D = "clean_comps target"
  have p: "?D \<noteq> []" "list_all name_ok ?D" "is_dir w (butlast ?D)" using assms(4) by (simp_all add: publish_ready_def)
  have target: "target = abs_path ?D" using Clean_abs_path [OF assms(2)] assms(3) by simp
  have wf: "wf_world w'" and out: "\<And>x. \<not> prefix ?D x \<Longrightarrow> look w' x = look w x"
    using publishReadOnly_steps [OF assms] by auto
  have "reach w' ?D"
    using p out prefix_butlast_not [OF p(1)] by (simp add: reach_def is_dir_iff)
  then obtain w'' where rm: "RemoveAll target w' = (Inr (), w'')" and wf2: "wf_world w''"
    and look2: "\<And>x. look w'' x = (if prefix ?D x then None else look w' x)"
    using RemoveAll_abs [OF wf _ p(1)] target by metis
  have "reach w'' ?D" using \<open>reach w' ?D\<close> look2 prefix_butlast_not [OF p(1)] by (simp add: reach_def is_dir_iff)
  then have "resolve False (abs_path ?D) w'' = Missing ?D" using look2 wf2 by (simp add: resolve_abs)
  then have "resolve False target w'' = Missing ?D" "target \<noteq> ''.''" "\<not> HasSuffix target ''/.''"
    using abs_path_no_dot [OF p(2,1)] target by metis+
  then have "RemoveAll target w'' = (Inr (), w'')" by (simp add: RemoveAll_def)
  then show ?thesis using rm look2 out by (auto simp: unpublish_def)
qed

theorem unpublish_restores_witness:
  "\<exists>w''. unpublish ''/w/vol'' (snd (publishReadOnly ''/w/repo'' ''/w/vol'' example_world)) = (Inr (), w'')
     \<and> look w'' [''w'', ''vol'', ''run.sh''] = None
     \<and> look w'' [''w'', ''repo'', ''run.sh''] = Some (EFile ''exec'' 493)"
proof -
  have "look example_world [''w'', ''repo'', ''run.sh''] = Some (EFile ''exec'' 493)" by code_simp
  then show ?thesis
    using unpublish_restores [OF example_comps(1) example_publish(1,2,4) example_published]
    by (auto simp: example_publish(3))
qed

end
