(* ===== verification/Metadata.thy ===== *)
theory Metadata
  imports CopyTree "HOL-Library.Multiset"
begin

text \<open>
  \<^verbatim>\<open>pkg/metadata/write.go\<close>: the provenance files below \<^verbatim>\<open>.gitcontent\<close>. Go iterates over a map in an
  unspecified order; the order is an argument.
\<close>

section \<open>Time stamps\<close>

text \<open>\<^verbatim>\<open>time.Now().UTC().Format(time.RFC3339)\<close> of a clock in nanoseconds since 1970.\<close>

definition civil :: "int \<Rightarrow> int \<times> int \<times> int" where
  "civil days =
     (let z = days + 719468;
          era = z div 146097;
          doe = z mod 146097;
          yoe = (doe - doe div 1460 + doe div 36524 - doe div 146096) div 365;
          doy = doe - (365 * yoe + yoe div 4 - yoe div 100);
          mp = (5 * doy + 2) div 153;
          d = doy - (153 * mp + 2) div 5 + 1;
          m = (if mp < 10 then mp + 3 else mp - 9)
      in (yoe + era * 400 + (if m \<le> 2 then 1 else 0), m, d))"

definition padded :: "nat \<Rightarrow> int \<Rightarrow> string" where
  "padded n i = (let s = Itoa i in replicate (n - length s) (CHR ''0'') @ s)"

definition rfc3339 :: "int \<Rightarrow> string" where
  "rfc3339 ns =
     (let secs = ns div 1000000000; days = secs div 86400; s = secs mod 86400;
          (y, m, d) = civil days
      in padded 4 y @ ''-'' @ padded 2 m @ ''-'' @ padded 2 d @ ''T''
         @ padded 2 (s div 3600) @ '':'' @ padded 2 (s mod 3600 div 60) @ '':'' @ padded 2 (s mod 60) @ ''Z'')"

section \<open>Writing\<close>

record inputs =
  in_repo :: string
  in_requested_rev :: string
  in_resolved_rev :: string
  in_policy :: string
  in_submodules :: bool
  in_credential_profile :: string

type_synonym iteration = "(string \<times> string) list \<Rightarrow> (string \<times> string) list"

definition meta_fields :: "string \<Rightarrow> inputs \<Rightarrow> (string \<times> string) list" where
  "meta_fields stamp inp =
     [(''repo'', in_repo inp),
      (''requested-revision'', in_requested_rev inp),
      (''resolved-revision'', in_resolved_rev inp),
      (''mounted-at'', stamp),
      (''policy'', in_policy inp),
      (''submodules-enabled'', show_bool (in_submodules inp)),
      (''credential-profile'', in_credential_profile inp)]"

text \<open>The permissions \<^verbatim>\<open>0o755\<close> and \<^verbatim>\<open>0o644\<close>.\<close>

definition meta_dir_perm :: perm where "meta_dir_perm = 493"
definition meta_file_perm :: perm where "meta_file_perm = 420"

fun write_fields :: "string \<Rightarrow> (string \<times> string) list \<Rightarrow> (world, unit) action" where
  "write_fields meta [] w = (Inr (), w)"
| "write_fields meta ((name, v) # rest) w =
     (case WriteFile (Join meta name) (v @ [CHR 0x0A]) meta_file_perm w of
        (Inl e, w') \<Rightarrow> (Inl e, w')
      | (Inr _, w') \<Rightarrow> write_fields meta rest w')"

definition Write :: "iteration \<Rightarrow> string \<Rightarrow> inputs \<Rightarrow> (world, unit) action" where
  "Write iter root inp =
     (let meta = Join root ''.gitcontent'' in
      bindW (MkdirAll meta meta_dir_perm) (\<lambda>_ w.
        (let (now, w1) = time_now w in write_fields meta (iter (meta_fields (rfc3339 now) inp)) w1)))"

section \<open>What is written\<close>

definition meta_entry :: "perm \<Rightarrow> string \<Rightarrow> entry" where
  "meta_entry um v = EFile (v @ [CHR 0x0A]) (and meta_file_perm (not um))"

text \<open>The directory is named by a path that leads to \<open>T\<close>, through links or not.\<close>

lemma write_fields_at:
  assumes "wf_world w" and "list_all name_ok M" and "resolve True (abs_path M) w = Found T (EDir m)"
    and "list_all name_ok (map fst fs)" and "distinct (map fst fs)"
    and "\<And>n. n \<in> fst ` set fs \<Longrightarrow> look w (T @ [n]) = None"
  shows "\<exists>w'. write_fields (abs_path M) fs w = (Inr (), w') \<and> wf_world w' \<and> w_umask w' = w_umask w \<and> w_clock w' = w_clock w
    \<and> (\<forall>x. look w' x =
         (if x \<noteq> [] \<and> butlast x = T \<and> map_of fs (last x) \<noteq> None
          then map_option (meta_entry (w_umask w)) (map_of fs (last x)) else look w x))"
  using assms(1,3-)
proof (induction fs arbitrary: w)
  case Nil
  then show ?case by simp
next
  case (Cons nv fs)
  obtain n v where nv: "nv = (n, v)" by (cases nv)
  have n: "name_ok n" "look w (T @ [n]) = None" using Cons.prems nv by auto
  have dir: "is_dir w T" using resolve_look [OF Cons.prems(2)] by (simp add: is_dir_iff)
  let ?w1 = "put (T @ [n]) (meta_entry (w_umask w) v) w"
  have "resolve True (abs_path (M @ [n])) w = Missing (T @ [n])"
    using resolve_below [OF Cons.prems(2), of n] assms(2) n by simp
  moreover have "Join (abs_path M) n = abs_path (M @ [n])" using assms(2) n(1) by (intro Join_abs) simp
  ultimately have wr: "WriteFile (Join (abs_path M) n) (v @ [CHR 0x0A]) meta_file_perm w = (Inr (), ?w1)"
    by (simp add: WriteFile_def meta_entry_def)
  have wf1: "wf_world ?w1" using Cons.prems(1) dir n by (auto intro!: wf_put simp: is_dir_iff meta_entry_def entry_ok_def)
  have "map_of (w_fs w) \<subseteq>\<^sub>m map_of (w_fs ?w1)"
  proof -
    have "look w x = Some y \<Longrightarrow> look ?w1 x = Some y" for x y using n(2) by auto
    then show ?thesis by (auto simp: map_le_def dom_def look_def)
  qed
  then have to1: "resolve True (abs_path M) ?w1 = Found T (EDir m)"
    by (rule resolve_more [OF Cons.prems(2)]) (simp add: put_def touch_def set_entry_def)
  have "look ?w1 (T @ [m]) = None" if "m \<in> fst ` set fs" for m
    using Cons.prems(4) Cons.prems(5) [of m] that nv by auto
  then obtain w' where w': "write_fields (abs_path M) fs ?w1 = (Inr (), w')" "wf_world w'" "w_umask w' = w_umask ?w1" "w_clock w' = w_clock ?w1"
    and look': "\<And>x. look w' x =
         (if x \<noteq> [] \<and> butlast x = T \<and> map_of fs (last x) \<noteq> None
          then map_option (meta_entry (w_umask ?w1)) (map_of fs (last x)) else look ?w1 x)"
    using Cons.IH [OF wf1 to1] Cons.prems(3,4) by auto
  have "map_of fs n = None" using Cons.prems(4) nv by (simp add: map_of_eq_None_iff)
  moreover have "x = T @ [n] \<longleftrightarrow> x \<noteq> [] \<and> butlast x = T \<and> last x = n" for x
    by (metis append_butlast_last_id butlast_snoc last_snoc snoc_eq_iff_butlast)
  ultimately show ?case using w' look' wr nv by (intro exI [of _ w']) auto
qed

lemma write_fields_spec:
  assumes "wf_world w" and "is_dir w M" and "list_all name_ok (map fst fs)" and "distinct (map fst fs)"
    and "\<And>n. n \<in> fst ` set fs \<Longrightarrow> look w (M @ [n]) = None"
  shows "\<exists>w'. write_fields (abs_path M) fs w = (Inr (), w') \<and> wf_world w' \<and> w_umask w' = w_umask w \<and> w_clock w' = w_clock w
    \<and> (\<forall>x. look w' x =
         (if x \<noteq> [] \<and> butlast x = M \<and> map_of fs (last x) \<noteq> None
          then map_option (meta_entry (w_umask w)) (map_of fs (last x)) else look w x))"
proof -
  obtain m where m: "look w M = Some (EDir m)" using assms(2) by (auto simp: is_dir_iff)
  then have "resolve True (abs_path M) w = Found M (EDir m)" by (simp add: resolve_abs [OF assms(1) wf_reach [OF assms(1)]])
  moreover have "list_all name_ok M" using wf_names [OF assms(1), of M] m by simp
  ultimately show ?thesis using write_fields_at assms(1,3-5) by blast
qed

definition field_names :: "string list" where
  "field_names =
     [''repo'', ''requested-revision'', ''resolved-revision'', ''mounted-at'', ''policy'',
      ''submodules-enabled'', ''credential-profile'']"

lemma fields_names: "map fst (meta_fields stamp inp) = field_names"
  by (simp add: meta_fields_def field_names_def)

lemma field_names_ok: "list_all name_ok field_names" "distinct field_names" "name_ok ''.gitcontent''"
  by code_simp+

text \<open>The clock reading of \<^verbatim>\<open>mounted-at\<close>: making the directory takes the one before it.\<close>

definition mount_stamp :: "world \<Rightarrow> string" where
  "mount_stamp w = rfc3339 (w_clock w (Suc (w_ticks w)))"

lemma Write_steps:
  assumes iter: "\<And>xs. mset (iter xs) = mset xs"
    and root: "IsAbs root" "R = clean_comps root"
    and w: "wf_world w" "is_dir w R" "look w (R @ [''.gitcontent'']) = None"
  shows "\<exists>w'. Write iter root inp w = (Inr (), w') \<and> wf_world w' \<and> w_umask w' = w_umask w \<and> w_clock w' = w_clock w
    \<and> (\<forall>x. look w' x =
         (if x = R @ [''.gitcontent''] then Some (EDir (and meta_dir_perm (not (w_umask w))))
          else if x \<noteq> [] \<and> butlast x = R @ [''.gitcontent''] \<and> map_of (meta_fields (mount_stamp w) inp) (last x) \<noteq> None
          then map_option (meta_entry (w_umask w)) (map_of (meta_fields (mount_stamp w) inp) (last x)) else look w x))"
proof -
  let ?M = "R @ [''.gitcontent'']"
  have names: "list_all name_ok ?M" using wf_names [OF w(1)] w(2) field_names_ok(3) by (auto simp: is_dir_iff)
  have "Join root ''.gitcontent'' = Join (abs_path R) ''.gitcontent''"
  proof -
    have "plain_elem ''.gitcontent''" using field_names_ok(3) by (simp add: name_ok_def)
    moreover have "root \<noteq> []" using root by (auto simp: IsAbs_def)
    ultimately show ?thesis
      using Join_name [of root "''.gitcontent''"] Join_abs [OF names] root by simp
  qed
  then have meta: "Join root ''.gitcontent'' = abs_path ?M" using Join_abs [OF names] by simp
  let ?w1 = "put ?M (EDir (and meta_dir_perm (not (w_umask w)))) w"
  have mk: "MkdirAll (abs_path ?M) meta_dir_perm w = (Inr (), ?w1)"
    using w names by (intro MkdirAll_new) simp_all
  have wf1: "wf_world ?w1"
    using w field_names_ok(3) by (intro wf_put) (auto simp: entry_ok_def)
  obtain now w2 where now: "time_now ?w1 = (now, w2)" by fastforce
  have stamp: "rfc3339 now = mount_stamp w"
    using now by (simp add: time_now_def mount_stamp_def put_def touch_def set_entry_def)
  have same: "w2 = ?w1\<lparr>w_ticks := Suc (w_ticks ?w1)\<rparr>" using now by (simp add: time_now_def)
  have look2: "look w2 x = look ?w1 x" for x by (simp only: same look_def) simp
  have um2: "w_umask w2 = w_umask w" "w_clock w2 = w_clock w" unfolding same by simp_all
  have "w_fs w2 = w_fs ?w1" unfolding same by simp
  then have wf2: "wf_world w2" using wf1 look2 by (simp add: wf_world_def is_dir_iff)
  have dir2: "is_dir w2 ?M" by (simp add: is_dir_iff look2)
  let ?fs = "iter (meta_fields (rfc3339 now) inp)"
  have perm: "mset (map fst ?fs) = mset field_names"
    using iter fields_names by (metis mset_map)
  have fs: "list_all name_ok (map fst ?fs)" "distinct (map fst ?fs)"
    using field_names_ok perm by (metis list_all_iff set_mset_mset, metis distinct_count_atmost_1 set_mset_mset)
  have missing: "look w2 (?M @ [n]) = None" for n
  proof -
    have "look w (?M @ [n]) = None" using w(3) wf_ancestors [OF w(1), of ?M "[n]"] by blast
    then show ?thesis by (simp add: look2)
  qed
  obtain w' where w': "write_fields (abs_path ?M) ?fs w2 = (Inr (), w')" "wf_world w'" "w_umask w' = w_umask w2" "w_clock w' = w_clock w2"
    and look': "\<And>x. look w' x =
         (if x \<noteq> [] \<and> butlast x = ?M \<and> map_of ?fs (last x) \<noteq> None
          then map_option (meta_entry (w_umask w2)) (map_of ?fs (last x)) else look w2 x)"
    using write_fields_spec [OF wf2 dir2 fs missing] by blast
  have "map_of ?fs = map_of (meta_fields (rfc3339 now) inp)"
  proof (rule map_of_inject_set [THEN iffD2])
    show "distinct (map fst ?fs)" "distinct (map fst (meta_fields (rfc3339 now) inp))"
      using fs field_names_ok fields_names by simp_all
    show "set ?fs = set (meta_fields (rfc3339 now) inp)" using iter by (metis set_mset_mset)
  qed
  moreover have "Write iter root inp w = (Inr (), w')"
    using meta mk now w'(1) by (simp add: Write_def bindW_def Let_def)
  ultimately show ?thesis
    using w' um2 look' look2 stamp by (intro exI [of _ w']) auto
qed

text \<open>
  C28. The metadata of a mount. In a content directory without an entry \<^verbatim>\<open>.gitcontent\<close> of its own, and whatever the
  order in which Go visits the map of fields, writing succeeds and creates that directory with exactly seven files, each one line: the
  repository, the requested and the resolved revision, the time in UTC, the policy, whether submodules are enabled, and the credential
  profile. Directory and files are readable by all unless the umask forbids it, and no other path changes.
\<close>

theorem Write_spec:
  assumes "\<And>xs. mset (iter xs) = mset xs"
    and "IsAbs root" and "wf_world w" and "is_dir w (clean_comps root)"
    and "look w (clean_comps root @ [''.gitcontent'']) = None"
  shows "\<exists>w'. Write iter root inp w = (Inr (), w')
    \<and> (\<forall>x. \<not> prefix (clean_comps root @ [''.gitcontent'']) x \<longrightarrow> look w' x = look w x)
    \<and> look w' (clean_comps root @ [''.gitcontent'']) = Some (EDir (and 493 (not (w_umask w))))
    \<and> (\<forall>n. look w' (clean_comps root @ [''.gitcontent'', n]) =
         map_option (\<lambda>v. EFile (v @ [CHR 0x0A]) (and 420 (not (w_umask w))))
           (map_of
             [(''repo'', in_repo inp), (''requested-revision'', in_requested_rev inp),
              (''resolved-revision'', in_resolved_rev inp), (''mounted-at'', rfc3339 (w_clock w (Suc (w_ticks w)))),
              (''policy'', in_policy inp), (''submodules-enabled'', if in_submodules inp then ''true'' else ''false''),
              (''credential-profile'', in_credential_profile inp)] n))
    \<and> (\<forall>n m q. look w' (clean_comps root @ ''.gitcontent'' # n # m # q) = None)"
proof -
  let ?M = "clean_comps root @ [''.gitcontent'']"
  obtain w' where run: "Write iter root inp w = (Inr (), w')"
    and look': "\<And>x. look w' x =
         (if x = ?M then Some (EDir (and meta_dir_perm (not (w_umask w))))
          else if x \<noteq> [] \<and> butlast x = ?M \<and> map_of (meta_fields (mount_stamp w) inp) (last x) \<noteq> None
          then map_option (meta_entry (w_umask w)) (map_of (meta_fields (mount_stamp w) inp) (last x)) else look w x)"
    using Write_steps [OF assms(1,2) refl assms(3-5)] by blast
  have none: "look w (?M @ q) = None" for q
    using assms(5) wf_ancestors [OF assms(3), of ?M q] by blast
  have files: "look w' (?M @ [n]) = map_option (meta_entry (w_umask w)) (map_of (meta_fields (mount_stamp w) inp) n)" for n
    using none [of "[n]"] by (simp add: look' butlast_append)
  have deep: "look w' (?M @ n # m # q) = None" for n m q
    using none [of "n # m # q"] by (simp add: look' butlast_append)
  have "look w' x = look w x" if "\<not> prefix ?M x" for x
  proof -
    have "x \<noteq> ?M" "x \<noteq> [] \<Longrightarrow> butlast x \<noteq> ?M" using that prefixeq_butlast [of x] by auto
    then show ?thesis unfolding look' by auto
  qed
  moreover have "look w' ?M = Some (EDir (and 493 (not (w_umask w))))" by (simp add: look' meta_dir_perm_def)
  moreover have "meta_entry um = (\<lambda>v. EFile (v @ [CHR 0x0A]) (and 420 (not um)))" for um
    by (simp add: meta_entry_def fun_eq_iff meta_file_perm_def)
  moreover have "meta_fields (mount_stamp w) inp =
             [(''repo'', in_repo inp), (''requested-revision'', in_requested_rev inp),
              (''resolved-revision'', in_resolved_rev inp), (''mounted-at'', rfc3339 (w_clock w (Suc (w_ticks w)))),
              (''policy'', in_policy inp), (''submodules-enabled'', if in_submodules inp then ''true'' else ''false''),
              (''credential-profile'', in_credential_profile inp)]"
    by (simp add: meta_fields_def mount_stamp_def show_bool_def)
  ultimately show ?thesis using run files deep by (intro exI [of _ w']) simp
qed

definition example_inputs :: inputs where
  "example_inputs =
     \<lparr>in_repo = ''https://github.com/example/site.git'', in_requested_rev = ''refs/tags/v1.0.0'',
      in_resolved_rev = ''0123456789012345678901234567890123456789'', in_policy = ''default'',
      in_submodules = False, in_credential_profile = ''reader''\<rparr>"

theorem Write_spec_witness:
  "\<exists>w'. Write id ''/w/repo'' example_inputs example_world = (Inr (), w')
     \<and> look w' [''w'', ''repo'', ''run.sh''] = Some (EFile ''exec'' 493)"
proof -
  have "look example_world (clean_comps ''/w/repo'' @ [''.gitcontent'']) = None"
    "look example_world [''w'', ''repo'', ''run.sh''] = Some (EFile ''exec'' 493)" by code_simp+
  moreover have "wf_world example_world" "is_dir example_world (clean_comps ''/w/repo'')"
    using example_ready by (simp_all add: copy_ready_def example_comps)
  moreover have "\<not> prefix (clean_comps ''/w/repo'' @ [''.gitcontent'']) [''w'', ''repo'', ''run.sh'']" by code_simp
  ultimately show ?thesis using Write_spec [of id "''/w/repo''" example_world example_inputs] example_comps(1) by auto
qed

section \<open>A repository that names .gitcontent itself\<close>

text \<open>
  C29. A content directory that brings \<^verbatim>\<open>.gitcontent\<close> as a link decides where the metadata goes. Whatever directory of the node the link leads to,
  directly or through other links, and however far outside the content directory, writing succeeds, creates the seven files
  in that directory, and changes nothing else, the content directory least of all.
\<close>

theorem Write_follows_link:
  assumes "\<And>xs. mset (iter xs) = mset xs" and "IsAbs root" and "wf_world w"
    and "look w (clean_comps root @ [''.gitcontent'']) = Some (ELink t)"
    and "resolve True (Join root ''.gitcontent'') w = Found T (EDir m)"
    and "\<And>n. look w (T @ [n]) = None"
  shows "\<exists>w'. Write iter root inp w = (Inr (), w')
    \<and> (\<forall>n. look w' (T @ [n]) = map_option (meta_entry (w_umask w)) (map_of (meta_fields (rfc3339 (w_clock w (w_ticks w))) inp) n))
    \<and> (\<forall>x. (\<forall>n. x \<noteq> T @ [n]) \<longrightarrow> look w' x = look w x)"
proof -
  let ?M = "clean_comps root @ [''.gitcontent'']"
  have names: "list_all name_ok ?M" using wf_names [OF assms(3), of ?M] assms(4) by simp
  have meta: "Join root ''.gitcontent'' = abs_path ?M"
  proof -
    have "plain_elem ''.gitcontent''" using field_names_ok(3) by (simp add: name_ok_def)
    moreover have "root \<noteq> []" using assms(2) by (auto simp: IsAbs_def)
    ultimately show ?thesis using Join_name [of root "''.gitcontent''"] Join_abs [OF names] assms(2) by simp
  qed
  have mk: "MkdirAll (abs_path ?M) meta_dir_perm w = (Inr (), w)"
    using assms(5) by (simp add: MkdirAll.simps [of "abs_path ?M"] Stat_def meta)
  let ?w1 = "w\<lparr>w_ticks := Suc (w_ticks w)\<rparr>" and ?fields = "meta_fields (rfc3339 (w_clock w (w_ticks w))) inp"
  have look1: "look ?w1 x = look w x" for x by (simp add: look_def)
  have wf1: "wf_world ?w1" using assms(3) by (simp add: wf_world_def is_dir_iff look1)
  have to1: "resolve True (abs_path ?M) ?w1 = Found T (EDir m)"
    using resolve_more [of True _ w T "EDir m" ?w1] assms(5) by (simp add: meta)
  have perm: "mset (map fst (iter ?fields)) = mset field_names" using assms(1) fields_names by (metis mset_map)
  have fs: "list_all name_ok (map fst (iter ?fields))" "distinct (map fst (iter ?fields))"
    using field_names_ok perm by (metis list_all_iff set_mset_mset, metis distinct_count_atmost_1 set_mset_mset)
  have none: "look ?w1 (T @ [n]) = None" for n using assms(6) by (simp add: look1)
  obtain w' where w': "write_fields (abs_path ?M) (iter ?fields) ?w1 = (Inr (), w')"
    and look': "\<And>x. look w' x =
         (if x \<noteq> [] \<and> butlast x = T \<and> map_of (iter ?fields) (last x) \<noteq> None
          then map_option (meta_entry (w_umask ?w1)) (map_of (iter ?fields) (last x)) else look ?w1 x)"
    using write_fields_at [OF wf1 names to1 fs none] by blast
  have same: "map_of (iter ?fields) = map_of ?fields"
  proof (rule map_of_inject_set [THEN iffD2])
    show "distinct (map fst (iter ?fields))" "distinct (map fst ?fields)" using fs field_names_ok fields_names by simp_all
    show "set (iter ?fields) = set ?fields" using assms(1) by (metis set_mset_mset)
  qed
  have run: "Write iter root inp w = (Inr (), w')"
    using meta mk w' by (simp add: Write_def bindW_def Let_def time_now_def)
  have "x = butlast x @ [last x]" if "x \<noteq> []" for x :: "string list" using that by simp
  then have "look w' x = look w x" if "\<forall>n. x \<noteq> T @ [n]" for x using that unfolding look' look1 by metis
  moreover have "look w' (T @ [n]) = map_option (meta_entry (w_umask w)) (map_of ?fields n)" for n
    using assms(6) [of n] by (simp add: look' look1 same)
  ultimately show ?thesis using run by blast
qed

text \<open>
  The links of this repository all pass the check, which is lexical: each target, read from its own
  directory, stays inside the repository. The second goes through the first, which leads to the root of the
  content directory, so that the two dot-dots after it leave the directory.
\<close>

definition chained_world :: world where
  "chained_world =
     example_world\<lparr>w_fs :=
       [([], EDir 493), ([''etc''], EDir 493), ([''w''], EDir 493), ([''w'', ''repo''], EDir 493),
        ([''w'', ''repo'', ''a''], EDir 493), ([''w'', ''repo'', ''a'', ''b''], EDir 493),
        ([''w'', ''repo'', ''a'', ''b'', ''l''], ELink ''../..''),
        ([''w'', ''repo'', ''.gitcontent''], ELink ''a/b/l/../../etc'')]\<rparr>"

text \<open>Its copy succeeds, and the metadata of the copy goes to \<^verbatim>\<open>/etc\<close>.\<close>

theorem Write_follows_link_witness:
  "\<exists>w w'. CopyContentTree ''/w/repo'' ''/w/content'' chained_world = (Inr (), w)
     \<and> Write id ''/w/content'' example_inputs w = (Inr (), w')
     \<and> look w' [''etc'', ''repo''] = Some (EFile (''https://github.com/example/site.git'' @ [CHR 0x0A]) 420)"
proof -
  let ?c = "CopyContentTree ''/w/repo'' ''/w/content'' chained_world" and ?w = "snd (CopyContentTree ''/w/repo'' ''/w/content'' chained_world)"
  have ok: "fst ?c = Inr ()" by code_simp
  have "wf_world chained_world" unfolding wf_world_code by code_simp
  moreover have "is_dir chained_world [''w'', ''repo'']" "list_all name_ok [''w'', ''content'']"
    "is_dir chained_world [''w'']" "look chained_world [''w'', ''content''] = None" by code_simp+
  ultimately have "copy_ready chained_world (clean_comps ''/w/repo'') (clean_comps ''/w/content'')"
    by (simp add: copy_ready_def example_comps)
  from CopyContentTree_wf [OF example_comps(1,2) this surjective_pairing] have wf: "wf_world ?w" by simp
  have "case ?c of (r, w) \<Rightarrow> look w (clean_comps ''/w/content'' @ [''.gitcontent'']) = Some (ELink ''a/b/l/../../etc'')
     \<and> resolve True (Join ''/w/content'' ''.gitcontent'') w = Found [''etc''] (EDir 493) \<and> w_umask w = 18
     \<and> list_all (\<lambda>(x, e). \<not> strict_prefix [''etc''] x) (w_fs w)" by code_simp
  then have st: "look ?w (clean_comps ''/w/content'' @ [''.gitcontent'']) = Some (ELink ''a/b/l/../../etc'')"
    "resolve True (Join ''/w/content'' ''.gitcontent'') ?w = Found [''etc''] (EDir 493)" "w_umask ?w = 18"
    "list_all (\<lambda>(x, e). \<not> strict_prefix [''etc''] x) (w_fs ?w)" by (auto split: prod.splits)
  have none: "look ?w ([''etc''] @ [n]) = None" for n
    using st(4) by (force simp: look_def list_all_iff strict_prefix_def dest: map_of_SomeD intro: ccontr)
  have abs: "IsAbs ''/w/content''" by code_simp
  obtain w' where w': "Write id ''/w/content'' example_inputs ?w = (Inr (), w')"
    and files: "\<And>n. look w' ([''etc''] @ [n]) = map_option (meta_entry (w_umask ?w)) (map_of (meta_fields (rfc3339 (w_clock ?w (w_ticks ?w))) example_inputs) n)"
    using Write_follows_link [of id "''/w/content''" ?w "''a/b/l/../../etc''" "[''etc'']" 493 example_inputs, OF _ abs wf st(1,2) none] by auto
  have "meta_entry 18 (in_repo example_inputs) = EFile (''https://github.com/example/site.git'' @ [CHR 0x0A]) 420" by code_simp
  then have "look w' [''etc'', ''repo''] = Some (EFile (''https://github.com/example/site.git'' @ [CHR 0x0A]) 420)"
    using files [of "''repo''"] st(3) by (simp add: meta_fields_def)
  then show ?thesis using ok w' by (metis prod.collapse)
qed

end
