(* ===== verification/Sha256.thy ===== *)
theory Sha256
  imports Prelude
begin

text \<open>
  SHA-256 of Go's \<^verbatim>\<open>crypto/sha256\<close> (FIPS 180-4) on byte strings, and \<^verbatim>\<open>hex.EncodeToString\<close>.
\<close>

unbundle bit_operations_syntax

type_synonym w32 = "32 word"

definition rotr :: "nat \<Rightarrow> w32 \<Rightarrow> w32" where
  "rotr n x = (drop_bit n x) OR (push_bit (32 - n) x)"

definition round_constants :: "w32 list" where
  "round_constants =
    [0x428a2f98, 0x71374491, 0xb5c0fbcf, 0xe9b5dba5, 0x3956c25b, 0x59f111f1, 0x923f82a4, 0xab1c5ed5,
     0xd807aa98, 0x12835b01, 0x243185be, 0x550c7dc3, 0x72be5d74, 0x80deb1fe, 0x9bdc06a7, 0xc19bf174,
     0xe49b69c1, 0xefbe4786, 0x0fc19dc6, 0x240ca1cc, 0x2de92c6f, 0x4a7484aa, 0x5cb0a9dc, 0x76f988da,
     0x983e5152, 0xa831c66d, 0xb00327c8, 0xbf597fc7, 0xc6e00bf3, 0xd5a79147, 0x06ca6351, 0x14292967,
     0x27b70a85, 0x2e1b2138, 0x4d2c6dfc, 0x53380d13, 0x650a7354, 0x766a0abb, 0x81c2c92e, 0x92722c85,
     0xa2bfe8a1, 0xa81a664b, 0xc24b8b70, 0xc76c51a3, 0xd192e819, 0xd6990624, 0xf40e3585, 0x106aa070,
     0x19a4c116, 0x1e376c08, 0x2748774c, 0x34b0bcb5, 0x391c0cb3, 0x4ed8aa4a, 0x5b9cca4f, 0x682e6ff3,
     0x748f82ee, 0x78a5636f, 0x84c87814, 0x8cc70208, 0x90befffa, 0xa4506ceb, 0xbef9a3f7, 0xc67178f2]"

type_synonym state8 = "w32 \<times> w32 \<times> w32 \<times> w32 \<times> w32 \<times> w32 \<times> w32 \<times> w32"

definition initial_state :: state8 where
  "initial_state =
    (0x6a09e667, 0xbb67ae85, 0x3c6ef372, 0xa54ff53a, 0x510e527f, 0x9b05688c, 0x1f83d9ab, 0x5be0cd19)"

text \<open>Padding: a one bit, zeros, and the length in bits in eight bytes.\<close>

definition byte_be :: "int \<Rightarrow> nat \<Rightarrow> w32" where
  "byte_be n i = of_int (n div 256 ^ i mod 256)"

definition padded_message :: "string \<Rightarrow> w32 list" where
  "padded_message s =
     (let n = length s in
      map (\<lambda>c. of_int (of_char c)) s @ [0x80] @ replicate ((119 - n mod 64) mod 64) 0
      @ map (\<lambda>i. byte_be (8 * int n) (7 - i)) [0..<8])"

fun words_be :: "w32 list \<Rightarrow> w32 list" where
  "words_be (a # b # c # d # rest) =
     (push_bit 24 a OR push_bit 16 b OR push_bit 8 c OR d) # words_be rest"
| "words_be _ = []"

text \<open>The message schedule, newest word first, and the rounds on eight working variables.\<close>

fun schedule :: "nat \<Rightarrow> w32 list \<Rightarrow> w32 list" where
  "schedule 0 ws = ws"
| "schedule (Suc n) ws =
     (let w15 = ws ! 14; w2 = ws ! 1;
          s0 = rotr 7 w15 XOR rotr 18 w15 XOR drop_bit 3 w15;
          s1 = rotr 17 w2 XOR rotr 19 w2 XOR drop_bit 10 w2
      in schedule n ((ws ! 15 + s0 + ws ! 6 + s1) # ws))"

fun rounds :: "(w32 \<times> w32) list \<Rightarrow> state8 \<Rightarrow> state8" where
  "rounds [] st = st"
| "rounds ((k, w) # kws) (a, b, c, d, e, f, g, h) =
     (let s1 = rotr 6 e XOR rotr 11 e XOR rotr 25 e;
          ch = (e AND f) XOR (NOT e AND g);
          t1 = h + s1 + ch + k + w;
          s0 = rotr 2 a XOR rotr 13 a XOR rotr 22 a;
          maj = (a AND b) XOR (a AND c) XOR (b AND c)
      in rounds kws (t1 + s0 + maj, a, b, c, d + t1, e, f, g))"

definition add8 :: "state8 \<Rightarrow> state8 \<Rightarrow> state8" where
  "add8 s t =
     (case (s, t) of ((a, b, c, d, e, f, g, h), (a', b', c', d', e', f', g', h')) \<Rightarrow>
        (a + a', b + b', c + c', d + d', e + e', f + f', g + g', h + h'))"

definition compress :: "state8 \<Rightarrow> w32 list \<Rightarrow> state8" where
  "compress st block = add8 st (rounds (zip round_constants (rev (schedule 48 (rev block)))) st)"

function blocks :: "state8 \<Rightarrow> w32 list \<Rightarrow> state8" where
  "blocks st ws = (if length ws < 16 then st else blocks (compress st (take 16 ws)) (drop 16 ws))"
  by pat_completeness auto

termination
  by (relation "measure (\<lambda>(st, ws). length ws)") auto

declare blocks.simps [simp del]

definition sha256 :: "string \<Rightarrow> w32 list" where
  "sha256 s =
     (case blocks initial_state (words_be (padded_message s)) of
        (a, b, c, d, e, f, g, h) \<Rightarrow> [a, b, c, d, e, f, g, h])"

definition hex_digit :: "nat \<Rightarrow> char" where
  "hex_digit n = (if n < 10 then char_of (48 + n) else char_of (87 + n))"

definition hex_word :: "w32 \<Rightarrow> string" where
  "hex_word w = map (\<lambda>i. hex_digit (unat (drop_bit (28 - 4 * i) w AND 15))) [0..<8]"

definition hex_string :: "w32 list \<Rightarrow> string" where
  "hex_string ws = concat (map hex_word ws)"

section \<open>The shape of a digest\<close>

lemma length_sha256: "length (sha256 s) = 8"
  by (simp add: sha256_def split: prod.split)

lemma of_char_hex_digit: "a < 16 \<Longrightarrow> (of_char (hex_digit a) :: nat) = (if a < 10 then 48 + a else 87 + a)"
  by (simp add: hex_digit_def)

lemma hex_digit_inj: "a < 16 \<Longrightarrow> b < 16 \<Longrightarrow> hex_digit a = hex_digit b \<Longrightarrow> a = b"
proof -
  assume ab: "a < 16" "b < 16" and eq: "hex_digit a = hex_digit b"
  have "(if a < 10 then 48 + a else 87 + a) = (if b < 10 then 48 + b else 87 + b)"
    using of_char_hex_digit [OF ab(1)] of_char_hex_digit [OF ab(2)] by (simp only: eq)
  then show "a = b" using ab by (simp split: if_split_asm)
qed

definition hex_bytes :: "char set" where
  "hex_bytes = hex_digit ` {..<16}"

lemma nibble_less: "unat (x AND 15 :: w32) < 16"
proof -
  have "x AND 15 \<le> 15" by (rule word_and_le1)
  then have "unat (x AND 15) \<le> unat (15 :: w32)" by (simp add: word_le_nat_alt)
  then show ?thesis by simp
qed

lemma set_hex_string: "set (hex_string ws) \<subseteq> hex_bytes"
  using nibble_less by (auto simp: hex_string_def hex_word_def hex_bytes_def)

lemma length_hex_word [simp]: "length (hex_word w) = 8"
  by (simp add: hex_word_def)

lemma length_hex_string: "length (hex_string ws) = 8 * length ws"
  by (induction ws) (simp_all add: hex_string_def)

lemma hex_word_inj: "hex_word v = hex_word w \<Longrightarrow> v = w"
proof -
  assume eq: "hex_word v = hex_word w"
  have nib: "drop_bit (28 - 4 * i) v AND 15 = drop_bit (28 - 4 * i) w AND 15" if "i < 8" for i
  proof -
    have "hex_word v ! i = hex_word w ! i" using eq by simp
    then have "unat (drop_bit (28 - 4 * i) v AND 15) = unat (drop_bit (28 - 4 * i) w AND 15)"
      using that nibble_less by (intro hex_digit_inj) (simp_all add: hex_word_def)
    then show ?thesis by (simp add: word_unat_eq_iff)
  qed
  have "bit v n = bit w n" if "n < 32" for n
  proof -
    have "28 - 4 * (7 - n div 4) = 4 * (n div 4)" using that by (simp add: diff_mult_distrib2)
    then have i: "7 - n div 4 < 8" "28 - 4 * (7 - n div 4) + n mod 4 = n" using that by simp_all
    have fifteen: "bit (15 :: w32) (n mod 4)"
    proof -
      have "n mod 4 \<in> {0, 1, 2, 3}" by auto
      then show ?thesis by (auto simp: bit_numeral_rec)
    qed
    have "bit (drop_bit (28 - 4 * (7 - n div 4)) v AND 15) (n mod 4)
        = bit (drop_bit (28 - 4 * (7 - n div 4)) w AND 15) (n mod 4)" by (simp only: nib [OF i(1)])
    then show ?thesis using i(2) fifteen by (simp add: bit_and_iff bit_drop_bit_eq)
  qed
  then show "v = w" by (intro bit_word_eqI) auto
qed

lemma hex_string_inj: "length vs = length ws \<Longrightarrow> hex_string vs = hex_string ws \<Longrightarrow> vs = ws"
proof (induction vs arbitrary: ws)
  case (Cons v vs)
  then obtain w us where ws: "ws = w # us" by (cases ws) auto
  then have "hex_word v = hex_word w" "hex_string vs = hex_string us"
    using Cons.prems by (simp_all add: hex_string_def)
  then show ?case using Cons.IH [of us] Cons.prems ws hex_word_inj by simp
qed simp

section \<open>Evaluation\<close>

text \<open>
  For evaluation by the simplifier, rotations and shifts are divisions and products by numerals, and no value is
  bound by a \<open>let\<close> or a \<open>case\<close>, whose bodies the simplifier would evaluate symbolically first.
\<close>

definition rot :: "int \<Rightarrow> int \<Rightarrow> w32 \<Rightarrow> w32" where
  "rot p q x = word_of_int (uint x div p) OR word_of_int (uint x * q)"

definition shr :: "int \<Rightarrow> w32 \<Rightarrow> w32" where
  "shr p x = word_of_int (uint x div p)"

lemma shr_drop: "shr (2 ^ n) x = drop_bit n x"
proof -
  have "take_bit 32 (uint x) = uint x" using uint_lt2p [of x] by (simp add: take_bit_int_eq_self_iff)
  then have "uint (drop_bit n x) = drop_bit n (uint x)" by (simp add: unsigned_drop_bit_eq)
  then have "uint (drop_bit n x) = uint x div 2 ^ n" by (simp add: drop_bit_eq_div)
  then show ?thesis unfolding shr_def by (metis word_of_int_uint)
qed

lemma rot_rotr: "rot (2 ^ n) (2 ^ (32 - n)) x = rotr n x"
  unfolding rot_def rotr_def shr_drop [unfolded shr_def] by (simp add: push_bit_eq_mult wi_hom_mult [symmetric])

definition small_sigma0 :: "w32 \<Rightarrow> w32" where
  "small_sigma0 w = rotr 7 w XOR rotr 18 w XOR drop_bit 3 w"

definition small_sigma1 :: "w32 \<Rightarrow> w32" where
  "small_sigma1 w = rotr 17 w XOR rotr 19 w XOR drop_bit 10 w"

definition big_sigma0 :: "w32 \<Rightarrow> w32" where
  "big_sigma0 a = rotr 2 a XOR rotr 13 a XOR rotr 22 a"

definition big_sigma1 :: "w32 \<Rightarrow> w32" where
  "big_sigma1 e = rotr 6 e XOR rotr 11 e XOR rotr 25 e"

lemma sigma_code [code]:
  "small_sigma0 w = rot 128 33554432 w XOR rot 262144 16384 w XOR shr 8 w"
  "small_sigma1 w = rot 131072 32768 w XOR rot 524288 8192 w XOR shr 1024 w"
  "big_sigma1 e = rot 64 67108864 e XOR rot 2048 2097152 e XOR rot 33554432 128 e"
  "big_sigma0 e = rot 4 1073741824 e XOR rot 8192 524288 e XOR rot 4194304 1024 e"
  using rot_rotr [of 7 w] rot_rotr [of 18 w] shr_drop [of 3 w] rot_rotr [of 17 w] rot_rotr [of 19 w] shr_drop [of 10 w]
    rot_rotr [of 6 e] rot_rotr [of 11 e] rot_rotr [of 25 e] rot_rotr [of 2 e] rot_rotr [of 13 e] rot_rotr [of 22 e]
  by (simp_all add: small_sigma0_def small_sigma1_def big_sigma1_def big_sigma0_def)

definition round1 :: "w32 \<Rightarrow> w32 \<Rightarrow> w32 \<Rightarrow> w32 \<Rightarrow> w32" where
  "round1 e f g h = h + big_sigma1 e + ((e AND f) XOR (NOT e AND g))"

definition round2 :: "w32 \<Rightarrow> w32 \<Rightarrow> w32 \<Rightarrow> w32" where
  "round2 a b c = big_sigma0 a + ((a AND b) XOR (a AND c) XOR (b AND c))"

fun next_round :: "(w32 \<times> w32) list \<Rightarrow> state8 \<Rightarrow> w32 \<Rightarrow> w32 \<Rightarrow> state8" where
  "next_round kws (a, b, c, d, e, f, g, h) t1 t2 = rounds kws (t1 + t2, a, b, c, d + t1, e, f, g)"

lemma rounds_code [code]:
  "rounds [] st = st"
  "rounds ((k, w) # kws) (a, b, c, d, e, f, g, h) =
     next_round kws (a, b, c, d, e, f, g, h) (round1 e f g h + k + w) (round2 a b c)"
  by (simp_all add: round1_def round2_def big_sigma1_def big_sigma0_def Let_def add.assoc)

lemma schedule_code [code]:
  "schedule 0 ws = ws"
  "schedule (Suc n) ws = schedule n ((ws ! 15 + small_sigma0 (ws ! 14) + ws ! 6 + small_sigma1 (ws ! 1)) # ws)"
  by (simp_all add: small_sigma0_def small_sigma1_def Let_def)

lemma words_be_code [code]:
  "words_be (a # b # c # d # rest) = (16777216 * a OR 65536 * b OR 256 * c OR d) # words_be rest"
  "words_be [] = []" "words_be [a] = []" "words_be [a, b] = []" "words_be [a, b, c] = []"
  by (simp_all add: push_bit_eq_mult mult.commute)

text \<open>The test vector of the standard.\<close>

lemma sha256_abc:
  "sha256 ''abc'' =
     [0xba7816bf, 0x8f01cfea, 0x414140de, 0x5dae2223, 0xb00361a3, 0x96177a9c, 0xb410ff61, 0xf20015ad]"
  by code_simp

end
