(* ===== verification/Cache.thy ===== *)
theory Cache
  imports CopyTree Sha256 "HOL-Library.Multiset"
begin

text \<open>
  \<^verbatim>\<open>pkg/cache/cache.go\<close>: the key of a cache entry, its directory, and eviction. Go's \<^verbatim>\<open>sort.Slice\<close> leaves the
  order of equal elements open, so the sorting function is an argument. Sizes are mathematical integers; the
  sum of the sizes of a cache that exists is far below the 63 bits of \<^verbatim>\<open>int64\<close>.
\<close>

section \<open>Definitions\<close>

record config =
  c_root :: string
  c_max_size :: int
  c_max_age :: int

definition New :: "config \<Rightarrow> (world, config) action" where
  "New cfg w =
     (if c_root cfg = [] then (Inl ''cache root dir is required'', w)
      else
        (let cfg1 = cfg\<lparr>c_max_size := if c_max_size cfg \<le> 0 then 10 * 1024 * 1024 * 1024 else c_max_size cfg,
                        c_max_age := if c_max_age cfg \<le> 0 then 24 * 3600 * 1000000000 else c_max_age cfg\<rparr>
         in bindW (MkdirAll (c_root cfg1) privateDirPerm) (\<lambda>_. ret cfg1) w))"

definition key_bytes :: "string list \<Rightarrow> string" where
  "key_bytes parts = concat (map (\<lambda>p. p @ [CHR 0x0A]) parts)"

definition Key :: "string list \<Rightarrow> string" where
  "Key parts = hex_string (sha256 (key_bytes parts))"

definition PathForKey :: "config \<Rightarrow> string \<Rightarrow> string" where
  "PathForKey cfg key = Join (c_root cfg) key"

record item =
  it_path :: string
  it_size :: int
  it_mod :: int

definition info_visit :: "(world \<times> item) callback" where
  "info_visit p d err s =
     (case err of
        Some e \<Rightarrow> (WErr e, s)
      | None \<Rightarrow>
          (case Info p (fst s) of
             Inl e \<Rightarrow> (WErr e, s)
           | Inr (n, mtime, _) \<Rightarrow>
               (WOk, fst s,
                (snd s)\<lparr>it_size := it_size (snd s) + n,
                        it_mod := if mtime < it_mod (snd s) then mtime else it_mod (snd s)\<rparr>)))"

definition dirInfo :: "string \<Rightarrow> (world, item) action" where
  "dirInfo path w =
     (let (now, w1) = time_now w in
      case walk_action (WalkDir fst info_visit path (w1, \<lparr>it_path = path, it_size = 0, it_mod = now\<rparr>)) of
        (Inl e, w2, _) \<Rightarrow> (Inl e, w2)
      | (Inr _, w2, i) \<Rightarrow> (Inr i, w2))"

text \<open>The first loop: measure every directory, remove those past the maximal age.\<close>

fun scan :: "config \<Rightarrow> int \<Rightarrow> (string \<times> kind) list \<Rightarrow> item list \<times> int \<Rightarrow> world \<Rightarrow> (item list \<times> int) \<times> world" where
  "scan cfg now [] (items, tot) w = ((items, tot), w)"
| "scan cfg now ((name, d) # es) (items, tot) w =
     (if d \<noteq> KDir then scan cfg now es (items, tot) w
      else
        (case dirInfo (Join (c_root cfg) name) w of
           (Inl _, w1) \<Rightarrow> scan cfg now es (items, tot) w1
         | (Inr i, w1) \<Rightarrow>
             if now - it_mod i > c_max_age cfg
             then scan cfg now es (items @ [i], tot + it_size i - it_size i) (snd (RemoveAll (it_path i) w1))
             else scan cfg now es (items @ [i], tot + it_size i) w1))"

text \<open>The second loop: remove in order until the total is small enough.\<close>

fun shrink :: "config \<Rightarrow> item list \<Rightarrow> int \<Rightarrow> world \<Rightarrow> world" where
  "shrink cfg [] tot w = w"
| "shrink cfg (i # is) tot w =
     (if tot \<le> c_max_size cfg then w
      else shrink cfg is (tot - it_size i) (snd (RemoveAll (it_path i) w)))"

definition Evict :: "(item list \<Rightarrow> item list) \<Rightarrow> config \<Rightarrow> (world, unit) action" where
  "Evict srt cfg w =
     (let (now, w1) = time_now w in
      case ReadDir (c_root cfg) w1 of
        Inl e \<Rightarrow> (Inl e, w1)
      | Inr entries \<Rightarrow>
          (let ((items, tot), w2) = scan cfg now entries ([], 0) w1 in
           if tot \<le> c_max_size cfg then (Inr (), w2) else (Inr (), shrink cfg (srt items) tot w2)))"

section \<open>Keys\<close>

text \<open>The bytes that are hashed for a mount determine its parts, when the parts other than the path have no
  line feed.\<close>

lemma line_split: "CHR 0x0A \<notin> set a \<Longrightarrow> CHR 0x0A \<notin> set b \<Longrightarrow> a @ CHR 0x0A # x = b @ CHR 0x0A # y \<longleftrightarrow> a = b \<and> x = y"
proof -
  assume free: "CHR 0x0A \<notin> set a" "CHR 0x0A \<notin> set b"
  have "takeWhile (\<lambda>c. c \<noteq> CHR 0x0A) (p @ CHR 0x0A # q) = p" if "CHR 0x0A \<notin> set p" for p q
    using that by (induction p) auto
  then show ?thesis using free by (metis append_Cons list.inject same_append_eq)
qed

lemma line_split_last:
  assumes "CHR 0x0A \<notin> set a" and "CHR 0x0A \<notin> set b"
  shows "x @ CHR 0x0A # a = y @ CHR 0x0A # b \<longleftrightarrow> x = y \<and> a = b"
proof
  assume "x @ CHR 0x0A # a = y @ CHR 0x0A # b"
  then have "rev a @ CHR 0x0A # rev x = rev b @ CHR 0x0A # rev y"
    by (metis append_assoc append_Cons append_Nil rev.simps(2) rev_append rev_rev_ident)
  then show "x = y \<and> a = b" using line_split [of "rev a" "rev b"] assms by simp
qed simp

definition mount_parts :: "string \<Rightarrow> string \<Rightarrow> string \<Rightarrow> bool \<Rightarrow> bool \<Rightarrow> string \<Rightarrow> string list" where
  "mount_parts repo rv path subs lfs profile =
     [repo, rv, path, ''submodules='' @ show_bool subs, ''lfs='' @ show_bool lfs, profile]"

definition line_free :: "string \<Rightarrow> bool" where
  "line_free s \<longleftrightarrow> CHR 0x0A \<notin> set s"

lemma show_bool_inj: "show_bool b = show_bool c \<longleftrightarrow> b = c"
  by (simp add: show_bool_def)

lemma key_bytes_mount:
  assumes "line_free repo" "line_free rv" "line_free profile" "line_free repo'" "line_free rv'" "line_free profile'"
    and eq: "key_bytes (mount_parts repo rv path subs lfs profile)
           = key_bytes (mount_parts repo' rv' path' subs' lfs' profile')"
  shows "repo = repo' \<and> rv = rv' \<and> path = path' \<and> subs = subs' \<and> lfs = lfs' \<and> profile = profile'"
proof -
  define nl where "nl = CHR 0x0A"
  define s where "s = ''submodules='' @ show_bool subs"
  define s' where "s' = ''submodules='' @ show_bool subs'"
  define l where "l = ''lfs='' @ show_bool lfs"
  define l' where "l' = ''lfs='' @ show_bool lfs'"
  have free: "line_free s" "line_free s'" "line_free l" "line_free l'"
    by (simp_all add: s_def s'_def l_def l'_def line_free_def show_bool_def)
  note split = line_split [folded line_free_def] and last = line_split_last [folded line_free_def]
  have "repo @ nl # rv @ nl # path @ nl # s @ nl # l @ nl # profile @ [nl]
      = repo' @ nl # rv' @ nl # path' @ nl # s' @ nl # l' @ nl # profile' @ [nl]"
    using eq by (simp add: key_bytes_def mount_parts_def nl_def s_def s'_def l_def l'_def)
  then have front: "repo = repo'" "rv = rv'"
    and tail: "path @ nl # s @ nl # l @ nl # profile = path' @ nl # s' @ nl # l' @ nl # profile'"
    using assms(1,2,4,5) split unfolding nl_def by auto
  note ends = last [THEN iffD1, folded nl_def]
  have "(path @ nl # s @ nl # l) @ nl # profile = (path' @ nl # s' @ nl # l') @ nl # profile'" using tail by simp
  from ends [OF assms(3,6) this] have pr: "profile = profile'"
    and "(path @ nl # s) @ nl # l = (path' @ nl # s') @ nl # l'" by simp_all
  from ends [OF free(3,4) this(2)] have "l = l'" and "path @ nl # s = path' @ nl # s'" by simp_all
  from ends [OF free(1,2) this(2)] have "path = path'" "s = s'" by simp_all
  then show ?thesis
    using front pr \<open>l = l'\<close> show_bool_inj by (simp add: s_def s'_def l_def l'_def)
qed

lemma Key_eq_iff: "Key ps = Key qs \<longleftrightarrow> sha256 (key_bytes ps) = sha256 (key_bytes qs)"
  using hex_string_inj [of "sha256 (key_bytes ps)" "sha256 (key_bytes qs)"] by (auto simp: Key_def length_sha256)

text \<open>A key is one path element of 64 hexadecimal digits.\<close>

lemma hex_bytes_excl: "CHR ''/'' \<notin> hex_bytes" "CHR ''.'' \<notin> hex_bytes" "CHR 0x00 \<notin> hex_bytes" "CHR 0x0A \<notin> hex_bytes"
proof -
  have "(of_char c :: nat) \<in> {48..57} \<union> {97..102}" if "c \<in> hex_bytes" for c
    using that of_char_hex_digit by (auto simp: hex_bytes_def split: if_splits)
  then show "CHR ''/'' \<notin> hex_bytes" "CHR ''.'' \<notin> hex_bytes" "CHR 0x00 \<notin> hex_bytes" "CHR 0x0A \<notin> hex_bytes"
    by fastforce+
qed

lemma Key_name_ok: "name_ok (Key ps)" "length (Key ps) = 64"
proof -
  show len: "length (Key ps) = 64" by (simp add: Key_def length_hex_string length_sha256)
  have "set (Key ps) \<subseteq> hex_bytes" unfolding Key_def by (rule set_hex_string)
  then have "CHR ''/'' \<notin> set (Key ps)" "CHR 0x00 \<notin> set (Key ps)" using hex_bytes_excl by blast+
  moreover have "Key ps \<noteq> []" "Key ps \<noteq> ''.''" "Key ps \<noteq> ''..''" using len by auto
  ultimately show "name_ok (Key ps)" by (simp add: name_ok_def plain_elem_def elem_ok_def)
qed

end
