(* ===== verification/Eviction.thy ===== *)
theory Eviction
  imports Cache
begin

text \<open>
  What an eviction of the cache (\<^verbatim>\<open>Evict\<close> and \<^verbatim>\<open>dirInfo\<close> of \<^verbatim>\<open>pkg/cache/cache.go\<close>, defined in \<open>Cache\<close>) does:
  what is measured of each directory, which directories are removed, what stays untouched and how much
  remains.
\<close>

section \<open>Measuring a directory\<close>

definition tree :: "world \<Rightarrow> string list \<Rightarrow> string list set" where
  "tree w p = {x. prefix p x \<and> look w x \<noteq> None}"

definition dir_size :: "world \<Rightarrow> string list \<Rightarrow> int" where
  "dir_size w p = total_size w (tree w p)"

definition oldest :: "world \<Rightarrow> int \<Rightarrow> string list \<Rightarrow> int" where
  "oldest w t p = Min (insert t (w_mtime w ` tree w p))"

lemma finite_tree: "finite (tree w p)"
proof -
  have "tree w p \<subseteq> fst ` set (w_fs w)" using look_key by (auto simp: tree_def)
  then show ?thesis by (rule finite_subset) simp
qed

definition info_inv :: "world \<Rightarrow> int \<Rightarrow> string \<Rightarrow> string list set \<Rightarrow> world \<times> item \<Rightarrow> bool" where
  "info_inv w0 t path X s \<longleftrightarrow>
     wf_world w0 \<and> fst s = w0 \<and> finite X
     \<and> snd s = \<lparr>it_path = path, it_size = total_size w0 X, it_mod = Min (insert t (w_mtime w0 ` X))\<rparr>"

lemma info_visit_step:
  assumes inv: "info_inv w0 t path X s" and p: "shape_of w0 p = Some d" "p \<notin> X"
  shows "\<exists>s'. info_visit (abs_path p) (Some d) None s = (WOk, s') \<and> info_inv w0 t path (insert p X) s'"
proof -
  obtain e where e: "look w0 p = Some e" using p(1) by (auto simp: shape_of_def)
  have "Info (abs_path p) (fst s) = Inr (size_at w0 p e, w_mtime w0 p, e)"
    using inv e by (auto intro: Info_abs simp: info_inv_def)
  moreover have "total_size w0 (insert p X) = total_size w0 X + size_at w0 p e"
    using inv p(2) e by (simp add: info_inv_def total_size_def)
  moreover have "Min (insert t (w_mtime w0 ` insert p X))
      = (if w_mtime w0 p < Min (insert t (w_mtime w0 ` X)) then w_mtime w0 p else Min (insert t (w_mtime w0 ` X)))"
  proof -
    have "insert t (w_mtime w0 ` insert p X) = insert (w_mtime w0 p) (insert t (w_mtime w0 ` X))" by auto
    moreover have "Min (insert (w_mtime w0 p) (insert t (w_mtime w0 ` X)))
        = min (w_mtime w0 p) (Min (insert t (w_mtime w0 ` X)))"
      using inv by (intro Min_insert) (auto simp: info_inv_def)
    ultimately show ?thesis by (simp only: min_if)
  qed
  ultimately show ?thesis using inv by (simp add: info_visit_def info_inv_def)
qed

interpretation info: walker fst info_visit S "shape_of w0" "\<lambda>_. False" "info_inv w0 t path" "\<lambda>_ _. False"
  for S w0 t path
proof (unfold_locales, goal_cases)
  case (3 X s p d s')
  then show ?case using info_visit_step [OF 3(1,3,4)] by auto
next
  case (4 X s p d s')
  then show ?case using info_visit_step [OF 4(1,3,4)] by auto
next
  case (5 X s p d e s')
  then show ?case using info_visit_step [OF 5(1,3,4)] by auto
next
  case (6 p d s s')
  show ?case by (simp add: info_visit_def split: sum.split prod.split)
qed (simp_all add: info_inv_def)

lemma dirInfo_spec:
  assumes "wf_world w" and "look w S \<noteq> None"
  shows "dirInfo (abs_path S) w =
    (Inr \<lparr>it_path = abs_path S, it_size = dir_size w S, it_mod = oldest w (w_clock w (w_ticks w)) S\<rparr>,
     w\<lparr>w_ticks := Suc (w_ticks w)\<rparr>)"
proof -
  let ?t = "w_clock w (w_ticks w)" and ?w = "w\<lparr>w_ticks := Suc (w_ticks w)\<rparr>"
  let ?s = "(?w, \<lparr>it_path = abs_path S, it_size = 0, it_mod = ?t\<rparr>)"
  have same: "tree ?w S = tree w S" "dir_size ?w S = dir_size w S" "oldest ?w ?t S = oldest w ?t S"
    by (auto simp: tree_def dir_size_def total_size_def oldest_def size_at_def cong: entry.case_cong)
  have "wf_world ?w" using assms(1) by simp
  then have "info_inv ?w ?t (abs_path S) {} ?s" by (simp add: info_inv_def total_size_def)
  then have out: "info.outcome ?w ?t (abs_path S) (info.visited ?w S) (WalkDir fst info_visit (abs_path S) ?s)"
    using info.WalkDir_outcome [of ?w ?t "abs_path S" ?s S] assms(2) by simp
  have "info.visited ?w S = tree w S"
    by (auto simp: info.visited_def tree_def shape_of_def)
  then show ?thesis
    using out same by (cases "WalkDir fst info_visit (abs_path S) ?s")
      (auto simp: dirInfo_def time_now_def walk_action_def info.outcome_def info_inv_def dir_size_def
        oldest_def split: walk_result.splits)
qed

section \<open>Eviction\<close>

text \<open>A state reached from \<open>w0\<close> by removing the entries named \<open>G\<close> of the directory \<open>R\<close>.\<close>

definition removed :: "world \<Rightarrow> string list \<Rightarrow> string set \<Rightarrow> world \<Rightarrow> bool" where
  "removed w0 R G w \<longleftrightarrow>
     wf_world w \<and> w_umask w = w_umask w0 \<and> w_dir_size w = w_dir_size w0 \<and> w_clock w = w_clock w0
     \<and> w_ticks w0 \<le> w_ticks w
     \<and> (\<forall>x. look w x = (if \<exists>n \<in> G. prefix (R @ [n]) x then None else look w0 x))
     \<and> (\<forall>x. x \<noteq> R \<longrightarrow> (\<forall>n \<in> G. \<not> prefix (R @ [n]) x) \<longrightarrow> w_mtime w x = w_mtime w0 x)"

lemma removed_start: "wf_world w \<Longrightarrow> removed w R {} w"
  by (simp add: removed_def)

lemma removed_tick:
  assumes "removed w0 R G w"
  shows "removed w0 R G (w\<lparr>w_ticks := Suc (w_ticks w)\<rparr>)"
  using assms by (simp add: removed_def)

lemma other_name: "m \<noteq> n \<Longrightarrow> prefix (R @ [n]) x \<Longrightarrow> \<not> prefix (R @ [m]) x"
  by (auto simp: prefix_def)

lemma removed_keeps:
  assumes "removed w0 R G w" and "n \<notin> G" and "prefix (R @ [n]) x"
  shows "look w x = look w0 x" and "w_mtime w x = w_mtime w0 x"
proof -
  have "\<forall>m \<in> G. \<not> prefix (R @ [m]) x" using assms(2,3) other_name by metis
  moreover have "x \<noteq> R" using assms(3) by (auto simp: prefix_def)
  ultimately show "look w x = look w0 x" "w_mtime w x = w_mtime w0 x" using assms(1) by (auto simp: removed_def)
qed

lemma removed_measures:
  assumes "removed w0 R G w" and "n \<notin> G"
  shows "tree w (R @ [n]) = tree w0 (R @ [n])" and "dir_size w (R @ [n]) = dir_size w0 (R @ [n])"
    and "oldest w t (R @ [n]) = oldest w0 t (R @ [n])" and "shape_of w (R @ [n]) = shape_of w0 (R @ [n])"
proof -
  note keep = removed_keeps [OF assms]
  show t: "tree w (R @ [n]) = tree w0 (R @ [n])" using keep(1) by (auto simp: tree_def)
  have "w_dir_size w = w_dir_size w0" using assms(1) by (simp add: removed_def)
  then show "dir_size w (R @ [n]) = dir_size w0 (R @ [n])"
    unfolding dir_size_def total_size_def t
    by (intro sum.cong) (auto simp: tree_def keep(1) size_at_def split: entry.split)
  have "w_mtime w ` tree w0 (R @ [n]) = w_mtime w0 ` tree w0 (R @ [n])"
    by (intro image_cong) (auto simp: tree_def keep(2))
  then show "oldest w t (R @ [n]) = oldest w0 t (R @ [n])" unfolding oldest_def t by simp
  show "shape_of w (R @ [n]) = shape_of w0 (R @ [n])" using keep(1) [of "R @ [n]"] by (simp add: shape_of_def)
qed

lemma removed_root: "removed w0 R G w \<Longrightarrow> look w R = look w0 R"
  by (auto simp: removed_def prefix_def)

lemma removed_step:
  assumes "removed w0 R G w" and "is_dir w0 R" and "name_ok n"
  shows "removed w0 R (insert n G) (snd (RemoveAll (abs_path (R @ [n])) w))"
proof -
  have wf: "wf_world w" using assms(1) by (simp add: removed_def)
  have dir: "is_dir w R" using removed_root [OF assms(1)] assms(2) by (simp add: is_dir_iff)
  show ?thesis
  proof (rule RemoveAll_abs [OF wf reach_child [OF wf dir assms(3)]])
    show "R @ [n] \<noteq> []" by simp
    fix w'
    assume w': "RemoveAll (abs_path (R @ [n])) w = (Inr (), w')" "wf_world w'" "w_umask w' = w_umask w"
      "w_dir_size w' = w_dir_size w"
      "w_clock w' = w_clock w" "w_ticks w \<le> w_ticks w'"
      and look': "\<And>q. look w' q = (if prefix (R @ [n]) q then None else look w q)"
      and mtime': "\<And>q. q \<noteq> R @ [n] \<Longrightarrow> q \<noteq> butlast (R @ [n]) \<Longrightarrow> w_mtime w' q = w_mtime w q"
    have "w_mtime w' x = w_mtime w0 x" if "x \<noteq> R" "\<forall>m \<in> insert n G. \<not> prefix (R @ [m]) x" for x
      using mtime' [of x] that assms(1) by (auto simp: removed_def)
    then show ?thesis using w' look' assms(1) by (simp add: removed_def)
  qed
qed

text \<open>What the first loop records of a directory, and the directories past the maximal age.\<close>

definition it_comps :: "item \<Rightarrow> string list" where
  "it_comps i = clean_comps (it_path i)"

definition measured :: "world \<Rightarrow> string list \<Rightarrow> item \<Rightarrow> bool" where
  "measured w R i \<longleftrightarrow>
     (\<exists>n k. name_ok n \<and> is_dir w (R @ [n]) \<and> it_comps i = R @ [n] \<and> it_path i = abs_path (R @ [n])
        \<and> it_size i = dir_size w (R @ [n]) \<and> w_ticks w \<le> k \<and> it_mod i = oldest w (w_clock w k) (R @ [n]))"

definition aged :: "config \<Rightarrow> int \<Rightarrow> item \<Rightarrow> bool" where
  "aged cfg now i \<longleftrightarrow> now - it_mod i > c_max_age cfg"

definition names_of :: "string list \<Rightarrow> item list \<Rightarrow> string set" where
  "names_of R its = {n. R @ [n] \<in> it_comps ` set its}"

definition sizes :: "item list \<Rightarrow> int" where
  "sizes its = (\<Sum>i \<leftarrow> its. it_size i)"

lemma names_of_simps [simp]:
  "names_of R [] = {}"
  "names_of R (its @ its') = names_of R its \<union> names_of R its'"
  "it_comps i = R @ [n] \<Longrightarrow> names_of R (i # its) = insert n (names_of R its)"
  by (auto simp: names_of_def)

lemma scan_spec:
  assumes root: "\<And>n. name_ok n \<Longrightarrow> Join (c_root cfg) n = abs_path (R @ [n])" and dir: "is_dir w0 R"
    and "removed w0 R G w"
    and "\<And>n k. (n, k) \<in> set es \<Longrightarrow> shape_of w0 (R @ [n]) = Some k \<and> n \<notin> G \<and> name_ok n"
    and "distinct (map fst es)"
  shows "\<exists>its w'. scan cfg now es (items, tot) w
      = ((items @ its, tot + sizes (filter (\<lambda>i. \<not> aged cfg now i) its)), w')
    \<and> removed w0 R (G \<union> names_of R (filter (aged cfg now) its)) w'
    \<and> (\<forall>i \<in> set its. measured w0 R i)
    \<and> map it_comps its = map (\<lambda>(n, k). R @ [n]) (filter (\<lambda>(n, k). k = KDir) es)"
  using assms(3-)
proof (induction es arbitrary: items tot w G)
  case Nil
  then show ?case by (simp add: sizes_def)
next
  case (Cons e es)
  obtain n k where e: "e = (n, k)" by (cases e)
  have dist: "distinct (map fst es)" using Cons.prems(3) by simp
  have n: "shape_of w0 (R @ [n]) = Some k" "n \<notin> G" "name_ok n" using Cons.prems(2) e by auto
  have rest: "shape_of w0 (R @ [m]) = Some j \<and> m \<notin> G \<and> name_ok m" "m \<noteq> n" if "(m, j) \<in> set es" for m j
    using Cons.prems(2,3) that e by force+
  show ?case
  proof (cases "k = KDir")
    case False
    then show ?thesis using Cons.IH [OF Cons.prems(1) rest(1)] Cons.prems(3) e by simp
  next
    case True
    have wf: "wf_world w" using Cons.prems(1) by (simp add: removed_def)
    have d: "is_dir w0 (R @ [n])" using n(1) True by (simp add: is_dir_shape)
    note same = removed_measures [OF Cons.prems(1) n(2)]
    have "look w (R @ [n]) \<noteq> None" using same(4) n(1) by (auto simp: shape_of_def)
    define i where "i = \<lparr>it_path = abs_path (R @ [n]), it_size = dir_size w0 (R @ [n]),
        it_mod = oldest w0 (w_clock w0 (w_ticks w)) (R @ [n])\<rparr>"
    let ?w1 = "w\<lparr>w_ticks := Suc (w_ticks w)\<rparr>"
    have clock: "w_clock w = w_clock w0" "w_ticks w0 \<le> w_ticks w" using Cons.prems(1) by (simp_all add: removed_def)
    have info: "dirInfo (Join (c_root cfg) n) w = (Inr i, ?w1)"
      using dirInfo_spec [OF wf \<open>look w (R @ [n]) \<noteq> None\<close>] root [OF n(3)] same clock by (simp add: i_def)
    have names: "list_all name_ok (R @ [n])" using wf_names [OF wf] \<open>look w (R @ [n]) \<noteq> None\<close> by blast
    then have ic: "it_comps i = R @ [n]" by (simp add: it_comps_def i_def clean_comps_abs)
    have m: "measured w0 R i"
      unfolding measured_def using n(3) d ic clock by (intro exI [of _ n] exI [of _ "w_ticks w"]) (simp add: i_def)
    have r1: "removed w0 R G ?w1" by (rule removed_tick [OF Cons.prems(1)])
    show ?thesis
    proof (cases "aged cfg now i")
      case True
      have r2: "removed w0 R (insert n G) (snd (RemoveAll (it_path i) ?w1))"
        using removed_step [OF r1 dir n(3)] by (simp add: i_def)
      have "shape_of w0 (R @ [m]) = Some j \<and> m \<notin> insert n G \<and> name_ok m" if "(m, j) \<in> set es" for m j
        using rest [OF that] by simp
      from Cons.IH [OF r2 this] dist obtain its w' where
        "scan cfg now es (items @ [i], tot) (snd (RemoveAll (it_path i) ?w1))
           = (((items @ [i]) @ its, tot + sizes (filter (\<lambda>i. \<not> aged cfg now i) its)), w')"
        "removed w0 R (insert n G \<union> names_of R (filter (aged cfg now) its)) w'"
        "\<forall>i \<in> set its. measured w0 R i"
        "map it_comps its = map (\<lambda>(n, k). R @ [n]) (filter (\<lambda>(n, k). k = KDir) es)"
        by (metis (no_types, lifting))
      then show ?thesis
        using info e True \<open>k = KDir\<close> m ic
        by (intro exI [of _ "i # its"] exI [of _ w']) (simp add: aged_def [of cfg now i])
    next
      case False
      from Cons.IH [OF r1 rest(1)] dist obtain its w' where
        "scan cfg now es (items @ [i], tot + it_size i) ?w1
           = (((items @ [i]) @ its, tot + it_size i + sizes (filter (\<lambda>i. \<not> aged cfg now i) its)), w')"
        "removed w0 R (G \<union> names_of R (filter (aged cfg now) its)) w'"
        "\<forall>i \<in> set its. measured w0 R i"
        "map it_comps its = map (\<lambda>(n, k). R @ [n]) (filter (\<lambda>(n, k). k = KDir) es)"
        by (metis (no_types, lifting))
      then show ?thesis
        using info e False \<open>k = KDir\<close> m ic
        by (intro exI [of _ "i # its"] exI [of _ w']) (simp add: aged_def [of cfg now i] sizes_def)
    qed
  qed
qed

lemma measured_name: "measured w R i \<Longrightarrow> \<exists>n. name_ok n \<and> it_comps i = R @ [n] \<and> it_path i = abs_path (R @ [n])"
  by (auto simp: measured_def)

lemma shrink_spec:
  assumes dir: "is_dir w0 R" and "removed w0 R G w" and "\<forall>i \<in> set its. measured w0 R i"
  shows "\<exists>k \<le> length its. removed w0 R (G \<union> names_of R (take k its)) (shrink cfg its tot w)
    \<and> (k = length its \<or> tot - sizes (take k its) \<le> c_max_size cfg)
    \<and> (k = 0 \<or> c_max_size cfg < tot - sizes (take (k - 1) its))"
  using assms(2,3)
proof (induction its arbitrary: G tot w)
  case Nil
  then show ?case by simp
next
  case (Cons i its)
  show ?case
  proof (cases "tot \<le> c_max_size cfg")
    case True
    then show ?thesis using Cons.prems(1) by (intro exI [of _ 0]) (simp add: sizes_def)
  next
    case False
    obtain n where n: "name_ok n" "it_comps i = R @ [n]" "it_path i = abs_path (R @ [n])"
      using measured_name Cons.prems(2) by (meson list.set_intros(1))
    have "removed w0 R (insert n G) (snd (RemoveAll (it_path i) w))"
      using removed_step [OF Cons.prems(1) dir n(1)] n(3) by simp
    then obtain k where "k \<le> length its"
      "removed w0 R (insert n G \<union> names_of R (take k its)) (shrink cfg its (tot - it_size i) (snd (RemoveAll (it_path i) w)))"
      "k = length its \<or> tot - it_size i - sizes (take k its) \<le> c_max_size cfg"
      "k = 0 \<or> c_max_size cfg < tot - it_size i - sizes (take (k - 1) its)"
      using Cons.IH Cons.prems(2) by (metis list.set_intros(2))
    then show ?thesis using False n(2)
      by (intro exI [of _ "Suc k"]) (cases k; simp add: sizes_def algebra_simps)
  qed
qed

lemma Evict_steps:
  assumes wf: "wf_world w" and root: "IsAbs (c_root cfg)" "Clean (c_root cfg) = c_root cfg" "R = clean_comps (c_root cfg)"
    and dir: "is_dir w R" and srt: "\<And>its. mset (srt its) = mset its"
  shows "\<exists>its k w'. Evict srt cfg w = (Inr (), w')
    \<and> (\<forall>i \<in> set its. measured w R i) \<and> distinct (map it_comps its)
    \<and> names_of R its = {n. is_dir w (R @ [n])}
    \<and> removed w R (names_of R (filter (aged cfg (w_clock w (w_ticks w))) its) \<union> names_of R (take k (srt its))) w'
    \<and> (k \<ge> length its
       \<or> sizes (filter (\<lambda>i. \<not> aged cfg (w_clock w (w_ticks w)) i) its) - sizes (take k (srt its)) \<le> c_max_size cfg)
    \<and> (sizes (filter (\<lambda>i. \<not> aged cfg (w_clock w (w_ticks w)) i) its) \<le> c_max_size cfg \<longrightarrow> k = 0)
    \<and> k \<le> length its
    \<and> (k = 0 \<or> c_max_size cfg < sizes (filter (\<lambda>i. \<not> aged cfg (w_clock w (w_ticks w)) i) its) - sizes (take (k - 1) (srt its)))"
proof -
  let ?now = "w_clock w (w_ticks w)" and ?w1 = "w\<lparr>w_ticks := Suc (w_ticks w)\<rparr>"
  have abs: "c_root cfg = abs_path R" using Clean_abs_path [OF root(1)] root(2,3) by simp
  have names: "list_all name_ok R" using wf_names [OF wf] dir by (auto simp: is_dir_iff)
  have join: "Join (c_root cfg) n = abs_path (R @ [n])" if "name_ok n" for n
    using Join_abs [of R n] names that by (simp add: abs)
  have r1: "removed w R {} ?w1" by (rule removed_tick [OF removed_start [OF wf]])
  have "is_dir ?w1 R" using dir by (simp add: is_dir_iff)
  then have rd: "ReadDir (c_root cfg) ?w1 = Inr (dir_list (w_fs w) R)"
    using ReadDir_abs [of ?w1 R] wf by (simp add: abs)
  let ?es = "dir_list (w_fs w) R"
  note list = dir_list_spec [OF wf, of R]
  have es: "shape_of w (R @ [n]) = Some k \<and> n \<notin> {} \<and> name_ok n" if "(n, k) \<in> set ?es" for n k
  proof -
    have "shape_of w (R @ [n]) = Some k" using that list(2) by simp
    then show ?thesis using wf_parent [OF wf, of "R @ [n]"] by (auto simp: shape_of_def)
  qed
  from scan_spec [OF join dir r1 es list(1), of ?now "[]" 0] obtain its w2 where
    scan: "scan cfg ?now ?es ([], 0) ?w1 = ((its, sizes (filter (\<lambda>i. \<not> aged cfg ?now i) its)), w2)"
    and r2: "removed w R (names_of R (filter (aged cfg ?now) its)) w2"
    and meas: "\<forall>i \<in> set its. measured w R i"
    and comps: "map it_comps its = map (\<lambda>(n, k). R @ [n]) (filter (\<lambda>(n, k). k = KDir) ?es)"
    by auto
  have "distinct (map (\<lambda>(n, k). R @ [n]) (filter (\<lambda>(n, k). k = KDir) ?es))"
  proof -
    have "distinct (map fst (filter (\<lambda>(n, k). k = KDir) ?es))" using list(1) by (rule distinct_map_filter)
    then have "distinct (map (\<lambda>n. R @ [n]) (map fst (filter (\<lambda>(n, k). k = KDir) ?es)))"
      by (simp add: distinct_map inj_on_def comp_def)
    moreover have "(\<lambda>(n, k :: kind). R @ [n]) = (\<lambda>n. R @ [n]) \<circ> fst" by auto
    ultimately show ?thesis by (simp only: map_map)
  qed
  then have dist: "distinct (map it_comps its)" using comps by simp
  have names_its: "names_of R its = {n. is_dir w (R @ [n])}"
  proof -
    have "names_of R its = {n. R @ [n] \<in> set (map it_comps its)}" by (auto simp: names_of_def)
    also have "\<dots> = {n. (n, KDir) \<in> set ?es}" unfolding comps by auto
    finally show ?thesis using list(2) by (simp add: is_dir_shape)
  qed
  let ?tot = "sizes (filter (\<lambda>i. \<not> aged cfg ?now i) its)"
  have ev: "Evict srt cfg w = (Inr (), if ?tot \<le> c_max_size cfg then w2 else shrink cfg (srt its) ?tot w2)"
    using rd scan by (simp add: Evict_def time_now_def)
  show ?thesis
  proof (cases "?tot \<le> c_max_size cfg")
    case True
    then show ?thesis
      using ev meas dist names_its r2 by (intro exI [of _ its] exI [of _ 0] exI [of _ w2]) (simp add: sizes_def)
  next
    case False
    have "set (srt its) = set its" using srt by (metis set_mset_mset)
    then obtain k where "removed w R (names_of R (filter (aged cfg ?now) its) \<union> names_of R (take k (srt its))) (shrink cfg (srt its) ?tot w2)"
      "k = length (srt its) \<or> ?tot - sizes (take k (srt its)) \<le> c_max_size cfg"
      "k \<le> length (srt its)" "k = 0 \<or> c_max_size cfg < ?tot - sizes (take (k - 1) (srt its))"
      using shrink_spec [OF dir r2, of "srt its" cfg ?tot] meas by auto
    moreover have "length (srt its) = length its" using srt by (metis size_mset)
    ultimately show ?thesis using ev meas dist names_its False by (intro exI [of _ its] exI [of _ k]) auto
  qed
qed

text \<open>The size of a cache: what the directories below its root hold.\<close>

definition cache_dirs :: "world \<Rightarrow> string list \<Rightarrow> string set" where
  "cache_dirs w R = {n. is_dir w (R @ [n])}"

definition cache_size :: "world \<Rightarrow> string list \<Rightarrow> int" where
  "cache_size w R = (\<Sum>n \<in> cache_dirs w R. dir_size w (R @ [n]))"

lemma removed_dirs:
  assumes "removed w R G w'"
  shows "cache_dirs w' R = cache_dirs w R - G"
    and "n \<in> cache_dirs w' R \<Longrightarrow> dir_size w' (R @ [n]) = dir_size w (R @ [n])"
proof -
  have gone: "shape_of w' (R @ [n]) = None" if "n \<in> G" for n
    using assms that by (auto simp: removed_def shape_of_def)
  have "n \<in> cache_dirs w' R \<longleftrightarrow> n \<in> cache_dirs w R - G" for n
    using gone [of n] removed_measures(4) [OF assms, of n] by (cases "n \<in> G") (simp_all add: cache_dirs_def is_dir_shape)
  then show dirs: "cache_dirs w' R = cache_dirs w R - G" by blast
  show "dir_size w' (R @ [n]) = dir_size w (R @ [n])" if "n \<in> cache_dirs w' R" for n
    using removed_measures(2) [OF assms] that dirs by auto
qed

lemma finite_names_of: "finite (names_of R its)"
proof -
  have "names_of R its \<subseteq> last ` it_comps ` set its"
  proof
    fix n
    assume "n \<in> names_of R its"
    then show "n \<in> last ` it_comps ` set its" by (intro image_eqI [of _ _ "R @ [n]"]) (auto simp: names_of_def)
  qed
  then show ?thesis by (rule finite_subset) simp
qed

lemma measured_sizes:
  assumes "\<forall>i \<in> set its. measured w R i" and "distinct (map it_comps its)"
  shows "sizes its = (\<Sum>n \<in> names_of R its. dir_size w (R @ [n]))"
  using assms
proof (induction its)
  case (Cons i its)
  then have "measured w R i" by simp
  then obtain n where n: "it_comps i = R @ [n]" "it_size i = dir_size w (R @ [n])" by (auto simp: measured_def)
  then have "n \<notin> names_of R its" using Cons.prems(2) by (auto simp: names_of_def)
  then show ?case using Cons n finite_names_of by (simp add: sizes_def)
qed (simp add: sizes_def)

lemma sizes_take_drop: "sizes its = sizes (take k its) + sizes (drop k its)"
  unfolding sizes_def by (metis append_take_drop_id map_append sum_list_append)

text \<open>Directories that are not past the maximal age, whatever clock reading their scan starts from.\<close>

definition fresh :: "config \<Rightarrow> world \<Rightarrow> string list \<Rightarrow> bool" where
  "fresh cfg w p \<longleftrightarrow> (\<forall>x \<in> tree w p. w_clock w (w_ticks w) - w_mtime w x \<le> c_max_age cfg)"

lemma fresh_not_aged:
  assumes "measured w R i" and "\<And>n. is_dir w (R @ [n]) \<Longrightarrow> fresh cfg w (R @ [n])" and "mono (w_clock w)"
    and "0 \<le> c_max_age cfg"
  shows "\<not> aged cfg (w_clock w (w_ticks w)) i"
proof -
  obtain n k where i: "is_dir w (R @ [n])" "w_ticks w \<le> k" "it_mod i = oldest w (w_clock w k) (R @ [n])"
    using assms(1) by (auto simp: measured_def)
  have "oldest w (w_clock w k) (R @ [n]) \<in> insert (w_clock w k) (w_mtime w ` tree w (R @ [n]))"
    unfolding oldest_def by (rule Min_in) (auto simp: finite_tree)
  moreover have "w_clock w (w_ticks w) \<le> w_clock w k" using assms(3) i(2) by (rule monoD)
  ultimately show ?thesis using assms(2) [OF i(1)] assms(4) i(3) by (auto simp: aged_def fresh_def)
qed

text \<open>
  C17. When no directory of the cache is past the maximal age, an eviction leaves at most the configured size:
  the directories that remain below the cache root together hold no more than the maximum, whatever order the
  sort gives to directories of equal age.
\<close>

theorem Evict_bounded:
  assumes "wf_world w" and "IsAbs (c_root cfg)" and "Clean (c_root cfg) = c_root cfg"
    and "is_dir w (clean_comps (c_root cfg))" and "\<And>its. mset (srt its) = mset its"
    and "mono (w_clock w)" and "0 \<le> c_max_age cfg" and "0 \<le> c_max_size cfg"
    and "\<And>n. is_dir w (clean_comps (c_root cfg) @ [n]) \<Longrightarrow> fresh cfg w (clean_comps (c_root cfg) @ [n])"
  shows "\<exists>w'. Evict srt cfg w = (Inr (), w') \<and> cache_size w' (clean_comps (c_root cfg)) \<le> c_max_size cfg"
proof -
  let ?R = "clean_comps (c_root cfg)"
  obtain its k w' where ev: "Evict srt cfg w = (Inr (), w')" and meas: "\<forall>i \<in> set its. measured w ?R i"
    and dist: "distinct (map it_comps its)" and dirs: "names_of ?R its = {n. is_dir w (?R @ [n])}"
    and rem: "removed w ?R (names_of ?R (filter (aged cfg (w_clock w (w_ticks w))) its) \<union> names_of ?R (take k (srt its))) w'"
    and small: "k \<ge> length its
      \<or> sizes (filter (\<lambda>i. \<not> aged cfg (w_clock w (w_ticks w)) i) its) - sizes (take k (srt its)) \<le> c_max_size cfg"
    using Evict_steps [OF assms(1-3) refl assms(4,5)] by blast
  have "\<not> aged cfg (w_clock w (w_ticks w)) i" if "i \<in> set its" for i
    using fresh_not_aged [OF _ assms(9,6,7)] meas that by blast
  then have none: "filter (aged cfg (w_clock w (w_ticks w))) its = []"
    "filter (\<lambda>i. \<not> aged cfg (w_clock w (w_ticks w)) i) its = its" by (auto simp: filter_empty_conv filter_id_conv)
  let ?s = "srt its"
  have perm: "mset ?s = mset its" by (rule assms(5))
  have s: "\<forall>i \<in> set ?s. measured w ?R i" "distinct (map it_comps ?s)" "length ?s = length its" "sizes ?s = sizes its"
      "names_of ?R ?s = names_of ?R its"
  proof -
    show "\<forall>i \<in> set ?s. measured w ?R i" "names_of ?R ?s = names_of ?R its" using meas mset_eq_setD [OF perm] by (simp_all add: names_of_def)
    show "length ?s = length its" using perm by (rule mset_eq_length)
    have "mset (map it_comps ?s) = mset (map it_comps its)" using perm by simp
    then show "distinct (map it_comps ?s)" using dist by (metis mset_eq_imp_distinct_iff)
    show "sizes ?s = sizes its" using perm unfolding sizes_def by (metis mset_map sum_mset_sum_list)
  qed
  have split: "distinct (map it_comps (take k ?s) @ map it_comps (drop k ?s))"
    using s(2) by (metis append_take_drop_id map_append)
  have remaining: "cache_dirs w' ?R = names_of ?R (drop k ?s)"
  proof -
    have "names_of ?R its = names_of ?R (take k ?s) \<union> names_of ?R (drop k ?s)"
      using s(5) by (metis append_take_drop_id names_of_simps(2))
    moreover have "names_of ?R (take k ?s) \<inter> names_of ?R (drop k ?s) = {}"
      using split by (auto simp: names_of_def)
    ultimately show ?thesis using removed_dirs(1) [OF rem] none dirs by (auto simp: cache_dirs_def)
  qed
  have "cache_size w' ?R = (\<Sum>n \<in> names_of ?R (drop k ?s). dir_size w (?R @ [n]))"
    unfolding cache_size_def remaining [symmetric] using removed_dirs(2) [OF rem] by (intro sum.cong) auto
  also have "\<dots> = sizes (drop k ?s)"
    using s(1) split by (intro measured_sizes [symmetric]) (auto dest: in_set_dropD)
  also have "\<dots> \<le> c_max_size cfg"
    using small none s(3,4) sizes_take_drop [of ?s k] assms(8) by (auto simp: sizes_def)
  finally show ?thesis using ev by blast
qed

section \<open>What an eviction removes and keeps\<close>

lemma measured_aged:
  assumes "measured w R i" and "it_comps i = R @ [n]" and "\<not> fresh cfg w (R @ [n])"
  shows "aged cfg (w_clock w (w_ticks w)) i"
proof -
  obtain k where i: "it_mod i = oldest w (w_clock w k) (R @ [n])"
    using assms(1,2) by (auto simp: measured_def)
  obtain x where x: "x \<in> tree w (R @ [n])" "w_clock w (w_ticks w) - w_mtime w x > c_max_age cfg"
    using assms(3) by (auto simp: fresh_def not_le)
  have "oldest w (w_clock w k) (R @ [n]) \<le> w_mtime w x"
    unfolding oldest_def using x(1) by (intro Min_le) (auto simp: finite_tree)
  then show ?thesis using x(2) i by (simp add: aged_def)
qed

lemma names_of_mem: "n \<in> names_of R its \<longleftrightarrow> (\<exists>i \<in> set its. it_comps i = R @ [n])"
  by (force simp: names_of_def)

text \<open>A cache with room: nothing in it is past the maximal age and it holds no more than the maximal size. Nothing
  is evicted from it.\<close>

definition cache_roomy :: "config \<Rightarrow> world \<Rightarrow> bool" where
  "cache_roomy cfg w \<longleftrightarrow>
     (\<forall>n \<in> cache_dirs w (clean_comps (c_root cfg)). fresh cfg w (clean_comps (c_root cfg) @ [n]))
     \<and> cache_size w (clean_comps (c_root cfg)) \<le> c_max_size cfg"

lemma Evict_idle:
  assumes "wf_world w" and "IsAbs (c_root cfg)" and "Clean (c_root cfg) = c_root cfg"
    and "is_dir w (clean_comps (c_root cfg))" and "\<And>its. mset (srt its) = mset its"
    and "mono (w_clock w)" and "0 \<le> c_max_age cfg" and "cache_roomy cfg w" and "Evict srt cfg w = (r, w')"
  shows "look w' x = look w x"
proof -
  let ?R = "clean_comps (c_root cfg)" and ?aged = "aged cfg (w_clock w (w_ticks w))"
  obtain its k w2 where ev: "Evict srt cfg w = (Inr (), w2)" and meas: "\<forall>i \<in> set its. measured w ?R i"
    and dist: "distinct (map it_comps its)" and dirs: "names_of ?R its = {n. is_dir w (?R @ [n])}"
    and rem: "removed w ?R (names_of ?R (filter ?aged its) \<union> names_of ?R (take k (srt its))) w2"
    and idle: "sizes (filter (\<lambda>i. \<not> ?aged i) its) \<le> c_max_size cfg \<longrightarrow> k = 0"
    using Evict_steps [OF assms(1-3) refl assms(4,5)] by blast
  have "fresh cfg w (?R @ [n])" if "is_dir w (?R @ [n])" for n
    using assms(8) that by (simp add: cache_roomy_def cache_dirs_def)
  then have "\<not> ?aged i" if "i \<in> set its" for i using fresh_not_aged [OF _ _ assms(6,7)] meas that by blast
  then have none: "filter ?aged its = []" "filter (\<lambda>i. \<not> ?aged i) its = its"
    by (auto simp: filter_empty_conv filter_id_conv)
  have "sizes its = cache_size w ?R"
    using measured_sizes [OF meas dist] dirs by (simp add: cache_size_def cache_dirs_def)
  then have "k = 0" using idle none assms(8) by (simp add: cache_roomy_def)
  then show ?thesis using rem none ev assms(9) by (simp add: removed_def)
qed

lemma Evict_removes:
  assumes "wf_world w" and "IsAbs (c_root cfg)" and "Clean (c_root cfg) = c_root cfg"
    and "is_dir w (clean_comps (c_root cfg))" and "\<And>its. mset (srt its) = mset its"
  obtains w' G where "Evict srt cfg w = (Inr (), w')" and "G \<subseteq> cache_dirs w (clean_comps (c_root cfg))"
    and "{n \<in> cache_dirs w (clean_comps (c_root cfg)). \<not> fresh cfg w (clean_comps (c_root cfg) @ [n])} \<subseteq> G"
    and "removed w (clean_comps (c_root cfg)) G w'"
proof -
  let ?R = "clean_comps (c_root cfg)" and ?aged = "aged cfg (w_clock w (w_ticks w))"
  obtain its k w' where ev: "Evict srt cfg w = (Inr (), w')" and meas: "\<forall>i \<in> set its. measured w ?R i"
    and dirs: "names_of ?R its = {n. is_dir w (?R @ [n])}"
    and rem: "removed w ?R (names_of ?R (filter ?aged its) \<union> names_of ?R (take k (srt its))) w'"
    using Evict_steps [OF assms(1-3) refl assms(4,5)] by blast
  let ?G = "names_of ?R (filter ?aged its) \<union> names_of ?R (take k (srt its))"
  have "set (take k (srt its)) \<subseteq> set its" using set_take_subset assms(5) by (metis set_mset_mset)
  then have "?G \<subseteq> names_of ?R its" by (auto simp: names_of_def)
  moreover have "n \<in> names_of ?R (filter ?aged its)" if n: "n \<in> names_of ?R its" "\<not> fresh cfg w (?R @ [n])" for n
  proof -
    obtain i where i: "i \<in> set its" "it_comps i = ?R @ [n]" using n(1) by (auto simp: names_of_mem)
    then have "?aged i" using meas measured_aged n(2) by blast
    then show ?thesis using i by (auto simp: names_of_mem)
  qed
  moreover have "names_of ?R its = cache_dirs w ?R" using dirs by (simp add: cache_dirs_def)
  ultimately have "?G \<subseteq> cache_dirs w ?R" "{n \<in> cache_dirs w ?R. \<not> fresh cfg w (?R @ [n])} \<subseteq> ?G" by blast+
  then show ?thesis by (rule that [OF ev _ _ rem])
qed

text \<open>
  C18. An eviction removes whole cache entries and nothing else: directories directly below the cache root,
  among them every one that holds a path past the maximal age. Every other path of the file system, inside
  and outside the cache, is as before, and the eviction reports no error.
\<close>

theorem Evict_frame:
  assumes "wf_world w" and "IsAbs (c_root cfg)" and "Clean (c_root cfg) = c_root cfg"
    and "is_dir w (clean_comps (c_root cfg))" and "\<And>its. mset (srt its) = mset its"
  shows "\<exists>w' G. Evict srt cfg w = (Inr (), w') \<and> G \<subseteq> cache_dirs w (clean_comps (c_root cfg))
    \<and> {n \<in> cache_dirs w (clean_comps (c_root cfg)). \<not> fresh cfg w (clean_comps (c_root cfg) @ [n])} \<subseteq> G
    \<and> (\<forall>x. look w' x = (if \<exists>n \<in> G. prefix (clean_comps (c_root cfg) @ [n]) x then None else look w x))"
  by (rule Evict_removes [OF assms]) (auto simp: removed_def)

section \<open>Evaluation on a concrete file system\<close>

lemma tree_code [code]: "tree w p = set (filter (prefix p) (map fst (w_fs w)))"
  by (auto simp: tree_def look_def map_of_eq_None_iff)

lemma cache_dirs_code [code]:
  "cache_dirs w R = set (map last (filter (\<lambda>x. x \<noteq> [] \<and> butlast x = R \<and> is_dir w x) (map fst (w_fs w))))"
proof -
  have "n \<in> set (map last (filter (\<lambda>x. x \<noteq> [] \<and> butlast x = R \<and> is_dir w x) (map fst (w_fs w))))"
    if "is_dir w (R @ [n])" for n
  proof -
    have "R @ [n] \<in> set (map fst (w_fs w))" using that by (force simp: is_dir_iff look_def dest: map_of_SomeD)
    then show ?thesis using that by (auto intro!: image_eqI [of _ _ "R @ [n]"])
  qed
  moreover have "is_dir w (R @ [last x])" if "x \<noteq> []" "butlast x = R" "is_dir w x" for x
    using that by (metis append_butlast_last_id)
  ultimately show ?thesis by (auto simp: cache_dirs_def)
qed

lemma fresh_code [code]:
  "fresh cfg w p \<longleftrightarrow>
     list_all (\<lambda>x. prefix p x \<longrightarrow> w_clock w (w_ticks w) - w_mtime w x \<le> c_max_age cfg) (map fst (w_fs w))"
  by (auto simp: fresh_def tree_code list_all_iff)

text \<open>Three cached entries of 60 bytes and their directory; the first is two days old.\<close>

definition example_config :: config where
  "example_config = \<lparr>c_root = ''/cache'', c_max_size = 100, c_max_age = 86400\<rparr>"

definition cache_world :: world where
  "cache_world =
     example_world\<lparr>w_fs :=
       [([], EDir 493), ([''cache''], EDir 488),
        ([''cache'', ''a''], EDir 488), ([''cache'', ''a'', ''f''], EFile (replicate 60 (CHR ''x'')) 292),
        ([''cache'', ''b''], EDir 488), ([''cache'', ''b'', ''f''], EFile (replicate 60 (CHR ''y'')) 292),
        ([''cache'', ''c''], EDir 488), ([''cache'', ''c'', ''f''], EFile (replicate 60 (CHR ''z'')) 292)],
       w_mtime := (\<lambda>x. if prefix [''cache'', ''a''] x then 0
                      else if prefix [''cache'', ''b''] x then 170000 else 172000),
       w_clock := (\<lambda>_. 172800), w_dir_size := (\<lambda>_. 0)\<rparr>"

lemma cache_world_facts:
  "wf_world cache_world" "IsAbs (c_root example_config)" "Clean (c_root example_config) = c_root example_config"
  "clean_comps (c_root example_config) = [''cache'']" "is_dir cache_world [''cache'']"
proof -
  show "wf_world cache_world" unfolding wf_world_code by code_simp
qed (code_simp+)

text \<open>
  The size limit can be missed. With one entry past the maximal age, and sorting by modification time, the
  eviction of this cache subtracts the size of the old entry twice, once when it is removed for its age and
  again in the second loop; it stops early and the cache keeps more than its maximal size.
\<close>

theorem Evict_overshoots:
  "fst (Evict (sort_key it_mod) example_config cache_world) = Inr ()
   \<and> cache_size (snd (Evict (sort_key it_mod) example_config cache_world)) [''cache''] = 120
   \<and> c_max_size example_config = 100"
  by (intro conjI; code_simp)

theorem Evict_frame_witness:
  "\<exists>w'. Evict id example_config cache_world = (Inr (), w')
     \<and> look w' [''cache'', ''a'', ''f''] = None \<and> look w' [''cache''] = Some (EDir 488)"
proof -
  obtain w' G where ev: "Evict id example_config cache_world = (Inr (), w')"
    and G: "G \<subseteq> cache_dirs cache_world [''cache'']"
      "{n \<in> cache_dirs cache_world [''cache'']. \<not> fresh example_config cache_world ([''cache''] @ [n])} \<subseteq> G"
    and look': "\<And>x. look w' x = (if \<exists>n \<in> G. prefix ([''cache''] @ [n]) x then None else look cache_world x)"
    using Evict_frame [OF cache_world_facts(1-3), of id] cache_world_facts(4,5) by auto
  have "''a'' \<in> cache_dirs cache_world [''cache'']" "\<not> fresh example_config cache_world ([''cache''] @ [''a''])"
    "look cache_world [''cache''] = Some (EDir 488)" by code_simp+
  then have "''a'' \<in> G" using G by blast
  then show ?thesis using ev look' \<open>look cache_world [''cache''] = _\<close> by force
qed

theorem Evict_bounded_witness:
  "\<exists>w'. Evict id (example_config\<lparr>c_max_age := 200000\<rparr>) cache_world = (Inr (), w')
     \<and> cache_size w' [''cache''] \<le> 100 \<and> cache_size cache_world [''cache''] = 180"
proof -
  let ?cfg = "example_config\<lparr>c_max_age := 200000\<rparr>"
  have "cache_size cache_world [''cache''] = 180" by code_simp
  moreover have "\<forall>n \<in> cache_dirs cache_world [''cache'']. fresh ?cfg cache_world ([''cache''] @ [n])" by code_simp
  then have "fresh ?cfg cache_world ([''cache''] @ [n])" if "is_dir cache_world ([''cache''] @ [n])" for n
    using that by (auto simp: cache_dirs_def)
  moreover have "mono (w_clock cache_world)" by (simp add: cache_world_def mono_def)
  moreover have "c_max_size ?cfg = 100" "c_max_age ?cfg = 200000" "c_root ?cfg = c_root example_config"
    by (simp_all add: example_config_def)
  ultimately show ?thesis
    using Evict_bounded [OF cache_world_facts(1), of ?cfg id] cache_world_facts(2-5) by simp
qed

end
