(* ===== verification/EvictOrder.thy ===== *)
theory EvictOrder
  imports Eviction
begin

text \<open>
  In which order an eviction removes what is not past the maximal age, and when it stops: the sort of
  \<^verbatim>\<open>Evict\<close> in \<^verbatim>\<open>pkg/cache/cache.go\<close>, an argument elsewhere, leaves its items in the order of their times here.
\<close>

section \<open>Times\<close>

text \<open>Nothing below the path was modified after the clock reading the eviction starts with.\<close>

lemma oldest_path:
  assumes "mono (w_clock w)" and "w_ticks w \<le> k" and "look w p \<noteq> None"
    and past: "\<And>x. prefix p x \<Longrightarrow> look w x \<noteq> None \<Longrightarrow> w_mtime w x \<le> w_clock w (w_ticks w)"
  obtains x where "x \<in> tree w p" and "oldest w (w_clock w k) p = w_mtime w x" and "\<And>y. y \<in> tree w p \<Longrightarrow> w_mtime w x \<le> w_mtime w y"
proof -
  let ?M = "w_mtime w ` tree w p"
  have fin: "finite ?M" using finite_tree by simp
  have ne: "?M \<noteq> {}" using assms(3) by (auto simp: tree_def)
  obtain x where x: "x \<in> tree w p" "Min ?M = w_mtime w x" using Min_in [OF fin ne] by auto
  have "w_mtime w x \<le> w_clock w (w_ticks w)" using x(1) past by (auto simp: tree_def)
  also have "\<dots> \<le> w_clock w k" by (rule monoD [OF assms(1,2)])
  finally have "oldest w (w_clock w k) p = w_mtime w x"
    using fin ne x(2) by (simp add: oldest_def)
  moreover have "w_mtime w x \<le> w_mtime w y" if "y \<in> tree w p" for y using Min_le [OF fin, of "w_mtime w y"] that x(2) by simp
  ultimately show ?thesis using that x(1) by blast
qed

lemma dir_size_nonneg: "(\<And>x. 0 \<le> w_dir_size w x) \<Longrightarrow> 0 \<le> dir_size w p"
  by (auto simp: dir_size_def total_size_def size_at_def intro!: sum_nonneg split: entry.splits option.splits)

section \<open>Order\<close>

lemma name_member:
  assumes "distinct (map it_comps its)" and "i \<in> set its" and "it_comps i = R @ [n]" and "set xs \<subseteq> set its"
  shows "n \<in> names_of R xs \<longleftrightarrow> i \<in> set xs"
proof -
  have "inj_on it_comps (set its)" using assms(1) by (simp add: distinct_map)
  then have "j = i" if "j \<in> set xs" "it_comps j = R @ [n]" for j using that assms(2-4) by (metis inj_onD subsetD)
  then show ?thesis using assms(3) by (auto simp: names_of_mem)
qed

lemma sorted_take_drop:
  "sorted_wrt P its \<Longrightarrow> i \<in> set (take k its) \<Longrightarrow> j \<in> set (drop k its) \<Longrightarrow> P i j"
  by (metis append_take_drop_id sorted_wrt_append)

lemma sorted_last:
  assumes "sorted_wrt P its" and "0 < k" and "k \<le> length its" and "i \<in> set (take k its)"
  shows "i = its ! (k - 1) \<or> P i (its ! (k - 1))"
proof -
  obtain m where m: "m < k" "i = its ! m" using assms(3,4) by (auto simp: in_set_conv_nth)
  then have "m = k - 1 \<or> m < k - 1" by auto
  moreover have "k - 1 < length its" using assms(2,3) by simp
  ultimately show ?thesis using m sorted_wrt_nth_less [OF assms(1), of m "k - 1"] by blast
qed

text \<open>The measure of a directory nothing in which is newer than the clock: the time of its oldest path.\<close>

lemma measured_oldest:
  assumes "measured w R i" and "it_comps i = R @ [n]" and "mono (w_clock w)"
    and "\<And>x. look w x \<noteq> None \<Longrightarrow> w_mtime w x \<le> w_clock w (w_ticks w)"
  obtains x where "x \<in> tree w (R @ [n])" and "it_mod i = w_mtime w x" and "\<And>y. y \<in> tree w (R @ [n]) \<Longrightarrow> w_mtime w x \<le> w_mtime w y"
proof -
  obtain k where k: "is_dir w (R @ [n])" "w_ticks w \<le> k" "it_mod i = oldest w (w_clock w k) (R @ [n])"
    using assms(1,2) by (auto simp: measured_def)
  then have "look w (R @ [n]) \<noteq> None" by (auto simp: is_dir_iff)
  from oldest_path [OF assms(3) k(2) this] assms(4) show ?thesis using that unfolding k(3) by blast
qed

lemma aged_iff_fresh:
  assumes "measured w R i" and "it_comps i = R @ [n]" and "mono (w_clock w)"
    and "\<And>x. look w x \<noteq> None \<Longrightarrow> w_mtime w x \<le> w_clock w (w_ticks w)"
  shows "aged cfg (w_clock w (w_ticks w)) i \<longleftrightarrow> \<not> fresh cfg w (R @ [n])"
proof -
  obtain x where "x \<in> tree w (R @ [n])" "it_mod i = w_mtime w x" "\<And>y. y \<in> tree w (R @ [n]) \<Longrightarrow> w_mtime w x \<le> w_mtime w y"
    using measured_oldest [OF assms] by metis
  then show ?thesis by (fastforce simp: aged_def fresh_def)
qed

lemma measured_le:
  assumes "measured w R i" and "measured w R j" and "it_comps i = R @ [a]" and "it_comps j = R @ [b]" and "mono (w_clock w)"
    and "\<And>x. look w x \<noteq> None \<Longrightarrow> w_mtime w x \<le> w_clock w (w_ticks w)" and "it_mod i \<le> it_mod j"
  shows "\<exists>x \<in> tree w (R @ [a]). \<forall>y \<in> tree w (R @ [b]). w_mtime w x \<le> w_mtime w y"
proof -
  obtain x where x: "x \<in> tree w (R @ [a])" "it_mod i = w_mtime w x" using measured_oldest [OF assms(1,3,5,6)] by metis
  obtain z where "it_mod j = w_mtime w z" "\<And>y. y \<in> tree w (R @ [b]) \<Longrightarrow> w_mtime w z \<le> w_mtime w y"
    using measured_oldest [OF assms(2,4,5,6)] by metis
  then show ?thesis using x assms(7) by (intro bexI [of _ x]) fastforce+
qed

text \<open>What the second loop leaves, with the last directory it removed.\<close>

lemma kept_size:
  assumes nonneg: "\<And>x. 0 \<le> w_dir_size w x" and meas: "\<forall>i \<in> set its. measured w R i" and dist: "distinct (map it_comps its)"
    and rem: "removed w R (names_of R (filter P its) \<union> names_of R (take k its)) w'"
    and dirs: "names_of R its = cache_dirs w R"
  shows "sizes (filter (\<lambda>i. \<not> P i) (drop k its)) \<le> cache_size w' R"
proof -
  let ?L = "filter (\<lambda>i. \<not> P i) (drop k its)"
  have L: "set ?L \<subseteq> set its" using set_drop_subset [of k its] by auto
  have apart: "set (take k its) \<inter> set (drop k its) = {}" using dist by (intro set_take_disj_set_drop_if_distinct) (auto simp: distinct_map)
  have "n \<in> cache_dirs w' R" if n: "n \<in> names_of R ?L" for n
  proof -
    obtain i where i: "i \<in> set ?L" "it_comps i = R @ [n]" using n by (auto simp: names_of_mem)
    then have "i \<in> set its" using L by blast
    note mem = name_member [OF dist this i(2)]
    have "i \<notin> set (take k its)" "i \<notin> set (filter P its)" using i(1) apart by auto
    then have "n \<notin> names_of R (take k its)" "n \<notin> names_of R (filter P its)"
      using mem [of "take k its"] mem [of "filter P its"] set_take_subset [of k its] by auto
    moreover have "n \<in> cache_dirs w R" using mem [of its] \<open>i \<in> set its\<close> dirs by simp
    ultimately show ?thesis using removed_dirs(1) [OF rem] by simp
  qed
  then have sub: "names_of R ?L \<subseteq> cache_dirs w' R" by blast
  have "finite (cache_dirs w R)" using finite_names_of [of R its] dirs by simp
  then have fin: "finite (cache_dirs w' R)" using removed_dirs(1) [OF rem] by simp
  have "\<forall>i \<in> set ?L. measured w R i" using L meas by blast
  moreover have "distinct (map it_comps ?L)"
    using dist by (intro distinct_map_filter) (metis append_take_drop_id distinct_append map_append)
  ultimately have "sizes ?L = (\<Sum>n \<in> names_of R ?L. dir_size w (R @ [n]))" by (rule measured_sizes)
  also have "\<dots> \<le> (\<Sum>n \<in> cache_dirs w' R. dir_size w (R @ [n]))"
    using sub fin dir_size_nonneg [OF nonneg] by (intro sum_mono2) auto
  also have "\<dots> = cache_size w' R" using removed_dirs(2) [OF rem] by (simp add: cache_size_def)
  finally show ?thesis .
qed

lemma sizes_filter_le:
  assumes "\<forall>i \<in> set its. 0 \<le> it_size i"
  shows "sizes (filter P its) \<le> sizes its"
  using assms by (induction its) (auto simp: sizes_def)

lemma sizes_split:
  assumes "\<forall>i \<in> set its. 0 \<le> it_size i" and "0 < k" and "k \<le> length its"
  shows "sizes (filter P its) \<le> sizes (take (k - 1) its) + it_size (its ! (k - 1)) + sizes (filter P (drop k its))"
proof -
  have "sizes (filter P its) = sizes (filter P (take k its)) + sizes (filter P (drop k its))"
    unfolding sizes_def by (metis append_take_drop_id filter_append map_append sum_list_append)
  moreover have "sizes (filter P (take k its)) \<le> sizes (take k its)"
    using assms(1) set_take_subset [of k its] by (intro sizes_filter_le) blast
  moreover have "take k its = take (k - 1) its @ [its ! (k - 1)]"
    using assms(2,3) take_Suc_conv_app_nth [of "k - 1" its] by simp
  then have "sizes (take k its) = sizes (take (k - 1) its) + it_size (its ! (k - 1))" by (simp add: sizes_def)
  ultimately show ?thesis by linarith
qed

text \<open>The eviction with the items in the order of the sort.\<close>

lemma Evict_sorted:
  assumes "wf_world w" and "IsAbs (c_root cfg)" and "Clean (c_root cfg) = c_root cfg" and "R = clean_comps (c_root cfg)"
    and "is_dir w R" and perm: "\<And>its. mset (srt its) = mset its" and run: "Evict srt cfg w = (r, w')"
    and n: "n \<in> cache_dirs w R" "n \<notin> cache_dirs w' R"
  obtains its k where "\<forall>i \<in> set (srt its). measured w R i" and "distinct (map it_comps (srt its))"
    and "names_of R (srt its) = cache_dirs w R" and "k \<le> length (srt its)"
    and "removed w R (names_of R (filter (aged cfg (w_clock w (w_ticks w))) (srt its)) \<union> names_of R (take k (srt its))) w'"
    and "k = 0 \<or> c_max_size cfg < sizes (filter (\<lambda>i. \<not> aged cfg (w_clock w (w_ticks w)) i) (srt its)) - sizes (take (k - 1) (srt its))"
proof -
  let ?aged = "aged cfg (w_clock w (w_ticks w))"
  from Evict_steps [OF assms(1-6)] obtain its k w2 where ev: "Evict srt cfg w = (Inr (), w2)"
    and meas: "\<forall>i \<in> set its. measured w R i" and dist: "distinct (map it_comps its)"
    and dirs: "names_of R its = {n. is_dir w (R @ [n])}"
    and rem: "removed w R (names_of R (filter ?aged its) \<union> names_of R (take k (srt its))) w2"
    and k: "k \<le> length its" "k = 0 \<or> c_max_size cfg < sizes (filter (\<lambda>i. \<not> ?aged i) its) - sizes (take (k - 1) (srt its))"
    by blast
  have s: "set (srt its) = set its" using perm by (metis set_mset_mset)
  then have names: "names_of R (srt its) = names_of R its" "names_of R (filter ?aged (srt its)) = names_of R (filter ?aged its)"
    by (simp_all add: names_of_def)
  have "mset (filter P (srt its)) = mset (filter P its)" for P using perm by (simp add: mset_filter)
  then have "sizes (filter P (srt its)) = sizes (filter P its)" for P
    unfolding sizes_def by (metis mset_map sum_mset_sum_list)
  then have k': "k = 0 \<or> c_max_size cfg < sizes (filter (\<lambda>i. \<not> ?aged i) (srt its)) - sizes (take (k - 1) (srt its))" using k(2) by simp
  have "mset (map it_comps (srt its)) = mset (map it_comps its)" using perm by simp
  then have dist': "distinct (map it_comps (srt its))" using dist by (metis mset_eq_imp_distinct_iff)
  have "length (srt its) = length its" using perm by (rule mset_eq_length)
  then show ?thesis
    using that [of its k, OF _ dist' _ _ _ k'] meas dirs rem k(1) run ev unfolding names s by (simp add: cache_dirs_def)
qed

text \<open>
  C30. An eviction takes the oldest first, and no more than it has to. Let the sort order by time, as \<^verbatim>\<open>sort.Slice\<close> does with \<^verbatim>\<open>Before\<close>, and
  let nothing be dated in the future. Whenever the eviction removes a directory that is not past the maximal
  age, each directory it keeps is at least as new, by the oldest path in each; and one it removed, at least as new and not past the
  maximal age either, had to go: what is kept together with it exceeds the maximal size.
\<close>

theorem Evict_oldest_first:
  assumes "wf_world w" and "IsAbs (c_root cfg)" and "Clean (c_root cfg) = c_root cfg" and R: "R = clean_comps (c_root cfg)"
    and "is_dir w R" and perm: "\<And>its. mset (srt its) = mset its" and sort: "\<And>its. sorted_wrt (\<lambda>i j. it_mod i \<le> it_mod j) (srt its)"
    and mono: "mono (w_clock w)" and past: "\<And>x. look w x \<noteq> None \<Longrightarrow> w_mtime w x \<le> w_clock w (w_ticks w)"
    and nonneg: "\<And>x. 0 \<le> w_dir_size w x"
    and run: "Evict srt cfg w = (r, w')"
    and gone: "n \<in> cache_dirs w R" "n \<notin> cache_dirs w' R" "fresh cfg w (R @ [n])"
  shows "(\<forall>m \<in> cache_dirs w' R. \<exists>x \<in> tree w (R @ [n]). \<forall>y \<in> tree w (R @ [m]). w_mtime w x \<le> w_mtime w y)
    \<and> (\<exists>l \<in> cache_dirs w R - cache_dirs w' R. fresh cfg w (R @ [l])
         \<and> (\<exists>x \<in> tree w (R @ [n]). \<forall>y \<in> tree w (R @ [l]). w_mtime w x \<le> w_mtime w y)
         \<and> c_max_size cfg < cache_size w' R + dir_size w (R @ [l]))"
proof -
  let ?aged = "aged cfg (w_clock w (w_ticks w))"
  obtain its k where meas: "\<forall>i \<in> set (srt its). measured w R i" and dist: "distinct (map it_comps (srt its))"
    and dirs: "names_of R (srt its) = cache_dirs w R" and k: "k \<le> length (srt its)"
    and rem: "removed w R (names_of R (filter ?aged (srt its)) \<union> names_of R (take k (srt its))) w'"
    and stop: "k = 0 \<or> c_max_size cfg < sizes (filter (\<lambda>i. \<not> ?aged i) (srt its)) - sizes (take (k - 1) (srt its))"
    by (rule Evict_sorted [OF assms(1-3) R assms(5) perm run gone(1,2)])
  let ?s = "srt its" and ?l = "srt its ! (k - 1)"
  note member = name_member [OF dist] and left = removed_dirs(1) [OF rem]
  have item: "\<exists>i \<in> set ?s. it_comps i = R @ [m]" if "m \<in> cache_dirs w R" for m using that dirs by (auto simp: names_of_mem)
  have le: "\<exists>x \<in> tree w (R @ [a]). \<forall>y \<in> tree w (R @ [b]). w_mtime w x \<le> w_mtime w y"
    if "i \<in> set ?s" "j \<in> set ?s" "it_comps i = R @ [a]" "it_comps j = R @ [b]" "it_mod i \<le> it_mod j" for i j a b
    by (rule measured_le [OF _ _ that(3,4) mono past that(5)]) (use meas that(1,2) in auto)
  have fresh: "?aged i \<longleftrightarrow> \<not> fresh cfg w (R @ [m])" if "i \<in> set ?s" "it_comps i = R @ [m]" for i m
    using aged_iff_fresh [OF _ that(2) mono past] meas that(1) by blast
  obtain i where i: "i \<in> set ?s" "it_comps i = R @ [n]" using item gone(1) by blast
  have i': "i \<in> set (take k ?s)"
    using member [OF i, of "take k ?s"] member [OF i, of "filter ?aged ?s"] set_take_subset [of k ?s] gone left fresh [OF i] by auto
  then have pos: "0 < k" by (cases k) auto
  have l: "?l \<in> set ?s" "?l \<in> set (take k ?s)" using k pos by (auto simp: in_set_conv_nth intro!: exI [of _ "k - 1"])
  obtain b where b: "it_comps ?l = R @ [b]" using measured_name meas l(1) by blast
  have il: "it_mod i \<le> it_mod ?l" using sorted_last [OF sort pos k i'] by auto
  then have young: "fresh cfg w (R @ [b])" using fresh [OF i] fresh [OF l(1) b] gone(3) by (simp add: aged_def)
  have bd: "b \<in> cache_dirs w R - cache_dirs w' R"
    using left member [OF l(1) b, of "take k ?s"] member [OF l(1) b, of ?s] set_take_subset [of k ?s] l dirs by auto
  have "\<exists>x \<in> tree w (R @ [n]). \<forall>y \<in> tree w (R @ [m]). w_mtime w x \<le> w_mtime w y" if m: "m \<in> cache_dirs w' R" for m
  proof -
    obtain j where j: "j \<in> set ?s" "it_comps j = R @ [m]" using item m left by blast
    have "j \<notin> set (take k ?s)" using m left member [OF j, of "take k ?s"] set_take_subset [of k ?s] by auto
    then have "j \<in> set (drop k ?s)" using j(1) by (metis Un_iff append_take_drop_id set_append)
    then show ?thesis using le [OF i(1) j(1) i(2) j(2)] sorted_take_drop [OF sort i'] by blast
  qed
  moreover have size: "\<forall>i \<in> set ?s. 0 \<le> it_size i" using meas dir_size_nonneg [OF nonneg] by (auto simp: measured_def)
  have "it_size ?l = dir_size w (R @ [b])" using meas l(1) b by (auto simp: measured_def)
  then have "c_max_size cfg < cache_size w' R + dir_size w (R @ [b])"
    using stop pos kept_size [OF nonneg meas dist rem dirs] sizes_split [OF size pos k, of "\<lambda>i. \<not> ?aged i"] by linarith
  ultimately show ?thesis using young bd le [OF i(1) l(1) i(2) b il] by blast
qed

text \<open>Three entries of 60 bytes in a cache for 100, none of them past the maximal age: the two older ones go.\<close>

theorem Evict_oldest_first_witness:
  "\<exists>w'. Evict (sort_key it_mod) (example_config\<lparr>c_max_age := 200000\<rparr>) cache_world = (Inr (), w')
     \<and> cache_dirs w' [''cache''] = {''c''}
     \<and> (\<exists>x \<in> tree cache_world [''cache'', ''a'']. \<forall>y \<in> tree cache_world [''cache'', ''c'']. w_mtime cache_world x \<le> w_mtime cache_world y)
     \<and> (\<exists>l \<in> {''a'', ''b''}. 100 < cache_size w' [''cache''] + dir_size cache_world [''cache'', l])"
proof -
  let ?cfg = "example_config\<lparr>c_max_age := 200000\<rparr>"
  obtain r w' where run: "Evict (sort_key it_mod) ?cfg cache_world = (r, w')" by fastforce
  have "fst (Evict (sort_key it_mod) ?cfg cache_world) = Inr ()"
    "cache_dirs (snd (Evict (sort_key it_mod) ?cfg cache_world)) [''cache''] = {''c''}" by code_simp+
  then have out: "r = Inr ()" "cache_dirs w' [''cache''] = {''c''}" unfolding run by simp_all
  have dirs: "cache_dirs cache_world [''cache''] = {''a'', ''b'', ''c''}" "fresh ?cfg cache_world ([''cache''] @ [''a''])" by code_simp+
  have past: "w_mtime cache_world x \<le> w_clock cache_world (w_ticks cache_world)" for x by (simp add: cache_world_def)
  have cfg: "c_max_size ?cfg = 100" "c_root ?cfg = c_root example_config" by (simp_all add: example_config_def)
  have "mono (w_clock cache_world)" "0 \<le> w_dir_size cache_world x" for x by (simp_all add: cache_world_def example_world_def mono_def)
  then have "(\<forall>m \<in> cache_dirs w' [''cache'']. \<exists>x \<in> tree cache_world ([''cache''] @ [''a'']). \<forall>y \<in> tree cache_world ([''cache''] @ [m]).
        w_mtime cache_world x \<le> w_mtime cache_world y)
    \<and> (\<exists>l \<in> cache_dirs cache_world [''cache''] - cache_dirs w' [''cache'']. fresh ?cfg cache_world ([''cache''] @ [l])
         \<and> (\<exists>x \<in> tree cache_world ([''cache''] @ [''a'']). \<forall>y \<in> tree cache_world ([''cache''] @ [l]). w_mtime cache_world x \<le> w_mtime cache_world y)
         \<and> c_max_size ?cfg < cache_size w' [''cache''] + dir_size cache_world ([''cache''] @ [l]))"
    using cache_world_facts dirs out(2) past sorted_sort_key [of it_mod]
    by (intro Evict_oldest_first [OF _ _ _ _ _ _ _ _ _ _ run]) (simp_all add: cfg(2) sorted_map)
  then show ?thesis using run out dirs cfg(1) by auto
qed

end
