(* ===== verification/Metrics.thy ===== *)
theory Metrics
  imports Prelude
begin

text \<open>
  \<^verbatim>\<open>pkg/observability/metrics.go\<close>. The vectors are those of the Prometheus client library, which the
  source only calls: a counter holds a number, a gauge the value set last and a histogram the observations,
  each per tuple of label values. Durations are in nanoseconds.
\<close>

section \<open>Definitions\<close>

type_synonym labels = "string list"
type_synonym counter = "labels \<Rightarrow> nat"
type_synonym gauge = "labels \<Rightarrow> int option"
type_synonym histogram = "labels \<Rightarrow> int list"

record metrics =
  m_mount_requests :: counter
  m_mount_duration :: histogram
  m_clone_duration :: histogram
  m_cache_hits :: counter
  m_cache_misses :: counter
  m_policy_denials :: counter
  m_repository_size :: gauge
  m_repository_files :: gauge
  m_submodule_requests :: counter
  m_credential_errors :: counter
  m_registered :: nat

definition NewMetrics :: metrics where
  "NewMetrics =
     \<lparr>m_mount_requests = (\<lambda>_. 0), m_mount_duration = (\<lambda>_. []), m_clone_duration = (\<lambda>_. []),
      m_cache_hits = (\<lambda>_. 0), m_cache_misses = (\<lambda>_. 0), m_policy_denials = (\<lambda>_. 0),
      m_repository_size = (\<lambda>_. None), m_repository_files = (\<lambda>_. None),
      m_submodule_requests = (\<lambda>_. 0), m_credential_errors = (\<lambda>_. 0), m_registered = 0\<rparr>"

text \<open>\<^verbatim>\<open>WithLabelValues(...).Inc()\<close>, \<^verbatim>\<open>.Observe(d)\<close> and \<^verbatim>\<open>.Set(v)\<close>.\<close>

definition Inc :: "labels \<Rightarrow> counter \<Rightarrow> counter" where
  "Inc ls c = c(ls := Suc (c ls))"

definition Observe :: "labels \<Rightarrow> int \<Rightarrow> histogram \<Rightarrow> histogram" where
  "Observe ls d h = h(ls := h ls @ [d])"

definition Set_gauge :: "labels \<Rightarrow> int \<Rightarrow> gauge \<Rightarrow> gauge" where
  "Set_gauge ls v g = g(ls := Some v)"

text \<open>\<^verbatim>\<open>Register\<close> guards the registration with a \<^verbatim>\<open>sync.Once\<close>; the model counts the registrations.\<close>

definition Register :: "metrics \<Rightarrow> metrics" where
  "Register m = (if m_registered m = 0 then m\<lparr>m_registered := 1\<rparr> else m)"

definition Handler :: "metrics \<Rightarrow> metrics" where
  "Handler m = Register m"

definition ObserveMount :: "string \<Rightarrow> string \<Rightarrow> string \<Rightarrow> int \<Rightarrow> metrics \<Rightarrow> metrics" where
  "ObserveMount namespace pol res duration m =
     m\<lparr>m_mount_requests := Inc [namespace, pol, res] (m_mount_requests m),
       m_mount_duration := Observe [namespace, pol, res] duration (m_mount_duration m)\<rparr>"

section \<open>Facts\<close>

text \<open>Every observation of a mount is counted once and timed once.\<close>

definition mounts_timed :: "metrics \<Rightarrow> bool" where
  "mounts_timed m \<longleftrightarrow> (\<forall>ls. length (m_mount_duration m ls) = m_mount_requests m ls)"

lemma NewMetrics_timed: "mounts_timed NewMetrics"
  by (simp add: mounts_timed_def NewMetrics_def)

lemma ObserveMount_timed: "mounts_timed m \<Longrightarrow> mounts_timed (ObserveMount ns pol res d m)"
  by (simp add: mounts_timed_def ObserveMount_def Inc_def Observe_def)

lemma ObserveMount_requests:
  "m_mount_requests (ObserveMount ns pol res d m) ls =
     (if ls = [ns, pol, res] then Suc (m_mount_requests m ls) else m_mount_requests m ls)"
  by (simp add: ObserveMount_def Inc_def)

lemma Register_once: "Register (Register m) = Register m"
  by (simp add: Register_def)

end
