(* ===== verification/System.thy ===== *)
theory System
  imports GoFs Metrics
begin

text \<open>
  The state the driver runs in: the file system, the metrics and a log of what it asked the outside world to
  do (git processes it started and repositories it cloned through the library). The log is not in the code;
  it records, in order, the calls that leave the program, so that claims about them can be stated.
\<close>

section \<open>Errors\<close>

text \<open>A Go error is its text and whether \<^verbatim>\<open>errors.Is(err, context.DeadlineExceeded)\<close> holds of it.\<close>

datatype err = Plain string | Deadline string

fun err_text :: "err \<Rightarrow> string" where
  "err_text (Plain s) = s"
| "err_text (Deadline s) = s"

fun is_deadline :: "err \<Rightarrow> bool" where
  "is_deadline (Plain _) = False"
| "is_deadline (Deadline _) = True"

fun map_err :: "(string \<Rightarrow> string) \<Rightarrow> err \<Rightarrow> err" where
  "map_err f (Plain s) = Plain (f s)"
| "map_err f (Deadline s) = Deadline (f s)"

section \<open>Calls that leave the program\<close>

text \<open>A context: the time its deadline passes and the time its caller cancels it.\<close>

record ctx =
  ctx_deadline :: "int option"
  ctx_cancel :: "int option"

definition deadline_error :: err where
  "deadline_error = Deadline ''context deadline exceeded''"

definition passed :: "int option \<Rightarrow> int \<Rightarrow> bool" where
  "passed limit now = (case limit of None \<Rightarrow> False | Some t \<Rightarrow> t \<le> now)"

text \<open>\<^verbatim>\<open>ctx.Err()\<close>: what came first stays.\<close>

definition ctx_err :: "ctx \<Rightarrow> int \<Rightarrow> err option" where
  "ctx_err c now =
     (case (passed (ctx_deadline c) now, passed (ctx_cancel c) now) of
        (True, True) \<Rightarrow>
          Some (if the (ctx_cancel c) < the (ctx_deadline c) then Plain ''context canceled'' else deadline_error)
      | (True, False) \<Rightarrow> Some deadline_error
      | (False, True) \<Rightarrow> Some (Plain ''context canceled'')
      | (False, False) \<Rightarrow> None)"

text \<open>\<^verbatim>\<open>context.WithTimeout\<close> keeps an earlier deadline of the parent.\<close>

definition WithTimeout :: "ctx \<Rightarrow> int \<Rightarrow> int \<Rightarrow> ctx" where
  "WithTimeout c now timeout =
     c\<lparr>ctx_deadline := Some (case ctx_deadline c of None \<Rightarrow> now + timeout | Some t \<Rightarrow> min t (now + timeout))\<rparr>"

record command =
  cmd_path :: string
  cmd_args :: "string list"
  cmd_dir :: string
  cmd_env :: "string list"
  cmd_cred :: "(32 word \<times> 32 word) option"

record proc_result =
  pr_error :: "err option"
  pr_stdout :: string
  pr_combined :: string

text \<open>\<^verbatim>\<open>gogit.CloneOptions\<close>: the fields the driver sets.\<close>

record clone_options =
  co_url :: string
  co_depth :: int
  co_no_checkout :: bool
  co_reference :: string
  co_single_branch :: bool
  co_auth :: "(string \<times> string) option"

datatype event = Ran command | Cloned clone_options

section \<open>State and actions\<close>

record sys =
  sy_world :: world
  sy_log :: "event list"
  sy_metrics :: metrics

type_synonym 'a sys_action = "sys \<Rightarrow> (err + 'a) \<times> sys"

text \<open>An operation on the file system, and a check with no effect, as steps of the driver.\<close>

definition onW :: "(world, 'a) action \<Rightarrow> 'a sys_action" where
  "onW act s =
     (case act (sy_world s) of
        (Inl e, w) \<Rightarrow> (Inl (Plain e), s\<lparr>sy_world := w\<rparr>)
      | (Inr v, w) \<Rightarrow> (Inr v, s\<lparr>sy_world := w\<rparr>))"

definition observe :: "(world \<Rightarrow> 'a) \<Rightarrow> 'a sys_action" where
  "observe f s = (Inr (f (sy_world s)), s)"

definition liftE :: "'a result \<Rightarrow> 'a sys_action" where
  "liftE x s = (case x of Inl e \<Rightarrow> (Inl (Plain e), s) | Inr v \<Rightarrow> (Inr v, s))"

definition wrapE :: "string \<Rightarrow> 'a sys_action \<Rightarrow> 'a sys_action" where
  "wrapE msg m s =
     (case m s of (Inl e, s') \<Rightarrow> (Inl (map_err (\<lambda>t. msg @ '': '' @ t) e), s') | (Inr v, s') \<Rightarrow> (Inr v, s'))"

definition now :: "int sys_action" where
  "now = onW (\<lambda>w. (Inr (fst (time_now w)), snd (time_now w)))"

definition emit :: "event \<Rightarrow> sys \<Rightarrow> sys" where
  "emit e s = s\<lparr>sy_log := sy_log s @ [e]\<rparr>"

definition meter :: "(metrics \<Rightarrow> metrics) \<Rightarrow> unit sys_action" where
  "meter f s = (Inr (), s\<lparr>sy_metrics := f (sy_metrics s)\<rparr>)"

section \<open>Environment variables\<close>

text \<open>\<^verbatim>\<open>os.Getenv\<close> on \<^verbatim>\<open>os.Environ()\<close>: the first entry of the name, empty when there is none.\<close>

definition Getenv :: "string list \<Rightarrow> string \<Rightarrow> string" where
  "Getenv env name =
     (case find (\<lambda>e. prefix (name @ ''='') e) env of
        None \<Rightarrow> []
      | Some e \<Rightarrow> drop (length name + 1) e)"

text \<open>A process reads the last entry of a name.\<close>

definition child_env :: "string list \<Rightarrow> string \<Rightarrow> string" where
  "child_env env name = Getenv (rev env) name"

section \<open>Rules for sequences\<close>

lemma bindW_Inr:
  "bindW m f s = (Inr y, s') \<longleftrightarrow> (\<exists>v s1. m s = (Inr v, s1) \<and> f v s1 = (Inr y, s'))"
  by (cases "m s"; cases "fst (m s)") (auto simp: bindW_def)

lemma bindW_Inl:
  "bindW m f s = (Inl e, s') \<longleftrightarrow> m s = (Inl e, s') \<or> (\<exists>v s1. m s = (Inr v, s1) \<and> f v s1 = (Inl e, s'))"
  by (cases "m s"; cases "fst (m s)") (auto simp: bindW_def)

lemma onW_Inr: "onW act s = (Inr v, s') \<longleftrightarrow> (\<exists>w. act (sy_world s) = (Inr v, w) \<and> s' = s\<lparr>sy_world := w\<rparr>)"
  by (cases "act (sy_world s)"; cases "fst (act (sy_world s))") (auto simp: onW_def)

lemma observe_Inr: "observe f s = (Inr v, s') \<longleftrightarrow> v = f (sy_world s) \<and> s' = s"
  by (auto simp: observe_def)

lemma liftE_Inr: "liftE x s = (Inr v, s') \<longleftrightarrow> x = Inr v \<and> s' = s"
  by (cases x) (auto simp: liftE_def)

lemma wrapE_Inr: "wrapE msg m s = (Inr v, s') \<longleftrightarrow> m s = (Inr v, s')"
  by (cases "m s"; cases "fst (m s)") (auto simp: wrapE_def)

lemma ret_Inr: "ret v s = (Inr y, s') \<longleftrightarrow> y = v \<and> s' = s"
  by (auto simp: ret_def)

lemma fail_Inr [simp]: "fail e s \<noteq> (Inr y, s')"
  by (simp add: fail_def)

lemmas action_simps = bindW_Inr onW_Inr observe_Inr liftE_Inr wrapE_Inr ret_Inr

text \<open>A property of the state that every step of a sequence keeps, whether it succeeds or fails.\<close>

definition keeps :: "(sys \<Rightarrow> bool) \<Rightarrow> 'a sys_action \<Rightarrow> bool" where
  "keeps I m \<longleftrightarrow> (\<forall>s. I s \<longrightarrow> I (snd (m s)))"

named_theorems keeps_intros \<open>steps that keep a property\<close>

lemma keeps_bindW [keeps_intros]: "keeps I m \<Longrightarrow> (\<And>v. keeps I (f v)) \<Longrightarrow> keeps I (bindW m f)"
  by (auto simp: keeps_def bindW_def split: prod.split sum.split)

lemma keeps_ret [keeps_intros]: "keeps I (ret v)"
  by (simp add: keeps_def ret_def)

lemma keeps_fail [keeps_intros]: "keeps I (fail e)"
  by (simp add: keeps_def fail_def)

lemma keeps_observe [keeps_intros]: "keeps I (observe f)"
  by (simp add: keeps_def observe_def)

lemma keeps_liftE [keeps_intros]: "keeps I (liftE x)"
  by (auto simp: keeps_def liftE_def split: sum.split)

lemma keeps_wrapE [keeps_intros]: "keeps I m \<Longrightarrow> keeps I (wrapE msg m)"
  by (auto simp: keeps_def wrapE_def split: prod.split sum.split)

lemma keeps_onW: "(\<And>s w. I s \<Longrightarrow> I (s\<lparr>sy_world := w\<rparr>)) \<Longrightarrow> keeps I (onW act)"
  by (auto simp: keeps_def onW_def split: prod.split sum.split)

lemma keeps_read [keeps_intros]: "keeps I (onW (\<lambda>w. (f w, w)))"
  by (auto simp: keeps_def onW_def split: sum.split)

lemma keeps_if [keeps_intros]:
  "(b \<Longrightarrow> keeps I m) \<Longrightarrow> (\<not> b \<Longrightarrow> keeps I m') \<Longrightarrow> keeps I (if b then m else m')"
  by simp

lemma keepsD: "keeps I m \<Longrightarrow> I s \<Longrightarrow> m s = (r, s') \<Longrightarrow> I s'"
  by (metis keeps_def snd_conv)

text \<open>Reasoning along a sequence: a property \<open>I\<close> that every step keeps is enough for the outcomes that stop early.\<close>

lemma bind_post:
  assumes "bindW m f s = (r, s')" and "keeps I m" and "I s"
    and "\<And>v s1. m s = (Inr v, s1) \<Longrightarrow> I s1 \<Longrightarrow> f v s1 = (r, s') \<Longrightarrow> Q r s'"
    and "\<And>e. I s' \<Longrightarrow> Q (Inl e) s'"
  shows "Q r s'"
proof (cases "m s")
  case (Pair x s1)
  have I: "I s1" by (rule keepsD [OF assms(2,3) Pair])
  show ?thesis
  proof (cases x)
    case (Inl e)
    then show ?thesis using assms(1,5) Pair I by (auto simp: bindW_def)
  next
    case (Inr v)
    then show ?thesis using assms(1) assms(4) [of v s1] Pair I by (simp add: bindW_def)
  qed
qed

end
