(* ===== verification/Backend.thy ===== *)
theory Backend
  imports CopyTree System
begin

text \<open>
  The contract of \<^verbatim>\<open>materializer.Backend\<close>: what the mount pipeline may rely on after a backend returned a
  result, whichever backend it is. The locale \<open>backend\<close> states it, with the conditions on the environment of
  the backend as a parameter; the git backend (\<open>GitSpec\<close>) and the go-git backend (\<open>GoGitSpec\<close>) provide it.
\<close>

type_synonym materializer = "ctx \<Rightarrow> attributes \<Rightarrow> git_content_policy \<Rightarrow> string \<Rightarrow> mat_result sys_action"

text \<open>Regular files at and below a path, and the bytes they hold.\<close>

definition regular_files :: "world \<Rightarrow> string list \<Rightarrow> string list set" where
  "regular_files w C = {x. prefix C x \<and> (\<exists>c m. look w x = Some (EFile c m))}"

definition content_dir :: "string \<Rightarrow> string list" where
  "content_dir W = clean_comps W @ [''content'']"

text \<open>
  A work directory that holds content: a directory of files, directories and links, none of them named
  \<^verbatim>\<open>.git\<close>, within the limits of the policy, mounted from where the result says.
\<close>

definition materialized :: "git_content_policy \<Rightarrow> string \<Rightarrow> mat_result \<Rightarrow> world \<Rightarrow> bool" where
  "materialized p W r w \<longleftrightarrow>
     wf_world w \<and> mr_mounted_path r = abs_path (content_dir W) \<and> is_dir w (content_dir W)
     \<and> (\<forall>q e. look w (content_dir W @ q) = Some e \<longrightarrow> ''.git'' \<notin> set q \<and> kind_of e \<noteq> KSpecial)
     \<and> (cp_max_file_count (p_clone p) > 0 \<longrightarrow>
          int (card (regular_files w (content_dir W))) \<le> cp_max_file_count (p_clone p))
     \<and> (cp_max_repository_size (p_clone p) > 0 \<longrightarrow>
          total_size w (regular_files w (content_dir W)) \<le> cp_max_repository_size (p_clone p))"

text \<open>A work directory a backend can be given: its parent exists, and it is missing or a directory.\<close>

definition work_ready :: "world \<Rightarrow> string \<Rightarrow> bool" where
  "work_ready w W \<longleftrightarrow>
     wf_world w \<and> IsAbs W \<and> Clean W = W \<and> clean_comps W \<noteq> [] \<and> list_all name_ok (clean_comps W)
     \<and> is_dir w (butlast (clean_comps W)) \<and> (look w (clean_comps W) = None \<or> is_dir w (clean_comps W))"

text \<open>What a backend may have changed: only paths at and below its work directory, which is a directory then.\<close>

definition changed_below :: "string \<Rightarrow> sys \<Rightarrow> sys \<Rightarrow> bool" where
  "changed_below W s s' \<longleftrightarrow>
     wf_world (sy_world s') \<and> w_umask (sy_world s') = w_umask (sy_world s) \<and> is_dir (sy_world s') (clean_comps W)
     \<and> (\<forall>x. \<not> prefix (clean_comps W) x \<longrightarrow> look (sy_world s') x = look (sy_world s) x)
     \<and> sy_metrics s' = sy_metrics s"

locale backend =
  fixes mat :: "'e \<Rightarrow> materializer"
    and env_ok :: "'e \<Rightarrow> attributes \<Rightarrow> string \<Rightarrow> world \<Rightarrow> bool"
  assumes mat_changes: "env_ok e a W (sy_world s) \<Longrightarrow> work_ready (sy_world s) W \<Longrightarrow> mat e ctx a p W s = (res, s') \<Longrightarrow> changed_below W s s'"
    and mat_content: "env_ok e a W (sy_world s) \<Longrightarrow> work_ready (sy_world s) W \<Longrightarrow> mat e ctx a p W s = (Inr r, s') \<Longrightarrow>
      materialized p W r (sy_world s')"
begin

text \<open>A second work directory is not touched, so what was materialised there stays.\<close>

lemma mat_keeps_other:
  assumes "env_ok e a W (sy_world s)" and "work_ready (sy_world s) W" and "mat e ctx a p W s = (r, s')"
    and "\<not> prefix (clean_comps W) (clean_comps V)" and "\<not> prefix (clean_comps V) (clean_comps W)"
  shows "look (sy_world s') (clean_comps V @ q) = look (sy_world s) (clean_comps V @ q)"
proof -
  have "\<not> prefix (clean_comps W) (clean_comps V @ q)"
    using assms(4,5) by (metis prefixI prefix_same_cases)
  then show ?thesis using mat_changes [OF assms(1-3)] by (simp add: changed_below_def)
qed

lemma mat_mounted_below: "env_ok e a W (sy_world s) \<Longrightarrow> work_ready (sy_world s) W \<Longrightarrow> mat e ctx a p W s = (Inr r, s') \<Longrightarrow>
    clean_comps (mr_mounted_path r) = content_dir W"
  using mat_content [of e a W s ctx p r s'] clean_comps_abs [of "content_dir W"]
    wf_names [of "sy_world s'" "content_dir W"] by (auto simp: materialized_def is_dir_iff)

end

section \<open>Facts the providers share\<close>

lemma total_size_mono:
  assumes "finite Y" and "X \<subseteq> Y" and "\<And>p. p \<in> Y \<Longrightarrow> look w p \<noteq> None \<and> \<not> is_dir w p"
  shows "total_size w X \<le> total_size w Y"
  unfolding total_size_def
proof (rule sum_mono2 [OF assms(1,2)])
  fix p
  assume "p \<in> Y - X"
  then show "0 \<le> size_at w p (the (look w p))"
    using assms(3) [of p] by (auto simp: size_at_def is_dir_iff split: entry.split)
qed

lemma work_dir_abs: "work_ready w W \<Longrightarrow> W = abs_path (clean_comps W)"
  using Clean_abs_path [of W] by (simp add: work_ready_def)

lemma content_dir_name: "name_ok ''content''" "name_ok ''repo''"
  by code_simp+

lemma work_child: "work_ready w W \<Longrightarrow> name_ok n \<Longrightarrow> Join W n = abs_path (clean_comps W @ [n])"
  using work_dir_abs [of w W] Join_abs [of "clean_comps W" n] by (simp add: work_ready_def)

text \<open>After the work directory was made.\<close>

definition work_open :: "world \<Rightarrow> string \<Rightarrow> world \<Rightarrow> bool" where
  "work_open w0 W w \<longleftrightarrow>
     wf_world w \<and> w_umask w = w_umask w0 \<and> is_dir w (clean_comps W)
     \<and> (\<forall>x. \<not> prefix (clean_comps W) x \<longrightarrow> look w x = look w0 x)"

lemma MkdirAll_work:
  assumes "work_ready w W"
  obtains w' where "MkdirAll W m w = (Inr (), w')" and "work_open w W w'"
    and "\<And>x. x \<noteq> clean_comps W \<Longrightarrow> look w' x = look w x"
proof -
  let ?D = "clean_comps W"
  have d: "wf_world w" "?D \<noteq> []" "list_all name_ok ?D" "is_dir w (butlast ?D)" and W: "W = abs_path ?D"
    using assms work_dir_abs [OF assms] by (simp_all add: work_ready_def)
  consider "is_dir w ?D" | "look w ?D = None" using assms by (auto simp: work_ready_def)
  then show ?thesis
  proof cases
    case 1
    then have "MkdirAll W m w = (Inr (), w)" using MkdirAll_is_dir [OF d(1)] W by metis
    moreover have "work_open w W w" using d 1 by (simp add: work_open_def)
    ultimately show ?thesis by (rule that) simp
  next
    case 2
    let ?w = "put ?D (EDir (and m (not (w_umask w)))) w"
    have "MkdirAll W m w = (Inr (), ?w)" using MkdirAll_new [OF d(1,3,2,4) 2] W by metis
    moreover have wf: "wf_world ?w"
      using d by (intro wf_put) (auto simp: entry_ok_def list_all_iff)
    from wf have "work_open w W ?w" by (simp add: work_open_def is_dir_iff)
    ultimately show ?thesis by (rule that) simp
  qed
qed

end
