(* ===== verification/NodePlugin.thy ===== *)
theory NodePlugin
  imports Backend Publish Metadata Eviction
begin

text \<open>
  \<^verbatim>\<open>cmd/nodeplugin/main.go\<close>: the mount pipeline, the CSI calls and the HTTP handler over it. The pipeline
  is a record of what \<^verbatim>\<open>main\<close> puts into it; the backend is any \<^verbatim>\<open>materializer\<close>. A Go error of this file is
  either a \<^verbatim>\<open>mountError\<close> with its HTTP status or any other error.
\<close>

section \<open>State and errors\<close>

record pipeline =
  pl_regex :: regex_engine
  pl_policies :: "git_content_policy list"
  pl_mat :: materializer
  pl_cache :: config
  pl_target_root :: string
  pl_sort :: "item list \<Rightarrow> item list"
  pl_iter :: iteration

record mount_result =
  mo_resolved :: string
  mo_policy :: string
  mo_source :: string

datatype mount_error = MountError int err | OtherError err

fun unwrap :: "mount_error \<Rightarrow> err" where
  "unwrap (MountError _ e) = e"
| "unwrap (OtherError e) = e"

definition badRequest :: "err \<Rightarrow> mount_error" where "badRequest e = MountError 400 e"
definition forbidden :: "err \<Rightarrow> mount_error" where "forbidden e = MountError 403 e"

type_synonym 'a mount_action = "sys \<Rightarrow> (mount_error + 'a) \<times> sys"

text \<open>A step whose error is returned as it is, and one whose error is dropped.\<close>

definition plainly :: "'a sys_action \<Rightarrow> 'a mount_action" where
  "plainly m s = (case m s of (Inl e, s') \<Rightarrow> (Inl (OtherError e), s') | (Inr v, s') \<Rightarrow> (Inr v, s'))"

definition ignoring :: "(world, 'a) action \<Rightarrow> unit mount_action" where
  "ignoring act s = (Inr (), s\<lparr>sy_world := snd (act (sy_world s))\<rparr>)"

section \<open>Helpers\<close>

definition policyHost :: "string \<Rightarrow> string" where
  "policyHost repo = (let h = HostFromRepo repo in if h = [] then ''unknown'' else h)"

definition safeTargetPath :: "string \<Rightarrow> string \<Rightarrow> string result" where
  "safeTargetPath root candidate =
     (if root = [] then Inl ''target root is required''
      else if \<not> IsAbs root then Inl ''target root must be absolute''
      else if \<not> IsAbs candidate then Inl ''target path must be absolute''
      else
        (let cleanRoot = Clean root; cleanCandidate = Clean candidate in
         case Rel cleanRoot cleanCandidate of
           None \<Rightarrow> Inl (rel_error cleanRoot cleanCandidate)
         | Some rel \<Rightarrow>
             if rel = ''.'' \<or> \<not> IsLocal rel then Inl (''target path must stay within '' @ cleanRoot)
             else Inr (Join cleanRoot rel)))"

definition mount_request :: "string \<Rightarrow> attributes \<Rightarrow> request" where
  "mount_request namespace attrs =
     \<lparr>rq_namespace = namespace, rq_repo = at_repo attrs, rq_revision = at_revision attrs, rq_path = at_path attrs,
      rq_depth = at_depth attrs, rq_submodules = at_submodules attrs, rq_lfs = at_lfs attrs,
      rq_credential_profile = at_credential_profile attrs\<rparr>"

definition cache_path :: "config \<Rightarrow> attributes \<Rightarrow> string \<Rightarrow> string" where
  "cache_path cfg attrs profile =
     PathForKey cfg
       (Key (mount_parts (at_repo attrs) (at_revision attrs) (at_path attrs) (at_submodules attrs) (at_lfs attrs) profile))"

text \<open>\<^verbatim>\<open>p.metrics.ObserveMount(namespace, pol.Name, result, time.Since(start))\<close>.\<close>

definition observe_mount :: "string \<Rightarrow> git_content_policy \<Rightarrow> string \<Rightarrow> int \<Rightarrow> unit mount_action" where
  "observe_mount namespace pol res start =
     bindW (plainly now) (\<lambda>t. plainly (meter (ObserveMount namespace (p_name pol) res (t - start))))"

section \<open>The pipeline\<close>

definition private_target_perm :: perm where "private_target_perm = 488"

text \<open>Lines 313 to 325: the symbolic link an HTTP mount leaves at its target.\<close>

definition link_target :: "pipeline \<Rightarrow> string \<Rightarrow> string \<Rightarrow> unit mount_action" where
  "link_target pl targetPath mounted =
     (if targetPath \<noteq> []
      then
        bindW (plainly (liftE (safeTargetPath (pl_target_root pl) targetPath))) (\<lambda>safeTarget.
        bindW (plainly (onW (MkdirAll (Dir safeTarget) private_target_perm))) (\<lambda>_.
        bindW (ignoring (RemoveAll safeTarget)) (\<lambda>_.
          plainly (onW (Symlink mounted safeTarget)))))
      else ret ())"

definition mount_inputs :: "attributes \<Rightarrow> git_content_policy \<Rightarrow> string \<Rightarrow> mat_result \<Rightarrow> inputs" where
  "mount_inputs attrs pol profile mr =
     \<lparr>in_repo = at_repo attrs, in_requested_rev = at_revision attrs, in_resolved_rev = mr_resolved mr,
      in_policy = p_name pol, in_submodules = at_submodules attrs, in_credential_profile = profile\<rparr>"

text \<open>Lines 298 to 329: what follows a materialisation that succeeded.\<close>

definition finish_mount ::
  "pipeline \<Rightarrow> string \<Rightarrow> string \<Rightarrow> attributes \<Rightarrow> git_content_policy \<Rightarrow> string \<Rightarrow> int \<Rightarrow> mat_result
     \<Rightarrow> mount_result mount_action" where
  "finish_mount pl namespace targetPath attrs pol profile start mr =
     bindW (plainly (meter (\<lambda>m.
       m\<lparr>m_repository_size := Set_gauge [policyHost (at_repo attrs)] (mr_size_bytes mr) (m_repository_size m),
         m_repository_files := Set_gauge [policyHost (at_repo attrs)] (mr_file_count mr) (m_repository_files m)\<rparr>)))
       (\<lambda>_ s.
         (case onW (Write (pl_iter pl) (mr_mounted_path mr) (mount_inputs attrs pol profile mr)) s of
            (Inl e, s1) \<Rightarrow>
              bindW (observe_mount namespace pol ''error'' start) (\<lambda>_. fail (OtherError e)) s1
          | (Inr _, s1) \<Rightarrow>
              bindW (link_target pl targetPath (mr_mounted_path mr)) (\<lambda>_.
              bindW (ignoring (Evict (pl_sort pl) (pl_cache pl))) (\<lambda>_.
              bindW (observe_mount namespace pol ''success'' start) (\<lambda>_.
                ret \<lparr>mo_resolved = mr_resolved mr, mo_policy = p_name pol, mo_source = mr_mounted_path mr\<rparr>))) s1))"

text \<open>Lines 278 to 329: an allowed request.\<close>

definition run_mount ::
  "pipeline \<Rightarrow> ctx \<Rightarrow> string \<Rightarrow> string \<Rightarrow> attributes \<Rightarrow> git_content_policy \<Rightarrow> string \<Rightarrow> int
     \<Rightarrow> mount_result mount_action" where
  "run_mount pl ctx namespace targetPath attrs pol profile start =
     bindW (plainly now) (\<lambda>t0.
       let mountCtx = WithTimeout ctx t0 (cp_timeout (p_clone pol));
           cachePath = cache_path (pl_cache pl) attrs profile
       in bindW (plainly (observe (\<lambda>w. is_ok (Stat cachePath w)))) (\<lambda>hit.
          bindW (plainly (meter (\<lambda>m.
            if hit then m\<lparr>m_cache_hits := Inc [policyHost (at_repo attrs)] (m_cache_hits m)\<rparr>
            else m\<lparr>m_cache_misses := Inc [policyHost (at_repo attrs)] (m_cache_misses m)\<rparr>))) (\<lambda>_ s.
            (case pl_mat pl mountCtx attrs pol cachePath s of
               (Inl e, s1) \<Rightarrow>
                 bindW (observe_mount namespace pol ''error'' start) (\<lambda>_.
                 bindW (plainly now) (\<lambda>t.
                   if (case ctx_err mountCtx t of Some c \<Rightarrow> is_deadline c | None \<Rightarrow> False)
                   then fail (OtherError deadline_error)
                   else fail (OtherError e))) s1
             | (Inr mr, s1) \<Rightarrow> finish_mount pl namespace targetPath attrs pol profile start mr s1))))"

definition materialize :: "pipeline \<Rightarrow> ctx \<Rightarrow> string \<Rightarrow> string \<Rightarrow> gomap \<Rightarrow> mount_result mount_action" where
  "materialize pl ctx namespace targetPath rawAttrs =
     bindW (plainly now) (\<lambda>start.
       case Parse rawAttrs of
         Inl e \<Rightarrow> fail (badRequest (Plain e))
       | Inr attrs \<Rightarrow>
           (let (res, pol) = Evaluate (pl_regex pl) (pl_policies pl) (mount_request namespace attrs) (at_policy attrs) in
            if \<not> res_allowed res
            then
              bindW (observe_mount namespace pol ''denied'' start) (\<lambda>_.
              bindW (plainly (meter (\<lambda>m.
                m\<lparr>m_policy_denials :=
                    Inc [namespace, p_name pol, res_denial_reason_code res] (m_policy_denials m)\<rparr>))) (\<lambda>_.
                fail (forbidden (Plain (res_denial_reason res)))))
            else run_mount pl ctx namespace targetPath attrs pol (res_resolved_profile res) start))"

section \<open>The CSI calls\<close>

datatype grpc_code = InvalidArgument | PermissionDenied | DeadlineExceeded | Internal

type_synonym grpc_status = "grpc_code \<times> string"

definition csiError :: "mount_error \<Rightarrow> grpc_status" where
  "csiError e =
     (if is_deadline (unwrap e) then (DeadlineExceeded, err_text (unwrap e))
      else
        (case e of
           MountError st e' \<Rightarrow>
             if st = 400 then (InvalidArgument, err_text e')
             else if st = 403 then (PermissionDenied, err_text e')
             else (Internal, err_text e')
         | OtherError e' \<Rightarrow> (Internal, err_text e')))"

text \<open>\<^verbatim>\<open>NodePublishVolumeRequest\<close>: whether the capability is a mount, and the other fields the call reads.\<close>

record publish_request =
  pv_volume_id :: string
  pv_target_path :: string
  pv_mount_capability :: bool
  pv_readonly :: bool
  pv_context :: gomap

definition pod_namespace :: "gomap \<Rightarrow> string" where
  "pod_namespace vc =
     (let ns = mget vc ''csi.storage.k8s.io/pod.namespace'' in if ns = [] then ''default'' else ns)"

definition NodePublishVolume :: "pipeline \<Rightarrow> ctx \<Rightarrow> publish_request \<Rightarrow> sys \<Rightarrow> (grpc_status + unit) \<times> sys" where
  "NodePublishVolume pl ctx req s =
     (if pv_volume_id req = [] then (Inl (InvalidArgument, ''volume_id is required''), s)
      else if pv_target_path req = [] then (Inl (InvalidArgument, ''target_path is required''), s)
      else if \<not> pv_mount_capability req
      then (Inl (InvalidArgument, ''only mount volume capability is supported''), s)
      else if \<not> pv_readonly req then (Inl (InvalidArgument, ''git content volumes must be readonly''), s)
      else
        (case materialize pl ctx (pod_namespace (pv_context req)) [] (pv_context req) s of
           (Inl e, s1) \<Rightarrow> (Inl (csiError e), s1)
         | (Inr res, s1) \<Rightarrow>
             (case onW (publishReadOnly (mo_source res) (pv_target_path req)) s1 of
                (Inl e, s2) \<Rightarrow> (Inl (Internal, ''publish readonly bind mount: '' @ err_text e), s2)
              | (Inr _, s2) \<Rightarrow> (Inr (), s2))))"

definition NodeUnpublishVolume :: "string \<Rightarrow> sys \<Rightarrow> (grpc_status + unit) \<times> sys" where
  "NodeUnpublishVolume target s =
     (if target = [] then (Inl (InvalidArgument, ''target_path is required''), s)
      else
        (case onW (unpublish target) s of
           (Inl e, s1) \<Rightarrow> (Inl (Internal, ''unpublish volume: '' @ err_text e), s1)
         | (Inr _, s1) \<Rightarrow> (Inr (), s1)))"

definition driverName :: string where "driverName = ''gitcontent.csi.example.io''"

definition GetPluginInfo :: "string \<times> string" where "GetPluginInfo = (driverName, ''dev'')"

text \<open>The node ID the process was started with, and the pipeline its calls share.\<close>

record server =
  sv_node_id :: string
  sv_pipeline :: pipeline

datatype plugin_service = Controller_service | Volume_accessibility_constraints

definition GetPluginCapabilities :: "plugin_service list" where
  "GetPluginCapabilities = [Volume_accessibility_constraints]"

definition NodeGetInfo :: "server \<Rightarrow> string" where
  "NodeGetInfo srv = sv_node_id srv"

section \<open>The HTTP mount endpoint\<close>

record mount_body =
  mq_namespace :: string
  mq_target_path :: string
  mq_volume_attributes :: gomap

record mount_response =
  ms_success :: bool
  ms_message :: string
  ms_resolved :: string
  ms_policy :: string

text \<open>The body is what the JSON decoder made of it, or its error; a response is a status with an optional
  body.\<close>

definition failed_response :: "string \<Rightarrow> mount_response" where
  "failed_response msg = \<lparr>ms_success = False, ms_message = msg, ms_resolved = [], ms_policy = []\<rparr>"

definition http_status :: "mount_error \<Rightarrow> int" where
  "http_status e =
     (let st = (if is_deadline (unwrap e) then 504 else 502) in
      case e of MountError ms _ \<Rightarrow> ms | OtherError _ \<Rightarrow> st)"

definition handle_mount ::
  "pipeline \<Rightarrow> ctx \<Rightarrow> string \<Rightarrow> mount_body result \<Rightarrow> sys \<Rightarrow> (int \<times> mount_response option) \<times> sys" where
  "handle_mount pl ctx meth body s =
     (if meth \<noteq> ''POST'' then ((405, None), s)
      else
        (case body of
           Inl e \<Rightarrow> ((400, Some (failed_response e)), s)
         | Inr req \<Rightarrow>
             (case materialize pl ctx (mq_namespace req) (mq_target_path req) (mq_volume_attributes req) s of
                (Inl e, s1) \<Rightarrow> ((http_status e, Some (failed_response (err_text (unwrap e)))), s1)
              | (Inr res, s1) \<Rightarrow>
                  ((200, Some \<lparr>ms_success = True, ms_message = ''mounted'', ms_resolved = mo_resolved res,
                               ms_policy = mo_policy res\<rparr>), s1))))"

section \<open>Endpoints and environment\<close>

definition parseEndpoint :: "string \<Rightarrow> (string \<times> string) result" where
  "parseEndpoint endpoint =
     (if HasPrefix endpoint ''unix://'' then Inr (''unix'', TrimPrefix endpoint ''unix://'')
      else if HasPrefix endpoint ''tcp://'' then Inr (''tcp'', TrimPrefix endpoint ''tcp://'')
      else Inl (''unsupported CSI endpoint '' @ quoted endpoint))"

definition getenv :: "string list \<Rightarrow> string \<Rightarrow> string \<Rightarrow> string" where
  "getenv environ name fallback = (let v = Getenv environ name in if v = [] then fallback else v)"

definition hostname :: "string result \<Rightarrow> string" where
  "hostname os_hostname =
     (case os_hostname of Inl _ \<Rightarrow> ''unknown'' | Inr name \<Rightarrow> if name = [] then ''unknown'' else name)"

end
