(* ===== verification/GitBinary.thy ===== *)
theory GitBinary
  imports CopyTree System Policy
begin

text \<open>
  The backend of \<^verbatim>\<open>pkg/materializer/gitbinary.go\<close> that runs the git program. The program itself is an
  argument: a function from the context, the command and the file system to its result and the file system
  it leaves. What the driver controls is modelled in full: which commands it runs, in which order, with which
  arguments, environment and credentials, and what it does with the tree it gets.
\<close>

section \<open>Commands\<close>

text \<open>What the backend finds around it: the path of git, the environment, its effective user and the
  program.\<close>

record git_env =
  ge_path :: string
  ge_environ :: "string list"
  ge_euid :: int
  ge_git :: "ctx \<Rightarrow> command \<Rightarrow> world \<Rightarrow> proc_result \<times> world"

definition New_git_binary :: "(string \<Rightarrow> string result) \<Rightarrow> string result" where
  "New_git_binary look_path =
     (case look_path ''git'' of
        Inl e \<Rightarrow> Inl (''git binary not found: '' @ e)
      | Inr p \<Rightarrow> Inr p)"

definition uid_var :: string where "uid_var = ''GITCONTENT_GIT_RUN_AS_UID''"
definition gid_var :: string where "gid_var = ''GITCONTENT_GIT_RUN_AS_GID''"

text \<open>The error of \<^verbatim>\<open>strconv.ParseUint(s, 10, 32)\<close>: the first bad byte or the first digit too many.\<close>

fun uint_reason :: "int \<Rightarrow> string \<Rightarrow> string" where
  "uint_reason n [] = ''invalid syntax''"
| "uint_reason n (c # cs) =
     (if \<not> is_digit c then ''invalid syntax''
      else if 10 * n + digit_val c \<ge> 2 ^ 32 then ''value out of range''
      else uint_reason (10 * n + digit_val c) cs)"

definition uint_error :: "string \<Rightarrow> string \<Rightarrow> string" where
  "uint_error name s =
     ''invalid '' @ name @ '': strconv.ParseUint: parsing '' @ quoted s @ '': '' @ uint_reason 0 s"

definition both_required :: string where
  "both_required = ''both '' @ uid_var @ '' and '' @ gid_var @ '' are required''"

definition gitCredential :: "string list \<Rightarrow> int \<Rightarrow> (32 word \<times> 32 word) option result" where
  "gitCredential environ euid =
     (let uidRaw = Getenv environ uid_var; gidRaw = Getenv environ gid_var in
      if uidRaw = [] \<and> gidRaw = [] then Inr None
      else if euid \<noteq> 0 then Inr None
      else if uidRaw = [] \<or> gidRaw = [] then Inl both_required
      else
        (case ParseUint32 uidRaw of
           None \<Rightarrow> Inl (uint_error uid_var uidRaw)
         | Some uid \<Rightarrow>
             (case ParseUint32 gidRaw of
                None \<Rightarrow> Inl (uint_error gid_var gidRaw)
              | Some gid \<Rightarrow> Inr (Some (uid, gid)))))"

definition validateGitArgs :: "string list \<Rightarrow> unit result" where
  "validateGitArgs args =
     (if list_ex (\<lambda>arg. CHR 0x00 \<in> set arg) args then Inl ''git argument contains NUL byte'' else Inr ())"

definition rejectGitFlagOperand :: "string \<Rightarrow> string \<Rightarrow> unit result" where
  "rejectGitFlagOperand arg name =
     (if HasPrefix arg ''--'' then Inl (name @ '' must not start with '' @ [CHR 0x27] @ ''--'' @ [CHR 0x27]) else Inr ())"

definition hardened :: "string list" where
  "hardened = [''-c'', ''core.hooksPath=/dev/null'', ''-c'', ''protocol.file.allow=never'']"

definition gitArgs :: "string list \<Rightarrow> string list" where
  "gitArgs args = hardened @ args"

definition quiet_env :: "string list" where
  "quiet_env = [''GIT_CONFIG_NOSYSTEM=1'', ''GIT_CONFIG_GLOBAL=/dev/null'', ''GIT_TERMINAL_PROMPT=0'']"

definition gitCommand :: "git_env \<Rightarrow> string \<Rightarrow> string list \<Rightarrow> command result" where
  "gitCommand env dir args =
     bindE (validateGitArgs args) (\<lambda>_.
     bindE (gitCredential (ge_environ env) (ge_euid env)) (\<lambda>cred.
       Inr \<lparr>cmd_path = ge_path env, cmd_args = gitArgs args, cmd_dir = dir,
            cmd_env = ge_environ env @ quiet_env, cmd_cred = cred\<rparr>))"

text \<open>Starting the process is what the log records.\<close>

definition execute :: "git_env \<Rightarrow> ctx \<Rightarrow> command \<Rightarrow> sys \<Rightarrow> proc_result \<times> sys" where
  "execute env ctx cmd s =
     (let (res, w) = ge_git env ctx cmd (sy_world s) in (res, emit (Ran cmd) (s\<lparr>sy_world := w\<rparr>)))"

definition lfs_env :: "string list" where
  "lfs_env = [''GIT_OPTIONAL_LOCKS=0'', ''GIT_LFS_SKIP_SMUDGE=1'']"

definition runGit :: "git_env \<Rightarrow> ctx \<Rightarrow> string \<Rightarrow> string list \<Rightarrow> unit sys_action" where
  "runGit env ctx dir args =
     bindW (liftE (gitCommand env dir args)) (\<lambda>cmd s.
       (case execute env ctx (cmd\<lparr>cmd_env := cmd_env cmd @ lfs_env\<rparr>) s of
          (res, s') \<Rightarrow>
            (case pr_error res of
               Some e \<Rightarrow> (Inl (map_err (\<lambda>t. t @ '': '' @ pr_combined res) e), s')
             | None \<Rightarrow> (Inr (), s'))))"

definition stringTrim :: "string \<Rightarrow> string" where
  "stringTrim v = rev (dropWhile (\<lambda>c. c = CHR 0x0A \<or> c = CHR 0x0D \<or> c = CHR '' '') (rev v))"

definition gitOutput :: "git_env \<Rightarrow> ctx \<Rightarrow> string \<Rightarrow> string list \<Rightarrow> string sys_action" where
  "gitOutput env ctx dir args =
     bindW (liftE (gitCommand env dir args)) (\<lambda>cmd s.
       (case execute env ctx cmd s of
          (res, s') \<Rightarrow>
            (case pr_error res of
               Some e \<Rightarrow> (Inl e, s')
             | None \<Rightarrow> (Inr (stringTrim (pr_stdout res)), s'))))"

section \<open>Clone, fetch and check out\<close>

definition prepareWorkDirForGit :: "git_env \<Rightarrow> string \<Rightarrow> unit sys_action" where
  "prepareWorkDirForGit env path =
     bindW (liftE (gitCredential (ge_environ env) (ge_euid env))) (\<lambda>cred.
       case cred of
         None \<Rightarrow> ret ()
       | Some _ \<Rightarrow> onW (Chmod path 509))"

definition isMutableRevision :: "attributes \<Rightarrow> bool" where
  "isMutableRevision attrs \<longleftrightarrow> \<not> isPinnedCommit (at_revision attrs)"

definition fetchMutableRevision :: "git_env \<Rightarrow> ctx \<Rightarrow> attributes \<Rightarrow> string \<Rightarrow> unit sys_action" where
  "fetchMutableRevision env ctx attrs repoDir =
     (let branchOrTag = mutableRef attrs in
      if branchOrTag = [] then ret ()
      else
        bindW (liftE (rejectGitFlagOperand branchOrTag ''volume attribute revision'')) (\<lambda>_.
          wrapE ''git fetch failed''
            (runGit env ctx repoDir
              ([''fetch'', ''--prune'', ''--depth'', Itoa (max 1 (at_depth attrs))]
               @ (if Contains (at_revision_kind attrs) ''tag'' then [''--tags''] else [])
               @ [''origin'', branchOrTag]))))"

definition cloneOrRefresh ::
  "git_env \<Rightarrow> ctx \<Rightarrow> attributes \<Rightarrow> string \<Rightarrow> string \<Rightarrow> int \<Rightarrow> unit sys_action" where
  "cloneOrRefresh env ctx attrs workDir repoDir depth =
     bindW (observe (\<lambda>w. is_ok (Stat (Join repoDir ''.git'') w))) (\<lambda>cached.
       if cached
       then (if isMutableRevision attrs then fetchMutableRevision env ctx attrs repoDir else ret ())
       else if isPinnedCommit (at_revision attrs)
       then
         bindW (liftE (rejectGitFlagOperand (at_repo attrs) ''volume attribute repo'')) (\<lambda>_.
           wrapE ''git clone failed''
             (runGit env ctx workDir
               [''clone'', ''--no-checkout'', ''--depth'', Itoa depth, ''--'', at_repo attrs, repoDir]))
       else
         (let branchOrTag = mutableRef attrs in
          bindW (liftE (rejectGitFlagOperand (at_repo attrs) ''volume attribute repo'')) (\<lambda>_.
          bindW (liftE (if branchOrTag \<noteq> [] then rejectGitFlagOperand branchOrTag ''volume attribute revision''
                        else Inr ())) (\<lambda>_.
            wrapE ''git clone failed''
              (runGit env ctx workDir
                ([''clone'', ''--depth'', Itoa depth]
                 @ (if branchOrTag \<noteq> [] then [''--branch'', branchOrTag] else [])
                 @ [''--'', at_repo attrs, repoDir]))))))"

definition checkoutRevision :: "git_env \<Rightarrow> ctx \<Rightarrow> attributes \<Rightarrow> string \<Rightarrow> unit sys_action" where
  "checkoutRevision env ctx attrs repoDir =
     (if isPinnedCommit (at_revision attrs)
      then wrapE ''git checkout failed'' (runGit env ctx repoDir [''checkout'', ''--detach'', at_revision attrs])
      else
        (let ref = (if mutableRef attrs = [] then at_revision attrs else mutableRef attrs) in
         bindW (liftE (rejectGitFlagOperand ref ''volume attribute revision'')) (\<lambda>_.
         bindW (wrapE ''git rev-parse failed''
                 (gitOutput env ctx repoDir
                   [''rev-parse'', ''--verify'', ''--end-of-options'', ref @ ''^{commit}''])) (\<lambda>sha.
           if \<not> isPinnedCommit sha
           then fail (Plain (''resolved revision is not a valid commit SHA: '' @ quoted sha))
           else wrapE ''git checkout failed'' (runGit env ctx repoDir [''checkout'', ''--detach'', sha])))))"

section \<open>Materialize\<close>

text \<open>Lines 66 to 86: the directory that is copied.\<close>

definition source_path :: "attributes \<Rightarrow> string \<Rightarrow> string sys_action" where
  "source_path attrs repoDir =
     bindW (liftE (if at_path attrs \<noteq> [] then safeJoin repoDir (at_path attrs) else Inr repoDir)) (\<lambda>sourcePath.
     bindW (liftE (ensureInside repoDir sourcePath)) (\<lambda>_.
     bindW (onW (\<lambda>w. (Lstat sourcePath w, w))) (\<lambda>info.
       case kind_of info of
         KLink \<Rightarrow> fail (Plain (''requested path '' @ at_path attrs @ '' is a symlink''))
       | KDir \<Rightarrow> ret sourcePath
       | _ \<Rightarrow> fail (Plain (''requested path '' @ at_path attrs @ '' is not a directory'')))))"

text \<open>The limits on what was copied.\<close>

definition check_limits :: "git_content_policy \<Rightarrow> int \<Rightarrow> int \<Rightarrow> unit result" where
  "check_limits p files sz =
     (if cp_max_file_count (p_clone p) > 0 \<and> files > cp_max_file_count (p_clone p)
      then Inl (''repository file count '' @ Itoa files @ '' exceeds limit '' @ Itoa (cp_max_file_count (p_clone p)))
      else if cp_max_repository_size (p_clone p) > 0 \<and> sz > cp_max_repository_size (p_clone p)
      then Inl (''repository size '' @ Itoa sz @ '' exceeds limit '' @ Itoa (cp_max_repository_size (p_clone p)))
      else Inr ())"

definition clone_depth :: "attributes \<Rightarrow> git_content_policy \<Rightarrow> int" where
  "clone_depth attrs p = (if at_depth attrs = 0 then cp_default_depth (p_clone p) else at_depth attrs)"

definition export_content :: "git_content_policy \<Rightarrow> string \<Rightarrow> string \<Rightarrow> (int \<times> int) sys_action" where
  "export_content p sourcePath contentDir =
     bindW (onW (RemoveAll contentDir)) (\<lambda>_.
     bindW (onW (CopyContentTree sourcePath contentDir)) (\<lambda>_.
     bindW (onW (countFiles contentDir)) (\<lambda>(files, sz).
     bindW (liftE (check_limits p files sz)) (\<lambda>_. ret (files, sz)))))"

definition gitMaterialize ::
  "git_env \<Rightarrow> ctx \<Rightarrow> attributes \<Rightarrow> git_content_policy \<Rightarrow> string \<Rightarrow> mat_result sys_action" where
  "gitMaterialize env ctx attrs p workDir =
     (let repoDir = Join workDir ''repo''; contentDir = Join workDir ''content'' in
      bindW (onW (MkdirAll workDir privateDirPerm)) (\<lambda>_.
      bindW (prepareWorkDirForGit env workDir) (\<lambda>_.
      bindW (cloneOrRefresh env ctx attrs workDir repoDir (clone_depth attrs p)) (\<lambda>_.
      bindW (checkoutRevision env ctx attrs repoDir) (\<lambda>_.
      bindW (if at_submodules attrs
             then wrapE ''git submodule update failed''
                    (runGit env ctx repoDir
                      [''submodule'', ''update'', ''--init'', ''--depth'', Itoa (sp_max_depth (p_submodules p))])
             else ret ()) (\<lambda>_.
      bindW (wrapE ''resolve revision failed'' (gitOutput env ctx repoDir [''rev-parse'', ''HEAD''])) (\<lambda>resolved.
      bindW (source_path attrs repoDir) (\<lambda>sourcePath.
      bindW (export_content p sourcePath contentDir) (\<lambda>(files, sz).
        ret (zero_mat_result\<lparr>mr_resolved := resolved, mr_repo_path := repoDir,
               mr_mounted_path := contentDir, mr_file_count := files, mr_size_bytes := sz\<rparr>))))))))))"

definition gitRefresh ::
  "git_env \<Rightarrow> ctx \<Rightarrow> attributes \<Rightarrow> git_content_policy \<Rightarrow> string \<Rightarrow> mat_result sys_action" where
  "gitRefresh env ctx attrs p workDir = gitMaterialize env ctx attrs p workDir"

end
