(* ===== verification/GitRuns.thy ===== *)
theory GitRuns
  imports GitBinary
begin

text \<open>
  What the git backend runs: which commands, in which order, with which arguments and environment, whatever
  the git program answers; and a scripted git for runs on concrete file systems.
\<close>

section \<open>What the backend runs\<close>

text \<open>
  The options the backend itself uses. A command is safe when it runs the configured program with the
  hardening options first, with the environment that switches off the host's configuration and prompts, with
  the configured credentials and no NUL byte, and when every argument before the end of its options that
  looks like an option is one of the backend's own.
\<close>

definition own_options :: "string list" where
  "own_options =
     [''-c'', ''--no-checkout'', ''--depth'', ''--branch'', ''--prune'', ''--tags'', ''--detach'', ''--verify'',
      ''--init'', ''--'', ''--end-of-options'']"

definition option_args :: "string list \<Rightarrow> string list" where
  "option_args args = takeWhile (\<lambda>a. a \<noteq> ''--'' \<and> a \<noteq> ''--end-of-options'') args"

definition options_own :: "string list \<Rightarrow> bool" where
  "options_own args \<longleftrightarrow> list_all (\<lambda>a. HasPrefix a ''-'' \<longrightarrow> a \<in> set own_options) (option_args args)"

definition command_safe :: "git_env \<Rightarrow> command \<Rightarrow> bool" where
  "command_safe env c \<longleftrightarrow>
     cmd_path c = ge_path env \<and> prefix hardened (cmd_args c) \<and> options_own (cmd_args c)
     \<and> list_all (\<lambda>a. CHR 0x00 \<notin> set a) (cmd_args c)
     \<and> child_env (cmd_env c) ''GIT_CONFIG_NOSYSTEM'' = ''1''
     \<and> child_env (cmd_env c) ''GIT_CONFIG_GLOBAL'' = ''/dev/null''
     \<and> child_env (cmd_env c) ''GIT_TERMINAL_PROMPT'' = ''0''
     \<and> gitCredential (ge_environ env) (ge_euid env) = Inr (cmd_cred c)"

text \<open>The subcommand, after the four hardening arguments.\<close>

definition subcommand :: "command \<Rightarrow> string" where
  "subcommand c = cmd_args c ! 4"

text \<open>A step that runs safe commands only, along one of the scripts given; a step that fails stops on the way.\<close>

definition runs :: "git_env \<Rightarrow> string list set \<Rightarrow> 'a sys_action \<Rightarrow> bool" where
  "runs env scripts m \<longleftrightarrow>
     (\<forall>s. \<exists>cs script. sy_log (snd (m s)) = sy_log s @ map Ran cs \<and> list_all (command_safe env) cs
        \<and> script \<in> scripts \<and> prefix (map subcommand cs) script
        \<and> (is_ok (fst (m s)) \<longrightarrow> map subcommand cs = script))"

named_theorems runs_intros \<open>steps and the commands they run\<close>

lemma runs_bindW:
  assumes m: "runs env A m" and f: "\<And>v. runs env B (f v)" and C: "\<And>a b. a \<in> A \<Longrightarrow> b \<in> B \<Longrightarrow> a @ b \<in> C"
  shows "runs env C (bindW m f)"
  unfolding runs_def
proof
  fix s
  obtain cs a where cs: "sy_log (snd (m s)) = sy_log s @ map Ran cs" "list_all (command_safe env) cs"
    "a \<in> A" "prefix (map subcommand cs) a" "is_ok (fst (m s)) \<longrightarrow> map subcommand cs = a"
    using m unfolding runs_def by blast
  show "\<exists>cs script. sy_log (snd (bindW m f s)) = sy_log s @ map Ran cs \<and> list_all (command_safe env) cs
      \<and> script \<in> C \<and> prefix (map subcommand cs) script
      \<and> (is_ok (fst (bindW m f s)) \<longrightarrow> map subcommand cs = script)"
  proof (cases "m s")
    case (Pair r s1)
    show ?thesis
    proof (cases r)
      case (Inl e)
      obtain b where "b \<in> B" using f unfolding runs_def by blast
      then have "a @ b \<in> C" using C cs(3) by blast
      then show ?thesis
        using Pair Inl cs by (intro exI [of _ cs] exI [of _ "a @ b"]) (auto simp: bindW_def)
    next
      case (Inr v)
      obtain ds b where ds: "sy_log (snd (f v s1)) = sy_log s1 @ map Ran ds" "list_all (command_safe env) ds"
        "b \<in> B" "prefix (map subcommand ds) b" "is_ok (fst (f v s1)) \<longrightarrow> map subcommand ds = b"
        using f unfolding runs_def by blast
      have "a @ b \<in> C" using C cs(3) ds(3) by blast
      then show ?thesis
        using Pair Inr cs ds by (intro exI [of _ "cs @ ds"] exI [of _ "a @ b"]) (auto simp: bindW_def)
    qed
  qed
qed

lemma runs_quiet: "(\<And>l. keeps (\<lambda>s. sy_log s = l) m) \<Longrightarrow> runs env {[]} m"
  unfolding runs_def keeps_def by (auto intro!: exI [of _ "[]"])

lemma quiet_observe: "runs env {[]} (observe f)"
  by (intro runs_quiet keeps_observe)

lemma quiet_onW: "runs env {[]} (onW act)"
  by (intro runs_quiet keeps_onW) simp

lemma runs_fail: "script \<in> C \<Longrightarrow> runs env C (fail e)"
  unfolding runs_def by (intro allI exI [of _ "[]"] exI [of _ script]) (simp add: fail_def)

lemma runs_wrapE: "runs env C m \<Longrightarrow> runs env C (wrapE msg m)"
proof -
  have "sy_log (snd (wrapE msg m s)) = sy_log (snd (m s)) \<and> is_ok (fst (wrapE msg m s)) = is_ok (fst (m s))" for s
    by (auto simp: wrapE_def split: prod.split sum.split)
  then show "runs env C m \<Longrightarrow> runs env C (wrapE msg m)" by (simp add: runs_def)
qed

lemma runs_mono: "runs env A m \<Longrightarrow> A \<subseteq> B \<Longrightarrow> runs env B m"
  unfolding runs_def by (meson subsetD)

lemma quiet_bind: "runs env {[]} m \<Longrightarrow> (\<And>v. runs env B (f v)) \<Longrightarrow> runs env B (bindW m f)"
  by (rule runs_bindW [of env "{[]}" m B]) auto

text \<open>Running git: one command, safe when its options are the backend's own.\<close>

lemma gitCommand_safe:
  assumes "gitCommand env dir (sub # args) = Inr cmd" and "options_own (hardened @ sub # args)"
  shows "command_safe env cmd" and "command_safe env (cmd\<lparr>cmd_env := cmd_env cmd @ lfs_env\<rparr>)"
    and "subcommand cmd = sub"
proof -
  have cmd: "cmd = \<lparr>cmd_path = ge_path env, cmd_args = gitArgs (sub # args), cmd_dir = dir,
      cmd_env = ge_environ env @ quiet_env, cmd_cred = cmd_cred cmd\<rparr>"
    and cred: "gitCredential (ge_environ env) (ge_euid env) = Inr (cmd_cred cmd)"
    and nul: "list_all (\<lambda>a. CHR 0x00 \<notin> set a) (sub # args)"
    using assms(1) by (auto simp: gitCommand_def validateGitArgs_def list_ex_iff list_all_iff result_simps split: if_splits)
  have h: "list_all (\<lambda>a. CHR 0x00 \<notin> set a) hardened" by code_simp
  have env: "child_env (xs @ quiet_env) ''GIT_CONFIG_NOSYSTEM'' = ''1''"
    "child_env (xs @ quiet_env) ''GIT_CONFIG_GLOBAL'' = ''/dev/null''"
    "child_env (xs @ quiet_env) ''GIT_TERMINAL_PROMPT'' = ''0''"
    "child_env (xs @ quiet_env @ lfs_env) ''GIT_CONFIG_NOSYSTEM'' = ''1''"
    "child_env (xs @ quiet_env @ lfs_env) ''GIT_CONFIG_GLOBAL'' = ''/dev/null''"
    "child_env (xs @ quiet_env @ lfs_env) ''GIT_TERMINAL_PROMPT'' = ''0''" for xs
    by (simp_all add: child_env_def Getenv_def quiet_env_def lfs_env_def)
  have path: "cmd_path cmd = ge_path env" and args: "cmd_args cmd = hardened @ sub # args"
    and cenv: "cmd_env cmd = ge_environ env @ quiet_env"
    by (subst cmd, simp add: gitArgs_def)+
  show "command_safe env cmd" "command_safe env (cmd\<lparr>cmd_env := cmd_env cmd @ lfs_env\<rparr>)"
    using path args cenv cred nul h env assms(2) by (simp_all add: command_safe_def)
  show "subcommand cmd = sub" by (simp add: subcommand_def args hardened_def)
qed

lemma runs_launch:
  assumes own: "options_own (hardened @ sub # args)"
    and k: "\<And>cmd s. sy_log (snd (k cmd s)) = sy_log s @ [Ran (g cmd)]"
    and g: "\<And>cmd. g cmd = cmd \<or> g cmd = cmd\<lparr>cmd_env := cmd_env cmd @ lfs_env\<rparr>"
  shows "runs env {[sub]} (bindW (liftE (gitCommand env dir (sub # args))) k)"
  unfolding runs_def
proof
  fix s
  let ?m = "bindW (liftE (gitCommand env dir (sub # args))) k"
  show "\<exists>cs script. sy_log (snd (?m s)) = sy_log s @ map Ran cs \<and> list_all (command_safe env) cs
      \<and> script \<in> {[sub]} \<and> prefix (map subcommand cs) script \<and> (is_ok (fst (?m s)) \<longrightarrow> map subcommand cs = script)"
  proof (cases "gitCommand env dir (sub # args)")
    case (Inl e)
    then show ?thesis by (intro exI [of _ "[]"] exI [of _ "[sub]"]) (simp add: bindW_def liftE_def)
  next
    case (Inr cmd)
    note safe = gitCommand_safe [OF Inr own]
    have "subcommand (cmd\<lparr>cmd_env := cmd_env cmd @ lfs_env\<rparr>) = sub" using safe(3) by (simp add: subcommand_def)
    then have c: "command_safe env (g cmd)" "subcommand (g cmd) = sub" using safe g [of cmd] by auto
    have "sy_log (snd (?m s)) = sy_log s @ map Ran [g cmd]" using Inr k by (simp add: bindW_def liftE_def)
    then show ?thesis using c by (intro exI [of _ "[g cmd]"] exI [of _ "[sub]"]) simp
  qed
qed

lemma runs_runGit: "options_own (hardened @ sub # args) \<Longrightarrow> runs env {[sub]} (runGit env ctx dir (sub # args))"
  unfolding runGit_def
  by (rule runs_launch [where g = "\<lambda>cmd. cmd\<lparr>cmd_env := cmd_env cmd @ lfs_env\<rparr>"])
     (auto simp: execute_def emit_def split: prod.split option.split)

lemma runs_gitOutput: "options_own (hardened @ sub # args) \<Longrightarrow> runs env {[sub]} (gitOutput env ctx dir (sub # args))"
  unfolding gitOutput_def
  by (rule runs_launch [where g = "\<lambda>cmd. cmd"]) (auto simp: execute_def emit_def split: prod.split option.split)

text \<open>The arguments: numbers, commits and the operands of a request that was parsed.\<close>

lemma plain_number: "0 \<le> n \<Longrightarrow> \<not> HasPrefix (Itoa n) ''-''"
  using pos_digits_hd [of n] by (cases "pos_digits n") (auto simp: Itoa_def is_digit_def)

lemma plain_commit: "isPinnedCommit c \<Longrightarrow> \<not> HasPrefix c ''-''"
proof -
  assume c: "isPinnedCommit c"
  then have "c \<noteq> []" "isHex c" by (auto simp: isPinnedCommit_def)
  moreover have "CHR ''-'' < CHR ''0''" by code_simp
  ultimately show ?thesis by (cases c) (auto simp: isHex_def)
qed

lemma plain_not_end: "\<not> HasPrefix a ''-'' \<Longrightarrow> a \<noteq> ''--'' \<and> a \<noteq> ''--end-of-options''"
  by auto

lemma options_own_Cons:
  "options_own (a # args) \<longleftrightarrow>
     (if a = ''--'' \<or> a = ''--end-of-options'' then True
      else (HasPrefix a ''-'' \<longrightarrow> a \<in> set own_options) \<and> options_own args)"
  by (auto simp: options_own_def option_args_def)

lemma options_own_Nil: "options_own []"
  by (simp add: options_own_def option_args_def)

lemmas own_simps = options_own_Cons options_own_Nil hardened_def own_options_def

lemma quiet_fail: "runs env {[]} (fail e)"
  by (intro runs_quiet keeps_fail)

lemma quiet_ret: "runs env {[]} (ret v)"
  by (intro runs_quiet keeps_ret)

lemma runs_if: "(b \<Longrightarrow> runs env A m) \<Longrightarrow> (\<not> b \<Longrightarrow> runs env A n) \<Longrightarrow> runs env A (if b then m else n)"
  by simp

text \<open>A check before a step runs nothing.\<close>

lemma runs_checked: "(\<And>v. runs env B (f v)) \<Longrightarrow> runs env B (bindW (liftE x) f)"
  by (rule quiet_bind [OF runs_quiet]) (simp_all add: keeps_liftE)

lemma checkout_runs: "runs env {[''checkout''], [''rev-parse'', ''checkout'']} (checkoutRevision env ctx a dir)"
proof (cases "isPinnedCommit (at_revision a)")
  case True
  have "runs env {[''checkout'']} (runGit env ctx dir [''checkout'', ''--detach'', at_revision a])"
    using plain_commit [OF True] plain_not_end by (intro runs_runGit) (auto simp: own_simps)
  then show ?thesis using True by (auto simp: checkoutRevision_def intro: runs_wrapE runs_mono)
next
  case False
  have parse: "runs env {[''rev-parse'']}
      (wrapE msg (gitOutput env ctx dir [''rev-parse'', ''--verify'', ''--end-of-options'', ref @ ''^{commit}'']))" for msg ref
    by (intro runs_wrapE runs_gitOutput) (simp add: own_simps)
  have co: "runs env {[''checkout'']}
      (if \<not> isPinnedCommit sha then fail e else wrapE msg (runGit env ctx dir [''checkout'', ''--detach'', sha]))" for sha e msg
  proof (cases "isPinnedCommit sha")
    case True
    have "runs env {[''checkout'']} (runGit env ctx dir [''checkout'', ''--detach'', sha])"
      using plain_commit [OF True] plain_not_end by (intro runs_runGit) (auto simp: own_simps)
    then show ?thesis using True by (simp add: runs_wrapE)
  qed (auto intro: runs_fail)
  show ?thesis
    unfolding checkoutRevision_def Let_def if_not_P [OF False]
    by (rule runs_checked, rule runs_bindW [OF parse co]) simp
qed

lemma fetch_runs:
  assumes "\<not> HasPrefix (mutableRef a) ''-''"
  shows "runs env {[''fetch''], []} (fetchMutableRevision env ctx a dir)"
proof (cases "mutableRef a = []")
  case True
  then show ?thesis by (auto simp: fetchMutableRevision_def intro!: runs_mono [OF runs_quiet] keeps_ret)
next
  case False
  let ?n = "Itoa (max 1 (at_depth a))"
  have n: "\<not> HasPrefix ?n ''-''" by (rule plain_number) simp
  have "options_own (hardened @ ''fetch'' # [''--prune'', ''--depth'', ?n] @ tags @ [''origin'', mutableRef a])"
    if "tags = [] \<or> tags = [''--tags'']" for tags
    using that n plain_not_end [OF n] assms plain_not_end [OF assms] by (auto simp: own_simps)
  then have "runs env {[''fetch'']}
      (runGit env ctx dir (''fetch'' # [''--prune'', ''--depth'', ?n] @ tags @ [''origin'', mutableRef a]))"
    if "tags = [] \<or> tags = [''--tags'']" for tags using that by (intro runs_runGit) blast
  from this [of "if Contains (at_revision_kind a) ''tag'' then [''--tags''] else []"]
  have "runs env {[''fetch''], []}
      (runGit env ctx dir
        ([''fetch'', ''--prune'', ''--depth'', ?n] @ (if Contains (at_revision_kind a) ''tag'' then [''--tags''] else [])
         @ [''origin'', mutableRef a]))" by (auto intro: runs_mono)
  then show ?thesis
    unfolding fetchMutableRevision_def Let_def if_not_P [OF False] by (intro runs_checked runs_wrapE)
qed

lemma clone_runs:
  assumes ref: "\<not> HasPrefix (mutableRef a) ''-''" and depth: "0 \<le> depth"
  shows "runs env {[''clone''], [''fetch''], []} (cloneOrRefresh env ctx a workDir dir depth)"
proof -
  note plain = plain_number [OF depth] plain_not_end [OF plain_number [OF depth]]
  have pin: "runs env {[''clone'']}
      (bindW (liftE x) (\<lambda>_. wrapE msg (runGit env ctx workDir
        [''clone'', ''--no-checkout'', ''--depth'', Itoa depth, ''--'', at_repo a, dir])))" for x :: "unit result" and msg
    using plain by (intro runs_checked runs_wrapE runs_runGit) (auto simp: own_simps)
  have branch: "options_own (hardened @ ''clone'' # [''--depth'', Itoa depth] @ branch @ [''--'', at_repo a, dir])"
    if "branch = [] \<or> branch = [''--branch'', mutableRef a]" for branch
    using that plain ref plain_not_end [OF ref] by (auto simp: own_simps)
  have cl: "runs env {[''clone'']}
      (bindW (liftE x) (\<lambda>_. bindW (liftE y) (\<lambda>_. wrapE msg (runGit env ctx workDir
        ([''clone'', ''--depth'', Itoa depth] @ (if mutableRef a \<noteq> [] then [''--branch'', mutableRef a] else [])
          @ [''--'', at_repo a, dir])))))" for x y :: "unit result" and msg
    using branch [of "if mutableRef a \<noteq> [] then [''--branch'', mutableRef a] else []"]
    by (intro runs_checked runs_wrapE) (simp only: append.simps, intro runs_runGit, auto)
  show ?thesis
    unfolding cloneOrRefresh_def Let_def
    by (intro quiet_bind [OF quiet_observe] runs_if runs_mono [OF pin] runs_mono [OF cl]
          runs_mono [OF fetch_runs [OF ref]] runs_mono [OF quiet_ret]) simp_all
qed

text \<open>The scripts of a materialisation: fetch or clone, check out, submodules, resolve.\<close>

definition git_scripts :: "bool \<Rightarrow> string list set" where
  "git_scripts submodules =
     set [first @ co @ (if submodules then [''submodule''] else []) @ [''rev-parse''].
          first \<leftarrow> [[''clone''], [''fetch''], []], co \<leftarrow> [[''checkout''], [''rev-parse'', ''checkout'']]]"

lemma quiet_kind:
  "runs env {[]} m1 \<Longrightarrow> runs env {[]} m2 \<Longrightarrow> runs env {[]} m3 \<Longrightarrow>
     runs env {[]} (case k of KLink \<Rightarrow> m1 | KDir \<Rightarrow> m2 | _ \<Rightarrow> m3)"
  by (cases k) simp_all

lemma source_path_quiet: "runs env {[]} (source_path a dir)"
  unfolding source_path_def
  by (intro runs_checked quiet_bind [OF quiet_onW] quiet_kind quiet_fail quiet_ret)

lemma export_content_quiet: "runs env {[]} (export_content p src dst)"
  unfolding export_content_def split_def
  by (intro runs_checked quiet_bind [OF quiet_onW] quiet_ret)

lemma prepare_quiet: "runs env {[]} (prepareWorkDirForGit env dir)"
  unfolding prepareWorkDirForGit_def
  by (intro runs_checked) (simp add: quiet_ret quiet_onW split: option.split)

lemma Materialize_runs:
  assumes parse: "Parse raw = Inr a" and limits: "limits_set p"
  shows "runs env (git_scripts (at_submodules a)) (gitMaterialize env ctx a p dir)"
proof -
  have ref: "\<not> HasPrefix (mutableRef a) ''-''" using parsed_operands [OF parse] by (simp add: operand_ok_def)
  have d: "0 \<le> clone_depth a p"
    using Parse_spec [OF parse] limits by (simp add: clone_depth_def attributes_spec_def limits_set_def)
  have n: "\<not> HasPrefix (Itoa (sp_max_depth (p_submodules p))) ''-''"
    using limits by (intro plain_number) (simp add: limits_set_def)
  have sub: "runs env {if at_submodules a then [''submodule''] else []}
      (if at_submodules a
       then wrapE msg (runGit env ctx dir' [''submodule'', ''update'', ''--init'', ''--depth'', Itoa (sp_max_depth (p_submodules p))])
       else ret ())" for msg dir'
    using n plain_not_end [OF n] by (auto intro!: quiet_ret runs_wrapE runs_runGit simp: own_simps)
  let ?sub = "if at_submodules a then [''submodule''] else []"
  let ?tails = "{co @ ?sub @ [''rev-parse''] | co. co \<in> {[''checkout''], [''rev-parse'', ''checkout'']}}"
  have resolve: "runs env {[''rev-parse'']} (wrapE msg (gitOutput env ctx dir' [''rev-parse'', ''HEAD'']))" for msg dir'
    by (intro runs_wrapE runs_gitOutput) (simp add: own_simps)
  have rest: "runs env {[]} (bindW (source_path a dir') (\<lambda>src. bindW (export_content p src dst) (\<lambda>x. ret (k x))))" for dir' dst k
    by (intro quiet_bind [OF source_path_quiet] quiet_bind [OF export_content_quiet] quiet_ret)
  have tail: "runs env {?sub @ [''rev-parse'']} (bindW sub (\<lambda>_. bindW (wrapE msg (gitOutput env ctx dir' [''rev-parse'', ''HEAD'']))
      (\<lambda>v. bindW (source_path a dir') (\<lambda>src. bindW (export_content p src dst) (\<lambda>x. ret (k v x))))))"
    if "runs env {?sub} (sub :: unit sys_action)" for sub dir' dst msg k
    by (rule runs_bindW [OF that runs_bindW [OF resolve rest, where C = "{[''rev-parse'']}"]]) auto
  show ?thesis
    unfolding gitMaterialize_def Let_def split_def
    by (intro quiet_bind [OF quiet_onW] quiet_bind [OF prepare_quiet]
          runs_bindW [OF clone_runs [OF ref d] runs_bindW [OF checkout_runs tail [OF sub], where C = ?tails]])
       (auto simp: git_scripts_def)
qed

text \<open>
  C11. What the git backend runs for a request that was parsed, under limits that are in force. Whatever git
  answers, the commands it runs are safe (the configured program, hardened, with clean environment and the
  configured credentials, and no request can smuggle in an option), and they follow the script: clone or
  fetch, resolve and check out, submodules when asked for, resolve; a failure stops the script on the way.
\<close>

theorem gitMaterialize_commands:
  assumes "Parse raw = Inr a" and "limits_set p"
  shows "\<exists>cs script. sy_log (snd (gitMaterialize env ctx a p dir s)) = sy_log s @ map Ran cs
    \<and> list_all (command_safe env) cs \<and> script \<in> git_scripts (at_submodules a)
    \<and> prefix (map subcommand cs) script
    \<and> (is_ok (fst (gitMaterialize env ctx a p dir s)) \<longrightarrow> map subcommand cs = script)"
  using Materialize_runs [OF assms, of env ctx dir] unfolding runs_def by blast

section \<open>A run of the backend\<close>

text \<open>A git that puts the given tree where it is told to clone and answers every \<^verbatim>\<open>rev-parse\<close> with one commit.\<close>

definition scripted_git :: "(string list \<times> entry) list \<Rightarrow> ctx \<Rightarrow> command \<Rightarrow> world \<Rightarrow> proc_result \<times> world" where
  "scripted_git tr ctx c w =
     (let ok = \<lambda>out. \<lparr>pr_error = None, pr_stdout = out, pr_combined = out\<rparr> in
      if subcommand c = ''clone'' \<and> is_dir w (clean_comps (cmd_dir c)) \<and> look w (clean_comps (cmd_dir c) @ [''repo'']) = None
      then (ok [], fold (\<lambda>(q, e). put ((clean_comps (cmd_dir c) @ [''repo'']) @ q) e) tr w)
      else if subcommand c = ''rev-parse''
      then (ok (''0123456789abcdef0123456789abcdef01234567'' @ [CHR 0x0A]), w)
      else (ok [], w))"

definition example_env :: "(string list \<times> entry) list \<Rightarrow> git_env" where
  "example_env tr =
     \<lparr>ge_path = ''/usr/bin/git'',
      ge_environ = [''PATH=/usr/bin'', ''GITCONTENT_GIT_RUN_AS_UID=1000'', ''GITCONTENT_GIT_RUN_AS_GID=1000''],
      ge_euid = 0, ge_git = scripted_git tr\<rparr>"

definition no_ctx :: ctx where
  "no_ctx = \<lparr>ctx_deadline = None, ctx_cancel = None\<rparr>"

text \<open>A node with a cache directory, and a file outside it that no workload should see.\<close>

definition node_world :: world where
  "node_world =
     example_world\<lparr>w_fs :=
       [([], EDir 493), ([''etc''], EDir 493), ([''etc'', ''ssl''], EDir 448),
        ([''etc'', ''ssl'', ''key''], EFile ''secret'' 384), ([''cache''], EDir 488)]\<rparr>"

definition node :: sys where
  "node = \<lparr>sy_world = node_world, sy_log = [], sy_metrics = NewMetrics\<rparr>"

definition site_tree :: "(string list \<times> entry) list" where
  "site_tree =
     [([], EDir 493), ([''.git''], EDir 493), ([''.git'', ''HEAD''], EFile ''ref'' 420),
      ([''public''], EDir 493), ([''public'', ''assets''], EDir 493),
      ([''public'', ''assets'', ''a.css''], EFile ''body'' 420)]"

theorem gitMaterialize_commands_witness:
  "\<exists>cs script. sy_log (snd (gitMaterialize (example_env site_tree) no_ctx example_attributes
          (applyPolicyDefaults example_policy) ''/cache/k'' node)) = map Ran cs
     \<and> list_all (command_safe (example_env site_tree)) cs
     \<and> script \<in> git_scripts False \<and> prefix (map subcommand cs) script"
proof -
  have "sy_log node = []" "at_submodules example_attributes = False"
    by (simp_all add: node_def example_attributes_def)
  then show ?thesis
    using gitMaterialize_commands [OF Parse_example applyPolicyDefaults_limits [of example_policy],
      of "example_env site_tree" no_ctx "''/cache/k''" node] by auto
qed

text \<open>
  A link on the requested path leaves the repository. The check of the path is lexical and only its last
  component is tested for being a link; when a directory on the way is a link of the repository, the backend
  copies whatever it leads to, here a directory of the node, into the content that is mounted.
\<close>

theorem gitMaterialize_follows_links:
  "case gitMaterialize (example_env [([], EDir 493), ([''.git''], EDir 493), ([''x''], ELink ''/etc'')]) no_ctx
          (example_attributes\<lparr>at_path := ''x/ssl''\<rparr>) (applyPolicyDefaults example_policy) ''/cache/k'' node of
     (Inl e, s') \<Rightarrow> False
   | (Inr r, s') \<Rightarrow>
       mr_mounted_path r = ''/cache/k/content''
       \<and> look node_world [''etc'', ''ssl'', ''key''] = Some (EFile ''secret'' 384)
       \<and> look (sy_world s') [''cache'', ''k'', ''content'', ''key''] = Some (EFile ''secret'' 256)"
  by code_simp

end
