(* ===== verification/GitSpec.thy ===== *)
theory GitSpec
  imports GitRuns Backend
begin

text \<open>
  What the git backend leaves on disk, for a git program that stays inside the directory it is run in: the
  content directory is the exported copy of the requested directory of the work tree, within the limits, and
  nothing outside the work directory changes. It provides the contract \<open>backend\<close>.
\<close>

section \<open>The git program\<close>

text \<open>Run in a directory, git changes only what is below it, and keeps the file system well formed.\<close>

definition git_contained :: "git_env \<Rightarrow> bool" where
  "git_contained env \<longleftrightarrow>
     (\<forall>ctx c w. wf_world w \<longrightarrow>
        (let w' = snd (ge_git env ctx c w) in
         wf_world w' \<and> w_umask w' = w_umask w
         \<and> (\<forall>x. \<not> strict_prefix (clean_comps (cmd_dir c)) x \<longrightarrow> look w' x = look w x)))"

text \<open>
  No directory on the requested path is a symbolic link: not in the work tree that is there, and git does not
  make one.
\<close>

definition plain_source :: "attributes \<Rightarrow> string \<Rightarrow> world \<Rightarrow> bool" where
  "plain_source a W w \<longleftrightarrow>
     (\<forall>pre t. strict_prefix pre (clean_comps (at_path a)) \<longrightarrow>
        look w (clean_comps W @ ''repo'' # pre) \<noteq> Some (ELink t))"

lemma plain_source_cong:
  "(\<And>x. x \<noteq> clean_comps W \<Longrightarrow> look w' x = look w x) \<Longrightarrow> plain_source a W w' = plain_source a W w"
  by (simp add: plain_source_def)

definition git_env_ok :: "git_env \<Rightarrow> attributes \<Rightarrow> string \<Rightarrow> world \<Rightarrow> bool" where
  "git_env_ok env a W w0 \<longleftrightarrow>
     git_contained env \<and> plain_source a W w0
     \<and> (\<forall>ctx c w. wf_world w \<longrightarrow> plain_source a W w \<longrightarrow> plain_source a W (snd (ge_git env ctx c w)))"

section \<open>The commands keep the rest of the node\<close>

definition git_inv :: "attributes \<Rightarrow> string \<Rightarrow> sys \<Rightarrow> sys \<Rightarrow> bool" where
  "git_inv a W s0 s \<longleftrightarrow>
     work_open (sy_world s0) W (sy_world s) \<and> plain_source a W (sy_world s) \<and> sy_metrics s = sy_metrics s0"

lemma strict_below: "prefix D E \<Longrightarrow> strict_prefix E x \<Longrightarrow> strict_prefix D x"
  by (metis prefix_order.le_less_trans)

lemma execute_inv:
  assumes "git_env_ok env a W w0" and "prefix (clean_comps W) (clean_comps (cmd_dir c))" and "git_inv a W s0 s"
  shows "git_inv a W s0 (snd (execute env ctx c s))"
proof -
  let ?w' = "snd (ge_git env ctx c (sy_world s))"
  have w: "wf_world (sy_world s)" using assms(3) by (simp add: git_inv_def work_open_def)
  then have w': "wf_world ?w'" "w_umask ?w' = w_umask (sy_world s)"
    and frame: "\<And>x. \<not> strict_prefix (clean_comps (cmd_dir c)) x \<Longrightarrow> look ?w' x = look (sy_world s) x"
    using assms(1) unfolding git_env_ok_def git_contained_def Let_def by blast+
  have plain: "plain_source a W ?w'" using assms(1,3) w unfolding git_env_ok_def git_inv_def by blast
  have "look ?w' x = look (sy_world s) x" if "\<not> strict_prefix (clean_comps W) x" for x
    using frame strict_below [OF assms(2)] that by blast
  then have "is_dir ?w' (clean_comps W)" "\<forall>x. \<not> prefix (clean_comps W) x \<longrightarrow> look ?w' x = look (sy_world s) x"
    using assms(3) by (auto simp: git_inv_def work_open_def is_dir_iff strict_prefix_def)
  then show ?thesis
    using w' plain assms(3) by (simp add: git_inv_def work_open_def execute_def emit_def split_def Let_def)
qed

lemma gitCommand_dir: "gitCommand env dir args = Inr c \<Longrightarrow> cmd_dir c = dir"
  by (auto simp: gitCommand_def result_simps)

lemma runGit_inv:
  assumes "git_env_ok env a W w0" and "prefix (clean_comps W) (clean_comps dir)"
  shows "keeps (git_inv a W s0) (runGit env ctx dir args)"
  unfolding keeps_def
proof (intro allI impI)
  fix s
  assume inv: "git_inv a W s0 s"
  show "git_inv a W s0 (snd (runGit env ctx dir args s))"
  proof (cases "gitCommand env dir args")
    case (Inr c)
    then have "git_inv a W s0 (snd (execute env ctx (c\<lparr>cmd_env := cmd_env c @ lfs_env\<rparr>) s))"
      using execute_inv [OF assms(1) _ inv] assms(2) gitCommand_dir [OF Inr] by simp
    then show ?thesis using Inr by (auto simp: runGit_def bindW_def liftE_def split: prod.split option.split)
  qed (use inv in \<open>simp add: runGit_def bindW_def liftE_def\<close>)
qed

lemma gitOutput_inv:
  assumes "git_env_ok env a W w0" and "prefix (clean_comps W) (clean_comps dir)"
  shows "keeps (git_inv a W s0) (gitOutput env ctx dir args)"
  unfolding keeps_def
proof (intro allI impI)
  fix s
  assume inv: "git_inv a W s0 s"
  show "git_inv a W s0 (snd (gitOutput env ctx dir args s))"
  proof (cases "gitCommand env dir args")
    case (Inr c)
    then have "git_inv a W s0 (snd (execute env ctx c s))"
      using execute_inv [OF assms(1) _ inv] assms(2) gitCommand_dir [OF Inr] by simp
    then show ?thesis using Inr by (auto simp: gitOutput_def bindW_def liftE_def split: prod.split option.split)
  qed (use inv in \<open>simp add: gitOutput_def bindW_def liftE_def\<close>)
qed

lemma keeps_option [keeps_intros]: "keeps I m \<Longrightarrow> (\<And>v. keeps I (f v)) \<Longrightarrow> keeps I (case x of None \<Rightarrow> m | Some v \<Rightarrow> f v)"
  by (cases x) simp_all

lemma prepare_inv:
  assumes "work_ready w0 W" and "w0 = sy_world s0"
  shows "keeps (git_inv a W s0) (prepareWorkDirForGit env W)"
proof -
  have "git_inv a W s0 (snd (onW (Chmod W 509) s))" if inv: "git_inv a W s0 s" for s
  proof -
    let ?D = "clean_comps W"
    obtain m where m: "look (sy_world s) ?D = Some (EDir m)" and wf: "wf_world (sy_world s)"
      using inv by (auto simp: git_inv_def work_open_def is_dir_iff)
    have "resolve True (abs_path ?D) (sy_world s) = Found ?D (EDir m)"
      using resolve_abs [OF wf wf_reach [OF wf], of ?D True] m by simp
    then have "Chmod W 509 (sy_world s) = (Inr (), set_entry ?D (EDir 509) (sy_world s))"
      using work_dir_abs [OF assms(1)] by (simp add: Chmod_def)
    moreover have "wf_world (set_entry ?D (EDir 509) (sy_world s))" using wf_set_perm [OF wf m] by simp
    moreover have "plain_source a W (set_entry ?D (EDir 509) (sy_world s)) = plain_source a W (sy_world s)"
      by (rule plain_source_cong) simp
    then have "plain_source a W (set_entry ?D (EDir 509) (sy_world s))" using inv by (simp add: git_inv_def)
    ultimately show ?thesis using inv by (auto simp: git_inv_def work_open_def onW_def is_dir_iff)
  qed
  then show ?thesis unfolding prepareWorkDirForGit_def by (intro keeps_intros) (simp add: keeps_def)
qed

lemma git_part_inv:
  assumes "git_env_ok env a W w0" and "prefix (clean_comps W) (clean_comps dir)"
  shows "keeps (git_inv a W s0) (cloneOrRefresh env ctx a W dir depth)"
    and "keeps (git_inv a W s0) (checkoutRevision env ctx a dir)"
    and "keeps (git_inv a W s0) (fetchMutableRevision env ctx a dir)"
proof -
  note inv = runGit_inv [OF assms] gitOutput_inv [OF assms] runGit_inv [OF assms(1) prefix_order.refl]
  show fetch: "keeps (git_inv a W s0) (fetchMutableRevision env ctx a dir)"
    unfolding fetchMutableRevision_def Let_def by (intro keeps_intros inv)
  show "keeps (git_inv a W s0) (cloneOrRefresh env ctx a W dir depth)"
    unfolding cloneOrRefresh_def Let_def by (intro keeps_intros inv fetch)
  show "keeps (git_inv a W s0) (checkoutRevision env ctx a dir)"
    unfolding checkoutRevision_def Let_def by (intro keeps_intros inv)
qed

section \<open>The requested directory\<close>

lemma namei_plain:
  assumes "namei (w_fs w) False n cur es = Found q e" and "''..'' \<notin> set es"
    and "\<And>pre t. pre \<noteq> [] \<Longrightarrow> strict_prefix pre es \<Longrightarrow> look w (cur @ pre) \<noteq> Some (ELink t)"
  shows "q = cur @ es \<and> look w q = Some e"
  using assms
proof (induction es arbitrary: cur)
  case Nil
  then show ?case by (auto simp: namei.simps look_def split: option.splits)
next
  case (Cons x xs)
  obtain m where m: "map_of (w_fs w) cur = Some (EDir m)"
    using Cons.prems(1) by (auto simp: namei.simps split: option.splits entry.splits)
  obtain y where y: "map_of (w_fs w) (cur @ [x]) = Some y"
    using Cons.prems(1,2) m by (auto simp: namei.simps split: option.splits if_splits)
  show ?case
  proof (cases "xs = []")
    case True
    then show ?thesis using Cons.prems(1,2) m y
      by (cases y) (auto simp: namei.simps look_def split: option.splits)
  next
    case False
    then have "strict_prefix [x] (x # xs)" by (simp add: strict_prefix_def)
    then have "\<forall>t. y \<noteq> ELink t" using Cons.prems(3) [of "[x]"] y by (auto simp: look_def)
    then have step: "namei (w_fs w) False n (cur @ [x]) xs = Found q e"
      using Cons.prems(1,2) m y by (cases y) (auto simp: namei.simps)
    have "q = (cur @ [x]) @ xs \<and> look w q = Some e"
    proof (rule Cons.IH [OF step])
      show "''..'' \<notin> set xs" using Cons.prems(2) by simp
      show "look w ((cur @ [x]) @ pre) \<noteq> Some (ELink t)" if "pre \<noteq> []" "strict_prefix pre xs" for pre t
        using Cons.prems(3) [of "x # pre"] that by simp
    qed
    then show ?thesis by auto
  qed
qed

lemma Lstat_plain:
  assumes "list_all elem_ok p" and "''..'' \<notin> set p" and "Lstat (abs_path p) w = Inr e"
    and "\<And>pre t. pre \<noteq> [] \<Longrightarrow> strict_prefix pre p \<Longrightarrow> look w pre \<noteq> Some (ELink t)"
  shows "look w p = Some e"
proof -
  obtain q where "resolve False (abs_path p) w = Found q e"
    using assms(3) by (auto simp: Lstat_def split: lookup.splits)
  then have "namei (w_fs w) False max_symlinks [] p = Found q e"
    using assms(1) by (auto simp: resolve_def split: if_splits)
  then show ?thesis using namei_plain [of w max_symlinks "[]" p q e] assms(2,4) by auto
qed

lemma source_path_plain:
  assumes "wf_world (sy_world s)" and "is_dir (sy_world s) D" and R: "R = D @ [''repo'']"
    and "source_path a (abs_path R) s = (Inr src, s')"
    and "\<And>pre t. strict_prefix pre (clean_comps (at_path a)) \<Longrightarrow> look (sy_world s) (R @ pre) \<noteq> Some (ELink t)"
  shows "s' = s \<and> src = abs_path (R @ clean_comps (at_path a)) \<and> is_dir (sy_world s) (R @ clean_comps (at_path a))"
proof -
  let ?p = "clean_comps (at_path a)" and ?w = "sy_world s"
  have "list_all name_ok D" using wf_names assms(1,2) by (auto simp: is_dir_iff)
  then have names: "list_all name_ok R" using content_dir_name by (simp add: R)
  then have R': "clean_comps (abs_path R) = R" "IsAbs (abs_path R)" "''..'' \<notin> set R"
    using clean_comps_abs name_ok_elems by blast+
  have join: "abs_path R \<noteq> []" by (simp add: path_string_def)
  obtain v e where src_v: "(if at_path a \<noteq> [] then safeJoin (abs_path R) (at_path a) else Inr (abs_path R)) = Inr v"
    and v: "Lstat v ?w = Inr e" and last: "(case kind_of e of
         KLink \<Rightarrow> fail (Plain (''requested path '' @ at_path a @ '' is a symlink''))
       | KDir \<Rightarrow> ret v
       | _ \<Rightarrow> fail (Plain (''requested path '' @ at_path a @ '' is not a directory''))) s = (Inr src, s')"
    using assms(4) unfolding source_path_def by (auto simp: action_simps)
  have "kind_of e = KDir" using last by (cases "kind_of e") simp_all
  then have e: "Lstat src ?w = Inr e" "kind_of e = KDir" and s': "s' = s"
    and src: "(if at_path a \<noteq> [] then safeJoin (abs_path R) (at_path a) else Inr (abs_path R)) = Inr src"
    using last v src_v by (auto simp: ret_Inr)
  have path: "src = abs_path (R @ ?p)" and dots: "''..'' \<notin> set ?p"
  proof -
    show "src = abs_path (R @ ?p)"
    proof (cases "at_path a = []")
      case False
      then show ?thesis
        using src safeJoin_spec [OF join, of "at_path a" src] R' by (simp add: below_def)
    qed (use src in \<open>simp add: clean_comps_def\<close>)
    show "''..'' \<notin> set ?p"
    proof (cases "at_path a = []")
      case False
      then show ?thesis
        using src safeJoin_spec [OF join, of "at_path a" src] R' by (simp add: safe_rel_def)
    qed (simp add: clean_comps_def)
  qed
  have "look ?w (R @ ?p) = Some e"
  proof (rule Lstat_plain)
    show "list_all elem_ok (R @ ?p)" using names name_ok_elems [OF names] by simp
    show "''..'' \<notin> set (R @ ?p)" using R'(3) dots by simp
    show "Lstat (abs_path (R @ ?p)) ?w = Inr e" using e path by simp
    fix pre t
    assume pre: "pre \<noteq> []" "strict_prefix pre (R @ ?p)"
    show "look ?w pre \<noteq> Some (ELink t)"
    proof (cases "prefix R pre")
      case True
      then obtain q where "pre = R @ q" by (auto simp: prefix_def)
      then show ?thesis using assms(5) [of q t] pre(2) by (simp add: strict_prefix_def)
    next
      case False
      moreover have "prefix pre (R @ ?p)" using pre(2) by (simp add: strict_prefix_def)
      ultimately have "prefix pre D" using R by (metis append_assoc prefix_append prefix_same_cases prefix_snoc prefixI)
      then obtain q where "D = pre @ q" by (auto simp: prefix_def)
      then have "is_dir ?w pre"
        using assms(1,2) wf_strict_ancestors [OF assms(1), of pre] by (cases q) (auto simp: is_dir_iff)
      then show ?thesis by (auto simp: is_dir_iff)
    qed
  qed
  moreover obtain m where "e = EDir m" using e(2) by (cases e) auto
  ultimately show ?thesis using s' path by (simp add: is_dir_iff)
qed

lemma source_path_keeps: "keeps I (source_path a dir)"
proof -
  have "keeps I (case k of KLink \<Rightarrow> fail e | KDir \<Rightarrow> ret v | _ \<Rightarrow> fail e')" for k e e' v
    by (cases k) (simp_all add: keeps_ret keeps_fail)
  then show ?thesis unfolding source_path_def by (intro keeps_intros)
qed

section \<open>The export\<close>

text \<open>The directory the request names in the work tree.\<close>

definition source_dir :: "attributes \<Rightarrow> string \<Rightarrow> string list" where
  "source_dir a W = clean_comps W @ ''repo'' # clean_comps (at_path a)"

definition within_limits :: "git_content_policy \<Rightarrow> int \<Rightarrow> int \<Rightarrow> bool" where
  "within_limits p n sz \<longleftrightarrow>
     (cp_max_file_count (p_clone p) > 0 \<longrightarrow> n \<le> cp_max_file_count (p_clone p))
     \<and> (cp_max_repository_size (p_clone p) > 0 \<longrightarrow> sz \<le> cp_max_repository_size (p_clone p))"

lemma check_limits_iff: "check_limits p n sz = Inr () \<longleftrightarrow> within_limits p n sz"
  by (auto simp: check_limits_def within_limits_def)

text \<open>
  The result of the git backend: the content directory is the exported copy of the requested directory of the
  work tree, and the counts are those of the content.
\<close>

definition git_result :: "git_content_policy \<Rightarrow> attributes \<Rightarrow> string \<Rightarrow> mat_result \<Rightarrow> world \<Rightarrow> bool" where
  "git_result p a W r w \<longleftrightarrow>
     wf_world w \<and> mr_mounted_path r = abs_path (content_dir W)
     \<and> is_dir w (source_dir a W) \<and> links_ok w (source_dir a W)
     \<and> (\<forall>q. look w (content_dir W @ q) = exported w (source_dir a W) q)
     \<and> mr_file_count r = int (card (content_files w (content_dir W)))
     \<and> mr_size_bytes r = total_size w (content_files w (content_dir W))
     \<and> within_limits p (int (card (content_files w (content_dir W)))) (total_size w (content_files w (content_dir W)))"

lemma content_not_source:
  "\<not> prefix (content_dir W) (source_dir a W)" "\<not> prefix (source_dir a W) (content_dir W)"
  "\<not> prefix (content_dir W) (source_dir a W @ q)"
  by (simp_all add: content_dir_def source_dir_def)

lemma export_content_spec:
  assumes "work_ready w0 W" and "work_open w0 W (sy_world s)" and "is_dir (sy_world s) (source_dir a W)"
    and "export_content p (abs_path (source_dir a W)) (abs_path (content_dir W)) s = (r, s')"
  shows "sy_metrics s' = sy_metrics s \<and> wf_world (sy_world s') \<and> w_umask (sy_world s') = w_umask (sy_world s)
    \<and> (\<forall>x. \<not> prefix (content_dir W) x \<longrightarrow> look (sy_world s') x = look (sy_world s) x)
    \<and> (\<forall>n sz. r = Inr (n, sz) \<longrightarrow>
         git_result p a W (zero_mat_result\<lparr>mr_mounted_path := abs_path (content_dir W), mr_file_count := n,
           mr_size_bytes := sz\<rparr>) (sy_world s'))"
proof -
  let ?w = "sy_world s" and ?C = "content_dir W" and ?S = "source_dir a W"
  have wf: "wf_world ?w" and dirW: "is_dir ?w (clean_comps W)" using assms(2) by (simp_all add: work_open_def)
  have C: "?C \<noteq> []" "butlast ?C = clean_comps W" by (simp_all add: content_dir_def)
  have names: "list_all name_ok ?C"
    using assms(1) content_dir_name by (simp add: work_ready_def content_dir_def)
  have "reach ?w ?C" using names dirW C by (simp add: reach_def)
  then obtain w1 where rm: "RemoveAll (abs_path ?C) ?w = (Inr (), w1)" and wf1: "wf_world w1"
    and um1: "w_umask w1 = w_umask ?w" and look1: "\<And>q. look w1 q = (if prefix ?C q then None else look ?w q)"
    using RemoveAll_abs [OF wf _ C(1)] by metis
  have abs: "IsAbs (abs_path ?S)" "IsAbs (abs_path ?C)" "clean_comps (abs_path ?S) = ?S" "clean_comps (abs_path ?C) = ?C"
    using clean_comps_abs [OF names] clean_comps_abs [of ?S] wf_names [OF wf, of ?S] assms(3)
    by (auto simp: is_dir_iff)
  have ready: "copy_ready w1 ?S ?C"
  proof -
    have "is_dir w1 ?S" using assms(3) look1 content_not_source(1) by (simp add: is_dir_iff)
    moreover have "\<not> prefix ?C (clean_comps W)" by (simp add: content_dir_def)
    then have "is_dir w1 (butlast ?C)" using dirW look1 C(2) by (simp add: is_dir_iff)
    moreover have "''..'' \<notin> set ?C" using name_ok_elems [OF names] by blast
    ultimately show ?thesis
      using wf1 C(1) names look1 content_not_source by (simp add: copy_ready_def)
  qed
  obtain r2 w2 where cp: "CopyContentTree (abs_path ?S) (abs_path ?C) w1 = (r2, w2)" by fastforce
  note copied = CopyContentTree_spec [OF abs(1,2) _ cp, unfolded abs(3,4), OF ready]
  have wf2: "wf_world w2" and um: "w_umask w2 = w_umask w1"
    using CopyContentTree_wf [OF abs(1,2), of w1] ready abs(3,4) cp by simp_all
  show ?thesis
  proof (cases r2)
    case (Inl e)
    then show ?thesis
      using assms(4) rm cp copied look1 wf2 um um1 by (auto simp: export_content_def bindW_def onW_def)
  next
    case (Inr u)
    have links: "links_ok w1 ?S" and content: "\<And>q. look w2 (?C @ q) = exported w1 ?S q"
      and out: "\<And>x. \<not> prefix ?C x \<Longrightarrow> look w2 x = look w1 x" using copied Inr by auto
    have src: "look w2 (?S @ q) = look w1 (?S @ q)" for q using out content_not_source(3) by blast
    have "exported w2 ?S q = exported w1 ?S q" for q by (simp add: exported_def src um)
    moreover have "links_ok w2 ?S" using links by (simp add: links_ok_def src)
    moreover have "is_dir w2 ?S" using src [of "[]"] ready by (simp add: is_dir_iff copy_ready_def)
    moreover have "look w2 ?C \<noteq> None"
      using content [of "[]"] ready by (auto simp: exported_def copy_ready_def is_dir_iff)
    note count = countFiles_spec [OF wf2 this]
    ultimately show ?thesis
      using assms(4) rm cp Inr count look1 out content wf2 um um1 check_limits_iff
      by (auto simp: export_content_def bindW_def onW_def git_result_def liftE_def ret_def split: sum.splits)
  qed
qed

lemma gitMaterialize_steps:
  assumes env: "git_env_ok env a W (sy_world s)" and ready: "work_ready (sy_world s) W"
    and call: "gitMaterialize env ctx a p W s = (r, s')"
  shows "changed_below W s s' \<and> (\<forall>res. r = Inr res \<longrightarrow> git_result p a W res (sy_world s'))"
proof -
  define Q where "Q = (\<lambda>(r :: err + mat_result) s'. changed_below W s s' \<and> (\<forall>res. r = Inr res \<longrightarrow> git_result p a W res (sy_world s')))"
  let ?I = "git_inv a W s"
  have early: "Q (Inl e :: err + mat_result) s1" if "?I s1" for e s1
    using that by (simp add: Q_def changed_below_def git_inv_def work_open_def)
  have paths: "Join W ''repo'' = abs_path (clean_comps W @ [''repo''])" "Join W ''content'' = abs_path (content_dir W)"
    using work_child [OF ready] content_dir_name by (simp_all add: content_dir_def)
  have "list_all name_ok (clean_comps W @ [''repo''])" using ready content_dir_name by (simp add: work_ready_def)
  then have pre: "prefix (clean_comps W) (clean_comps (Join W ''repo''))"
    using clean_comps_abs paths(1) by (metis prefixI)
  note inv = runGit_inv [OF env pre] gitOutput_inv [OF env pre] git_part_inv [OF env pre] prepare_inv [OF ready refl]
  obtain w1 where mk: "MkdirAll W privateDirPerm (sy_world s) = (Inr (), w1)" "work_open (sy_world s) W w1"
      "\<And>x. x \<noteq> clean_comps W \<Longrightarrow> look w1 x = look (sy_world s) x"
    by (rule MkdirAll_work [OF ready, of privateDirPerm]) (rule that)
  have I1: "?I (s\<lparr>sy_world := w1\<rparr>)"
    using mk(2,3) env by (simp add: git_inv_def git_env_ok_def plain_source_def)
  have seq: "Q r s'" if "bindW m f t = (r, s')" "keeps ?I m" "?I t"
    "\<And>v s1. m t = (Inr v, s1) \<Longrightarrow> ?I s1 \<Longrightarrow> f v s1 = (r, s') \<Longrightarrow> Q r s'" for m f t
    using that(1-3) by (rule bind_post) (use that(4) early in blast)+
  let ?sub = "if at_submodules a
             then wrapE ''git submodule update failed''
                    (runGit env ctx (Join W ''repo'')
                      [''submodule'', ''update'', ''--init'', ''--depth'', Itoa (sp_max_depth (p_submodules p))])
             else ret ()"
  have sub: "keeps ?I ?sub" by (intro keeps_intros inv)
  have out: "keeps ?I (wrapE msg (gitOutput env ctx (Join W ''repo'') args))" for msg args by (intro keeps_intros inv)
  have rest: "Q r s'"
    if "wrapE msg (gitOutput env ctx (Join W ''repo'') args) s5 = (Inr resolved, s6)" and "?I s6"
      and run: "bindW (source_path a (Join W ''repo'')) (\<lambda>src. bindW (export_content p src (Join W ''content'')) (\<lambda>(files, sz).
        ret (zero_mat_result\<lparr>mr_resolved := resolved, mr_repo_path := Join W ''repo'',
               mr_mounted_path := Join W ''content'', mr_file_count := files, mr_size_bytes := sz\<rparr>))) s6 = (r, s')"
    for resolved s5 s6 msg args
  proof -
    let ?w = "sy_world s6"
    have open6: "work_open (sy_world s) W ?w" "sy_metrics s6 = sy_metrics s" using \<open>?I s6\<close> by (simp_all add: git_inv_def)
    have no_link: "look ?w ((clean_comps W @ [''repo'']) @ pre) \<noteq> Some (ELink t)"
      if "strict_prefix pre (clean_comps (at_path a))" for pre t
      using that \<open>?I s6\<close> by (simp add: git_inv_def plain_source_def)
    show "Q r s'"
    proof (rule seq [OF run source_path_keeps \<open>?I s6\<close>])
      fix src s7
      assume sp: "source_path a (Join W ''repo'') s6 = (Inr src, s7)"
        and ex: "bindW (export_content p src (Join W ''content'')) (\<lambda>(files, sz).
          ret (zero_mat_result\<lparr>mr_resolved := resolved, mr_repo_path := Join W ''repo'',
               mr_mounted_path := Join W ''content'', mr_file_count := files, mr_size_bytes := sz\<rparr>)) s7 = (r, s')"
      have "wf_world ?w" "is_dir ?w (clean_comps W)" using open6(1) by (simp_all add: work_open_def)
      note src = source_path_plain [OF this refl sp [unfolded paths(1)] no_link]
      have s7: "s7 = s6" and src_abs: "src = abs_path (source_dir a W)" and dir: "is_dir ?w (source_dir a W)"
        using src by (simp_all add: source_dir_def)
      obtain r8 s8 where e8: "export_content p src (Join W ''content'') s7 = (r8, s8)" by fastforce
      note spec = export_content_spec [OF ready open6(1) dir e8 [unfolded s7 src_abs paths(2)]]
      have "\<not> prefix (content_dir W) x" if "\<not> prefix (clean_comps W) x" for x
        using that by (auto simp: content_dir_def dest: append_prefixD)
      moreover have "\<not> prefix (content_dir W) (clean_comps W)" by (simp add: content_dir_def)
      ultimately have frame: "changed_below W s s8"
        using spec open6 s7 by (simp add: changed_below_def work_open_def is_dir_iff)
      show "Q r s'"
      proof (cases r8)
        case (Inl e)
        then show ?thesis using ex e8 frame by (auto simp: bindW_def Q_def)
      next
        case (Inr nsz)
        obtain n sz where nsz: "nsz = (n, sz)" by fastforce
        then have "r = Inr (zero_mat_result\<lparr>mr_resolved := resolved, mr_repo_path := Join W ''repo'',
               mr_mounted_path := Join W ''content'', mr_file_count := n, mr_size_bytes := sz\<rparr>)" "s' = s8"
          using ex e8 Inr by (simp_all add: bindW_def ret_def)
        then show ?thesis using spec frame Inr nsz by (simp add: Q_def git_result_def paths(2))
      qed
    qed
  qed
  have "bindW (prepareWorkDirForGit env W) (\<lambda>_.
      bindW (cloneOrRefresh env ctx a W (Join W ''repo'') (clone_depth a p)) (\<lambda>_.
      bindW (checkoutRevision env ctx a (Join W ''repo'')) (\<lambda>_. bindW ?sub (\<lambda>_.
      bindW (wrapE ''resolve revision failed'' (gitOutput env ctx (Join W ''repo'') [''rev-parse'', ''HEAD''])) (\<lambda>resolved.
      bindW (source_path a (Join W ''repo'')) (\<lambda>src. bindW (export_content p src (Join W ''content'')) (\<lambda>(files, sz).
        ret (zero_mat_result\<lparr>mr_resolved := resolved, mr_repo_path := Join W ''repo'',
               mr_mounted_path := Join W ''content'', mr_file_count := files, mr_size_bytes := sz\<rparr>))))))))
      (s\<lparr>sy_world := w1\<rparr>) = (r, s')"
    using call mk(1) by (simp add: gitMaterialize_def Let_def bindW_def [of "onW _"] onW_def)
  then have "Q r s'"
    by (elim seq [OF _ inv(6)] seq [OF _ inv(3)] seq [OF _ inv(4)] seq [OF _ sub] seq [OF _ out] rest) (rule I1)
  then show ?thesis by (simp add: Q_def)
qed

text \<open>
  C10. What the git backend delivers, for a git program that stays inside the directory it is run in and a
  requested path without links: whatever the outcome, nothing outside the work directory changes; and after a
  success the content directory is, entry by entry, the export of the requested directory of the work tree
  (whose links all pass the check), the counts are those of the content, and the policy's limits hold of them.
\<close>

theorem gitMaterialize_content:
  assumes "git_env_ok env a W (sy_world s)" and "work_ready (sy_world s) W"
  shows "changed_below W s (snd (gitMaterialize env ctx a p W s))
    \<and> (\<forall>res. fst (gitMaterialize env ctx a p W s) = Inr res \<longrightarrow>
         git_result p a W res (sy_world (snd (gitMaterialize env ctx a p W s))))"
  using gitMaterialize_steps [OF assms surjective_pairing] .

section \<open>The contract\<close>

lemma content_files_finite: "finite (content_files w C)"
proof -
  have "content_files w C \<subseteq> fst ` set (w_fs w)" using look_key by (auto simp: content_files_def)
  then show ?thesis by (rule finite_subset) simp
qed

lemma git_result_materialized:
  assumes "git_result p a W r w"
  shows "materialized p W r w"
proof -
  let ?C = "content_dir W" and ?S = "source_dir a W"
  have g: "wf_world w" "mr_mounted_path r = abs_path ?C" "is_dir w ?S"
    "\<And>q. look w (?C @ q) = exported w ?S q"
    "within_limits p (int (card (content_files w ?C))) (total_size w (content_files w ?C))"
    using assms by (simp_all add: git_result_def)
  have sub: "regular_files w ?C \<subseteq> content_files w ?C"
    by (auto simp: regular_files_def content_files_def is_dir_iff)
  have dir: "is_dir w ?C"
    using g(4) [of "[]"] g(3) by (auto simp: exported_def is_dir_iff)
  have ok: "''.git'' \<notin> set q \<and> kind_of e \<noteq> KSpecial" if "look w (?C @ q) = Some e" for q e
  proof -
    have ex: "exported w ?S q = Some e" using that g(4) by simp
    then obtain e0 where "''.git'' \<notin> set q" "copied_entry (w_umask w) e0 = Some e"
      by (auto simp: exported_def bind_eq_Some_conv split: if_splits)
    then show ?thesis by (cases e0) auto
  qed
  have "card (regular_files w ?C) \<le> card (content_files w ?C)"
    using sub content_files_finite by (rule card_mono [rotated])
  moreover have "total_size w (regular_files w ?C) \<le> total_size w (content_files w ?C)"
    by (rule total_size_mono [OF content_files_finite sub]) (simp add: content_files_def)
  ultimately show ?thesis
    using g(1,2,5) dir ok unfolding materialized_def within_limits_def by fastforce
qed

interpretation git: backend gitMaterialize git_env_ok
  by unfold_locales (use gitMaterialize_steps git_result_materialized in blast)+

section \<open>A run\<close>

text \<open>The scripted git stays in its directory, since it clones only into a missing \<^verbatim>\<open>repo\<close> below it.\<close>

lemma look_fold_put:
  "look (fold (\<lambda>(q, e). put (B @ q) e) tr w) x =
     (if prefix B x then (case map_of (rev tr) (drop (length B) x) of Some e \<Rightarrow> Some e | None \<Rightarrow> look w x) else look w x)"
proof (induction tr rule: rev_induct)
  case (snoc a tr)
  obtain q e where a: "a = (q, e)" by (cases a)
  have "x = B @ q \<longleftrightarrow> prefix B x \<and> drop (length B) x = q" by (auto simp: prefix_def)
  then show ?case using snoc by (simp add: a)
qed simp

lemma site_put:
  assumes "wf_world w" and "is_dir w D" and "look w (D @ [''repo'']) = None"
  shows "wf_world (fold (\<lambda>(q, e). put ((D @ [''repo'']) @ q) e) site_tree w)"
    and "w_umask (fold (\<lambda>(q, e). put ((D @ [''repo'']) @ q) e) site_tree w) = w_umask w"
    and "\<not> strict_prefix D x \<Longrightarrow> look (fold (\<lambda>(q, e). put ((D @ [''repo'']) @ q) e) site_tree w) x = look w x"
    and "look (fold (\<lambda>(q, e). put ((D @ [''repo'']) @ q) e) site_tree w) x = Some (ELink t) \<Longrightarrow> look w x = Some (ELink t)"
proof -
  have names: "name_ok ''repo''" "name_ok ''.git''" "name_ok ''HEAD''" "name_ok ''public''" "name_ok ''assets''" "name_ok ''a.css''"
    by code_simp+
  have none: "look w (D @ ''repo'' # q) = None" for q
    using wf_missing [OF assms(1,3), of q] by simp
  show "wf_world (fold (\<lambda>(q, e). put ((D @ [''repo'']) @ q) e) site_tree w)"
    unfolding site_tree_def using assms(1,2) names none
    by (simp, intro wf_put) (simp_all add: is_dir_iff entry_ok_def butlast_append)
  show "w_umask (fold (\<lambda>(q, e). put ((D @ [''repo'']) @ q) e) site_tree w) = w_umask w" by (simp add: site_tree_def)
  show "\<not> strict_prefix D x \<Longrightarrow> look (fold (\<lambda>(q, e). put ((D @ [''repo'']) @ q) e) site_tree w) x = look w x"
  proof -
    assume "\<not> strict_prefix D x"
    then have "\<not> prefix (D @ [''repo'']) x" by (auto simp: strict_prefix_def dest: append_prefixD)
    then show ?thesis by (simp add: look_fold_put del: append_assoc)
  qed
  have "list_all (\<lambda>(q, e). kind_of e \<noteq> KLink) (rev site_tree)" by code_simp
  then have "map_of (rev site_tree) q \<noteq> Some (ELink t)" for q
    by (fastforce simp: list_all_iff dest: map_of_SomeD)
  then show "look (fold (\<lambda>(q, e). put ((D @ [''repo'']) @ q) e) site_tree w) x = Some (ELink t) \<Longrightarrow> look w x = Some (ELink t)"
    by (simp add: look_fold_put del: append_assoc split: if_split_asm option.split_asm)
qed

lemma site_env_ok: "plain_source a W w \<Longrightarrow> git_env_ok (example_env site_tree) a W w"
proof -
  have git: "ge_git (example_env site_tree) = scripted_git site_tree" by (simp add: example_env_def)
  have run: "snd (scripted_git site_tree ctx c v) = v
      \<or> is_dir v (clean_comps (cmd_dir c)) \<and> look v (clean_comps (cmd_dir c) @ [''repo'']) = None
        \<and> snd (scripted_git site_tree ctx c v) = fold (\<lambda>(q, e). put ((clean_comps (cmd_dir c) @ [''repo'']) @ q) e) site_tree v" for ctx c v
    by (auto simp: scripted_git_def Let_def)
  have con: "wf_world (snd (scripted_git site_tree ctx c v)) \<and> w_umask (snd (scripted_git site_tree ctx c v)) = w_umask v
      \<and> (\<forall>x. \<not> strict_prefix (clean_comps (cmd_dir c)) x \<longrightarrow> look (snd (scripted_git site_tree ctx c v)) x = look v x)
      \<and> (plain_source a W v \<longrightarrow> plain_source a W (snd (scripted_git site_tree ctx c v)))" if "wf_world v" for ctx c v
    using run [of ctx c v]
  proof (elim disjE conjE, goal_cases)
    case 2
    note put = site_put [OF that 2(1,2)]
    have "plain_source a W v \<longrightarrow> plain_source a W (snd (scripted_git site_tree ctx c v))"
      unfolding plain_source_def 2(3) using put(4) by blast
    then show ?case using put(1-3) unfolding 2(3) by blast
  qed (use that in simp)
  assume "plain_source a W w"
  then show ?thesis unfolding git_env_ok_def git_contained_def git Let_def using con by simp
qed

lemma node_ready: "work_ready (sy_world node) ''/cache/k''"
proof -
  have "wf_world node_world" unfolding wf_world_code by code_simp
  moreover have "IsAbs ''/cache/k''" "Clean ''/cache/k'' = ''/cache/k''" "clean_comps ''/cache/k'' = [''cache'', ''k'']"
    "list_all name_ok [''cache'', ''k'']" "is_dir node_world [''cache'']" "look node_world [''cache'', ''k''] = None"
    by code_simp+
  ultimately show ?thesis by (simp add: work_ready_def node_def)
qed

lemma node_env_ok: "git_env_ok (example_env site_tree) a ''/cache/k'' (sy_world node)"
proof (rule site_env_ok)
  have "wf_world node_world" using node_ready by (simp add: work_ready_def node_def)
  moreover have "look node_world [''cache'', ''k''] = None" "clean_comps ''/cache/k'' = [''cache'', ''k'']" by code_simp+
  ultimately have "look node_world (clean_comps ''/cache/k'' @ q) = None" for q
    using wf_missing [of node_world "[''cache'', ''k'']" q] by simp
  then show "plain_source a ''/cache/k'' (sy_world node)" by (simp add: plain_source_def node_def)
qed

theorem gitMaterialize_content_witness:
  "\<exists>res s'. gitMaterialize (example_env site_tree) no_ctx example_attributes
        (applyPolicyDefaults example_policy) ''/cache/k'' node = (Inr res, s')
     \<and> git_result (applyPolicyDefaults example_policy) example_attributes ''/cache/k'' res (sy_world s')
     \<and> look (sy_world s') [''etc'', ''ssl'', ''key''] = Some (EFile ''secret'' 384)"
proof -
  let ?m = "gitMaterialize (example_env site_tree) no_ctx example_attributes (applyPolicyDefaults example_policy)
    ''/cache/k'' node"
  have "is_ok (fst ?m)" by code_simp
  then obtain res where res: "fst ?m = Inr res" by (auto simp: is_ok_iff)
  have "clean_comps ''/cache/k'' = [''cache'', ''k'']" "look node_world [''etc'', ''ssl'', ''key''] = Some (EFile ''secret'' 384)"
    by code_simp+
  moreover note gitMaterialize_content [OF node_env_ok node_ready, of no_ctx example_attributes "applyPolicyDefaults example_policy"]
  ultimately show ?thesis
    using res by (intro exI [of _ res] exI [of _ "snd ?m"]) (auto simp: changed_below_def node_def prod_eq_iff)
qed

end
