(* ===== verification/NodeGate.thy ===== *)
theory NodeGate
  imports NodePlugin GitSpec
begin

text \<open>
  The gate of the mount pipeline: nothing is run, cloned or written for a request that does not parse or that
  the policies refuse; the errors of the two front ends; the target of an HTTP mount; and what the metrics
  count.
\<close>

section \<open>The target of an HTTP mount\<close>

lemma clean_elems_keeps_dots: "''..'' \<in> set acc \<Longrightarrow> ''..'' \<in> set (clean_elems False acc es)"
proof (induction es arbitrary: acc)
  case (Cons e es)
  then show ?case by (cases acc) auto
qed simp

lemma climbs_not_local: "climbs rel \<Longrightarrow> \<not> IsLocal rel"
proof
  assume c: "climbs rel" and l: "IsLocal rel"
  have "\<not> IsAbs rel" "''..'' \<notin> set (clean_comps rel)" using l by (simp_all add: IsLocal_iff)
  moreover have "''..'' \<in> set (clean_comps rel)"
  proof -
    have "\<exists>es. path_elems rel = ''..'' # es"
    proof (cases "rel = ''..''")
      case True
      then show ?thesis by (simp add: path_elems_def)
    next
      case False
      then obtain s where "rel = ''..'' @ CHR ''/'' # s" using c by (auto simp: climbs_def prefix_def)
      then show ?thesis using split_on_append_sep [of "CHR ''/''" "''..''" s] by (simp add: path_elems_def)
    qed
    then show ?thesis using \<open>\<not> IsAbs rel\<close> using clean_elems_keeps_dots [of "[''..'']"] by (auto simp: clean_comps_def)
  qed
  ultimately show False by simp
qed

lemma safeTargetPath_spec:
  assumes "IsAbs root"
  shows "safeTargetPath root candidate = Inr t \<longleftrightarrow>
    IsAbs candidate \<and> strict_prefix (clean_comps root) (clean_comps candidate) \<and> t = Clean candidate"
proof (cases "IsAbs candidate")
  case abs: True
  have dots: "''..'' \<notin> set (clean_comps root)" "''..'' \<notin> set (clean_comps candidate)"
    using IsAbs_no_dots assms abs by blast+
  have root: "root \<noteq> []" "Clean root \<noteq> []" "IsAbs (Clean root)" using assms by (simp_all, auto simp: IsAbs_def)
  show ?thesis
  proof (cases "inside root candidate")
    case True
    then have pre: "prefix (clean_comps root) (clean_comps candidate)" by (simp add: inside_def)
    have rel: "Rel (Clean root) (Clean candidate) = Some (if clean_comps root = clean_comps candidate then ''.''
        else join_with CHR ''/'' (drop (length (clean_comps root)) (clean_comps candidate)))"
      using Rel_inside [of "Clean root" "Clean candidate"] True by simp
    show ?thesis
    proof (cases "clean_comps root = clean_comps candidate")
      case True
      then show ?thesis using rel assms abs root by (simp add: safeTargetPath_def Let_def)
    next
      case False
      let ?us = "drop (length (clean_comps root)) (clean_comps candidate)"
      have us: "?us \<noteq> []" using False pre by (auto simp: prefix_def)
      have "\<forall>e \<in> set ?us. plain_elem e"
        using clean_comps_ok [of candidate] dots(2) by (auto simp: list_all_iff plain_elem_def dest: in_set_dropD)
      note join = repo_path_clean_comps [OF this]
      have "join_with CHR ''/'' ?us \<noteq> ''.''"
      proof
        assume "join_with CHR ''/'' ?us = ''.''"
        then have "clean_comps (join_with CHR ''/'' ?us) = []" by (simp add: clean_comps_def path_elems_def)
        then show False using join us by simp
      qed
      moreover have "join_with CHR ''/'' ?us \<noteq> []"
      proof
        assume "join_with CHR ''/'' ?us = []"
        then have "clean_comps (join_with CHR ''/'' ?us) = []" by (simp add: clean_comps_def path_elems_def)
        then show False using join us by simp
      qed
      then have "IsLocal (join_with CHR ''/'' ?us)"
        using join dots(2) by (auto simp: IsLocal_iff dest: in_set_dropD)
      moreover note this
      moreover have "Join (Clean root) (join_with CHR ''/'' ?us) = Clean candidate"
        using Join_local [OF root(2), of "join_with CHR ''/'' ?us"] join dots(2) abs assms prefix_drop_append [OF pre]
        by (auto simp: Clean_def [of candidate] dest: in_set_dropD)
      moreover have "strict_prefix (clean_comps root) (clean_comps candidate)" using pre False by (simp add: strict_prefix_def)
      ultimately show ?thesis using rel False assms abs root by (auto simp: safeTargetPath_def Let_def)
    qed
  next
    case False
    have "\<not> IsLocal rel" if "Rel (Clean root) (Clean candidate) = Some rel" for rel
      using Rel_outside [of "Clean root" "Clean candidate" rel] that False dots climbs_not_local by simp
    then show ?thesis
      using False assms abs root by (auto simp: safeTargetPath_def Let_def inside_def strict_prefix_def split: option.splits)
  qed
qed (simp add: safeTargetPath_def Let_def assms)

interpretation target: strict_jail IsAbs safeTargetPath
proof
  fix r p t
  assume r: "IsAbs r" and j: "safeTargetPath r p = Inr t"
  then have t: "IsAbs p" "strict_prefix (clean_comps r) (clean_comps p)" "t = Clean p"
    using safeTargetPath_spec by blast+
  show "inside r t" using r t by (simp add: inside_def strict_prefix_def)
  show "Clean t = t" "IsAbs t" using t by simp_all
  show "clean_comps t \<noteq> clean_comps r" using t by (auto simp: strict_prefix_def)
qed

text \<open>
  C32. The target of an HTTP mount: it is accepted exactly when it is absolute and, cleaned, strictly below the
  target root; the path that is used is the cleaned target, so no mount can replace the root itself or
  anything outside it by name.
\<close>

theorem safeTargetPath_iff:
  assumes "IsAbs root"
  shows "safeTargetPath root candidate = Inr t \<longleftrightarrow>
    IsAbs candidate \<and> strict_prefix (clean_comps root) (clean_comps candidate) \<and> t = Clean candidate"
  by (rule safeTargetPath_spec [OF assms])

theorem safeTargetPath_iff_witness:
  "safeTargetPath ''/var/lib/kubelet'' ''/var/lib/kubelet/pods/../x'' = Inr ''/var/lib/kubelet/x''
   \<and> (\<forall>t. safeTargetPath ''/var/lib/kubelet'' ''/var/lib/kubelet/../x'' \<noteq> Inr t)"
proof -
  have "IsAbs ''/var/lib/kubelet''" "IsAbs ''/var/lib/kubelet/pods/../x''"
    "Clean ''/var/lib/kubelet/pods/../x'' = ''/var/lib/kubelet/x''"
    "strict_prefix (clean_comps ''/var/lib/kubelet'') (clean_comps ''/var/lib/kubelet/pods/../x'')"
    "\<not> strict_prefix (clean_comps ''/var/lib/kubelet'') (clean_comps ''/var/lib/kubelet/../x'')"
    by code_simp+
  then show ?thesis
    using safeTargetPath_iff [of "''/var/lib/kubelet''"] by simp
qed

section \<open>The gate\<close>

text \<open>Reading the clock.\<close>

definition tick :: "sys \<Rightarrow> sys" where
  "tick s = s\<lparr>sy_world := (sy_world s)\<lparr>w_ticks := Suc (w_ticks (sy_world s))\<rparr>\<rparr>"

definition clock :: "sys \<Rightarrow> int" where
  "clock s = w_clock (sy_world s) (w_ticks (sy_world s))"

lemma now_eq: "now s = (Inr (clock s), tick s)"
  by (simp add: now_def onW_def time_now_def tick_def clock_def)

lemma tick_simps [simp]:
  "sy_log (tick s) = sy_log s" "sy_metrics (tick s) = sy_metrics s" "w_fs (sy_world (tick s)) = w_fs (sy_world s)"
  "look (sy_world (tick s)) x = look (sy_world s) x" "w_umask (sy_world (tick s)) = w_umask (sy_world s)"
  "w_clock (sy_world (tick s)) = w_clock (sy_world s)" "wf_world (sy_world (tick s)) = wf_world (sy_world s)"
  by (simp_all add: tick_def)

lemma meter_eq: "meter f s = (Inr (), s\<lparr>sy_metrics := f (sy_metrics s)\<rparr>)"
  by (simp add: meter_def)

text \<open>No process was started, nothing was cloned and no file changed.\<close>

definition untouched :: "sys \<Rightarrow> sys \<Rightarrow> bool" where
  "untouched s s' \<longleftrightarrow> sy_log s' = sy_log s \<and> w_fs (sy_world s') = w_fs (sy_world s)"

definition decision :: "pipeline \<Rightarrow> string \<Rightarrow> attributes \<Rightarrow> eval_result \<times> git_content_policy" where
  "decision pl namespace attrs =
     Evaluate (pl_regex pl) (pl_policies pl) (mount_request namespace attrs) (at_policy attrs)"

lemma materialize_parse_error:
  "Parse raw = Inl e \<Longrightarrow> materialize pl ctx ns tgt raw s = (Inl (badRequest (Plain e)), tick s)"
  by (simp add: materialize_def bindW_def plainly_def now_eq fail_def)

text \<open>The state after a denial: two clock readings, one observation and one denial counted.\<close>

definition denied_state :: "string \<Rightarrow> git_content_policy \<Rightarrow> eval_result \<Rightarrow> sys \<Rightarrow> sys" where
  "denied_state ns pol res s =
     (tick (tick s))\<lparr>sy_metrics :=
       (ObserveMount ns (p_name pol) ''denied'' (clock (tick s) - clock s) (sy_metrics s))
         \<lparr>m_policy_denials := Inc [ns, p_name pol, res_denial_reason_code res] (m_policy_denials (sy_metrics s))\<rparr>\<rparr>"

lemma materialize_denied:
  assumes "Parse raw = Inr a" and "decision pl ns a = (res, pol)" and "\<not> res_allowed res"
  shows "materialize pl ctx ns tgt raw s = (Inl (forbidden (Plain (res_denial_reason res))), denied_state ns pol res s)"
  using assms(2)
  by (simp add: materialize_def observe_mount_def bindW_def plainly_def now_eq meter_eq fail_def assms(1,3)
       decision_def denied_state_def ObserveMount_def)

lemma materialize_allowed:
  assumes "Parse raw = Inr a" and "decision pl ns a = (res, pol)" and "res_allowed res"
  shows "materialize pl ctx ns tgt raw s = run_mount pl ctx ns tgt a pol (res_resolved_profile res) (clock s) (tick s)"
  using assms(2) by (simp add: materialize_def bindW_def plainly_def now_eq assms(1,3) decision_def)

lemma observe_mount_eq:
  "observe_mount ns pol res start s =
     (Inr (), (tick s)\<lparr>sy_metrics := ObserveMount ns (p_name pol) res (clock s - start) (sy_metrics s)\<rparr>)"
  by (simp add: observe_mount_def bindW_def plainly_def now_eq meter_eq)

text \<open>An allowed request: the lookup is counted, then the backend runs below the cache path.\<close>

definition looked_up :: "pipeline \<Rightarrow> attributes \<Rightarrow> string \<Rightarrow> sys \<Rightarrow> sys" where
  "looked_up pl a profile s =
     (let m = sy_metrics s; host = policyHost (at_repo a) in
      (tick s)\<lparr>sy_metrics :=
        (if is_ok (Stat (cache_path (pl_cache pl) a profile) (sy_world (tick s)))
         then m\<lparr>m_cache_hits := Inc [host] (m_cache_hits m)\<rparr>
         else m\<lparr>m_cache_misses := Inc [host] (m_cache_misses m)\<rparr>)\<rparr>)"

lemma looked_up_simps [simp]:
  "sy_log (looked_up pl a profile s) = sy_log s" "sy_world (looked_up pl a profile s) = sy_world (tick s)"
  "m_mount_requests (sy_metrics (looked_up pl a profile s)) = m_mount_requests (sy_metrics s)"
  "m_policy_denials (sy_metrics (looked_up pl a profile s)) = m_policy_denials (sy_metrics s)"
  "mounts_timed (sy_metrics (looked_up pl a profile s)) = mounts_timed (sy_metrics s)"
  by (simp_all add: looked_up_def Let_def mounts_timed_def)

definition mount_ctx :: "ctx \<Rightarrow> git_content_policy \<Rightarrow> sys \<Rightarrow> ctx" where
  "mount_ctx ctx pol s = WithTimeout ctx (clock s) (cp_timeout (p_clone pol))"

definition failed_mount ::
  "ctx \<Rightarrow> string \<Rightarrow> git_content_policy \<Rightarrow> int \<Rightarrow> err \<Rightarrow> mount_result mount_action" where
  "failed_mount mountCtx namespace pol start e =
     bindW (observe_mount namespace pol ''error'' start) (\<lambda>_.
     bindW (plainly now) (\<lambda>t.
       if (case ctx_err mountCtx t of Some c \<Rightarrow> is_deadline c | None \<Rightarrow> False)
       then fail (OtherError deadline_error)
       else fail (OtherError e)))"

lemma run_mount_eq:
  "run_mount pl ctx ns tgt a pol profile start s =
    (case pl_mat pl (mount_ctx ctx pol s) a pol (cache_path (pl_cache pl) a profile) (looked_up pl a profile s) of
       (Inl e, s1) \<Rightarrow> failed_mount (mount_ctx ctx pol s) ns pol start e s1
     | (Inr mr, s1) \<Rightarrow> finish_mount pl ns tgt a pol profile start mr s1)"
proof -
  have hit: "plainly (observe f) s = (Inr (f (sy_world s)), s)" for f :: "world \<Rightarrow> bool" and s
    by (simp add: plainly_def observe_def)
  have met: "plainly (meter f) s = (Inr (), s\<lparr>sy_metrics := f (sy_metrics s)\<rparr>)" for f s
    by (simp add: plainly_def meter_eq)
  have clk: "plainly now s = (Inr (clock s), tick s)" for s by (simp add: plainly_def now_eq)
  have bind: "m s = (Inr v, s1) \<Longrightarrow> bindW m f s = f v s1" for m :: "'b mount_action" and f :: "'b \<Rightarrow> 'c mount_action" and s v s1
    by (simp add: bindW_def)
  show ?thesis
    unfolding run_mount_def mount_ctx_def failed_mount_def Let_def bind [OF clk] bind [OF hit] bind [OF met]
    by (simp add: looked_up_def Let_def)
qed

lemma refused_untouched: "untouched s (tick s)" "untouched s (denied_state ns pol res s)"
  by (simp_all add: untouched_def denied_state_def)

lemma mount_allowed:
  assumes "materialize pl ctx ns tgt raw s = (r, s')" and "is_ok r \<or> \<not> untouched s s'"
  shows "\<exists>a. Parse raw = Inr a \<and> res_allowed (fst (decision pl ns a))"
proof (cases "Parse raw")
  case (Inl e)
  then show ?thesis using assms refused_untouched(1) by (auto simp: materialize_parse_error)
next
  case (Inr a)
  obtain res pol where d: "decision pl ns a = (res, pol)" by fastforce
  show ?thesis
  proof (cases "res_allowed res")
    case False
    then show ?thesis using assms refused_untouched(2) unfolding materialize_denied [OF Inr d False] by auto
  qed (use Inr d in simp)
qed

text \<open>
  C3. No mount without permission. If a request makes the pipeline start a process, clone a repository or
  change a file, or if it succeeds, then its attributes were parsed and the policies allow it. This holds for
  every backend, namespace and target.
\<close>

theorem mount_needs_permission:
  assumes "materialize pl ctx ns tgt raw s = (r, s')" and "is_ok r \<or> \<not> untouched s s'"
  shows "\<exists>a. Parse raw = Inr a \<and> res_allowed (fst (decision pl ns a))"
  by (rule mount_allowed [OF assms])

text \<open>A pipeline with one policy, for any backend; and a backend that starts git and does not reach the host.\<close>

definition example_pipeline :: "materializer \<Rightarrow> pipeline" where
  "example_pipeline mat =
     \<lparr>pl_regex = no_regex, pl_policies = [applyPolicyDefaults example_policy], pl_mat = mat,
      pl_cache = \<lparr>c_root = ''/cache'', c_max_size = 10 * 1024 * 1024 * 1024, c_max_age = seconds 86400\<rparr>,
      pl_target_root = ''/var/lib/kubelet'', pl_sort = sort_key it_mod, pl_iter = id\<rparr>"

definition offline :: materializer where
  "offline ctx a p W s =
     (Inl (Plain ''git clone failed''),
      emit (Ran \<lparr>cmd_path = ''/usr/bin/git'', cmd_args = [''clone'', ''--'', at_repo a], cmd_dir = W, cmd_env = [],
                 cmd_cred = None\<rparr>) s)"

lemma example_decision:
  "decision (example_pipeline mat) ''web'' example_attributes =
     (\<lparr>res_allowed = True, res_resolved_profile = ''reader'', res_denial_reason_code = [],
       res_denial_reason = []\<rparr>, applyPolicyDefaults example_policy)"
  using example_evaluate
  by (simp add: decision_def example_pipeline_def mount_request_def example_attributes_def example_request_def)

lemma example_refused:
  "decision (example_pipeline mat) ''default'' example_attributes =
     (denied ''policy_not_found'' ''no matching policy found'', zero_policy)"
proof -
  have "selectPolicy [applyPolicyDefaults example_policy] ''default'' [] = None"
    unfolding selectPolicy_find by code_simp
  then show ?thesis
    by (simp add: decision_def example_pipeline_def mount_request_def example_attributes_def Evaluate_def)
qed

lemma example_run:
  "materialize (example_pipeline mat) ctx ''web'' tgt example_raw s =
     run_mount (example_pipeline mat) ctx ''web'' tgt example_attributes (applyPolicyDefaults example_policy) ''reader''
       (clock s) (tick s)"
  using materialize_allowed [OF Parse_example example_decision] by simp

theorem mount_needs_permission_witness:
  "\<exists>r s'. materialize (example_pipeline offline) no_ctx ''web'' [] example_raw node = (r, s')
     \<and> sy_log s' \<noteq> []
     \<and> (\<exists>a. Parse example_raw = Inr a \<and> res_allowed (fst (decision (example_pipeline offline) ''web'' a)))"
proof -
  obtain r s' where m: "materialize (example_pipeline offline) no_ctx ''web'' [] example_raw node = (r, s')" by fastforce
  have mat: "pl_mat (example_pipeline offline) = offline" by (simp add: example_pipeline_def)
  have "sy_log s' \<noteq> []"
    using m by (auto simp: example_run run_mount_eq mat offline_def failed_mount_def bindW_def plainly_def now_eq
        observe_mount_eq fail_def emit_def split: if_splits)
  moreover have "sy_log node = []" by (simp add: node_def)
  ultimately show ?thesis using m mount_needs_permission [OF m] by (auto simp: untouched_def)
qed

section \<open>Errors\<close>

definition other_errors :: "'a mount_action \<Rightarrow> bool" where
  "other_errors m \<longleftrightarrow> (\<forall>s e s'. m s = (Inl e, s') \<longrightarrow> (\<exists>e'. e = OtherError e'))"

named_theorems other_intros \<open>steps that fail with plain errors only\<close>

lemma other_bindW [other_intros]: "other_errors m \<Longrightarrow> (\<And>v. other_errors (f v)) \<Longrightarrow> other_errors (bindW m f)"
  unfolding other_errors_def bindW_Inl by blast

lemma other_plainly [other_intros]: "other_errors (plainly m)"
  by (auto simp: other_errors_def plainly_def split: prod.splits sum.splits)

lemma other_ignoring [other_intros]: "other_errors (ignoring act)"
  by (simp add: other_errors_def ignoring_def)

lemma other_ret [other_intros]: "other_errors (ret v)"
  by (simp add: other_errors_def ret_def)

lemma other_fail [other_intros]: "other_errors (fail (OtherError e))"
  by (simp add: other_errors_def fail_def)

lemma other_if [other_intros]: "other_errors m \<Longrightarrow> other_errors m' \<Longrightarrow> other_errors (if b then m else m')"
  by simp

lemma other_observe [other_intros]: "other_errors (observe_mount ns pol res start)"
  unfolding observe_mount_def by (intro other_intros)

lemma other_branch [other_intros]:
  "(\<And>e. other_errors (f e)) \<Longrightarrow> (\<And>v. other_errors (g v)) \<Longrightarrow>
     other_errors (\<lambda>s. case m s of (Inl e, s1) \<Rightarrow> f e s1 | (Inr v, s1) \<Rightarrow> g v s1)"
  by (auto simp: other_errors_def split: prod.splits sum.splits)

lemma other_link [other_intros]: "other_errors (link_target pl tgt mounted)"
  unfolding link_target_def by (intro other_intros)

lemma other_finish [other_intros]: "other_errors (finish_mount pl ns tgt a pol profile start mr)"
  unfolding finish_mount_def by (intro other_intros)

lemma other_run: "other_errors (run_mount pl ctx ns tgt a pol profile start)"
  unfolding run_mount_def Let_def by (intro other_intros)

text \<open>What a failed request fails with.\<close>

lemma materialize_error:
  assumes "materialize pl ctx ns tgt raw s = (Inl e, s')"
  shows "(\<exists>t. Parse raw = Inl t \<and> e = badRequest (Plain t))
    \<or> (\<exists>a. Parse raw = Inr a \<and> \<not> res_allowed (fst (decision pl ns a))
         \<and> e = forbidden (Plain (res_denial_reason (fst (decision pl ns a)))))
    \<or> (\<exists>a e'. Parse raw = Inr a \<and> res_allowed (fst (decision pl ns a)) \<and> e = OtherError e')"
proof (cases "Parse raw")
  case (Inl t)
  then show ?thesis using assms by (simp add: materialize_parse_error)
next
  case (Inr a)
  obtain res pol where d: "decision pl ns a = (res, pol)" by fastforce
  show ?thesis
  proof (cases "res_allowed res")
    case True
    then have "\<exists>e'. e = OtherError e'"
      using assms other_run unfolding materialize_allowed [OF Inr d True] other_errors_def by blast
    then show ?thesis using Inr d True by auto
  next
    case False
    show ?thesis using assms Inr d False unfolding materialize_denied [OF Inr d False] by auto
  qed
qed

definition publish_well_formed :: "publish_request \<Rightarrow> bool" where
  "publish_well_formed req \<longleftrightarrow>
     pv_volume_id req \<noteq> [] \<and> pv_target_path req \<noteq> [] \<and> pv_mount_capability req \<and> pv_readonly req"

text \<open>
  C31. The status of a failed publication tells its reason: \<^verbatim>\<open>InvalidArgument\<close> exactly when the request is
  malformed or its attributes do not parse, and \<^verbatim>\<open>PermissionDenied\<close> exactly when they parse and the policies
  refuse it.
\<close>

theorem NodePublishVolume_status:
  assumes "NodePublishVolume pl ctx req s = (Inl (code, msg), s')"
  shows "(code = InvalidArgument) = (\<not> publish_well_formed req \<or> (\<exists>t. Parse (pv_context req) = Inl t))
    \<and> (code = PermissionDenied) = (publish_well_formed req \<and> (\<exists>a. Parse (pv_context req) = Inr a
          \<and> \<not> res_allowed (fst (decision pl (pod_namespace (pv_context req)) a))))"
proof (cases "publish_well_formed req")
  case True
  let ?m = "materialize pl ctx (pod_namespace (pv_context req)) [] (pv_context req) s"
  have run: "NodePublishVolume pl ctx req s =
    (case ?m of
       (Inl e, s1) \<Rightarrow> (Inl (csiError e), s1)
     | (Inr res, s1) \<Rightarrow>
         (case onW (publishReadOnly (mo_source res) (pv_target_path req)) s1 of
            (Inl e, s2) \<Rightarrow> (Inl (Internal, ''publish readonly bind mount: '' @ err_text e), s2)
          | (Inr _, s2) \<Rightarrow> (Inr (), s2)))"
    using True by (simp add: NodePublishVolume_def publish_well_formed_def)
  obtain r s1 where m: "?m = (r, s1)" by fastforce
  show ?thesis
  proof (cases r)
    case (Inl e)
    then have code: "csiError e = (code, msg)" using assms run m by simp
    show ?thesis
      using materialize_error [OF m [unfolded Inl]] code True
      by (auto simp: csiError_def badRequest_def forbidden_def split: if_splits)
  next
    case (Inr res)
    then have "code = Internal" using assms run m by (auto split: prod.splits sum.splits)
    moreover have "\<exists>a. Parse (pv_context req) = Inr a \<and> res_allowed (fst (decision pl (pod_namespace (pv_context req)) a))"
      using mount_allowed m Inr by fastforce
    ultimately show ?thesis using True by auto
  qed
next
  case False
  then show ?thesis using assms by (auto simp: NodePublishVolume_def publish_well_formed_def split: if_splits)
qed

text \<open>A volume of a pod whose namespace is not passed on.\<close>

definition example_publish :: publish_request where
  "example_publish =
     \<lparr>pv_volume_id = ''v1'', pv_target_path = ''/var/lib/kubelet/pods/p/mount'', pv_mount_capability = True,
      pv_readonly = True, pv_context = example_raw\<rparr>"

theorem NodePublishVolume_status_witness:
  "\<exists>code msg s'. NodePublishVolume (example_pipeline offline) no_ctx example_publish node = (Inl (code, msg), s')
     \<and> code = PermissionDenied \<and> code \<noteq> InvalidArgument"
proof -
  have ns: "pod_namespace (pv_context example_publish) = ''default''" "publish_well_formed example_publish"
    "Parse (pv_context example_publish) = Inr example_attributes"
    using Parse_example by (simp_all add: pod_namespace_def example_publish_def publish_well_formed_def example_raw_def mget_def)
  have no: "\<not> res_allowed (fst (decision (example_pipeline offline) ''default'' example_attributes))"
    by (simp add: example_refused denied_def)
  then have "fst (materialize (example_pipeline offline) no_ctx ''default'' [] (pv_context example_publish) node)
      = Inl (forbidden (Plain ''no matching policy found''))"
    using materialize_denied [OF ns(3) example_refused] by (simp add: example_refused denied_def)
  then obtain s1 where "materialize (example_pipeline offline) no_ctx ''default'' [] (pv_context example_publish) node
      = (Inl (forbidden (Plain ''no matching policy found'')), s1)" by (metis prod.collapse)
  then obtain code msg s' where "NodePublishVolume (example_pipeline offline) no_ctx example_publish node = (Inl (code, msg), s')"
    using ns(1,2) by (auto simp: NodePublishVolume_def publish_well_formed_def csiError_def forbidden_def split: prod.splits)
  with NodePublishVolume_status [OF this] show ?thesis using ns no by auto
qed

text \<open>
  The two front ends agree: for every error the pipeline returns, the HTTP status of the mount endpoint and
  the gRPC code of the CSI call are the two sides of one table.
\<close>

theorem front_ends_agree:
  assumes "materialize pl ctx ns tgt raw s = (Inl e, s')"
  shows "(fst (csiError e), http_status e) \<in>
    {(InvalidArgument, 400), (PermissionDenied, 403), (DeadlineExceeded, 504), (Internal, 502)}"
  using materialize_error [OF assms]
  by (auto simp: csiError_def http_status_def badRequest_def forbidden_def)

theorem front_ends_agree_witness:
  "\<exists>e s'. materialize (example_pipeline offline) no_ctx ''default'' [] example_raw node = (Inl e, s')
     \<and> (fst (csiError e) = PermissionDenied) = (http_status e = 403)"
proof -
  obtain e s' where "materialize (example_pipeline offline) no_ctx ''default'' [] example_raw node = (Inl e, s')"
    using materialize_denied [OF Parse_example example_refused] by (simp add: denied_def)
  then show ?thesis using front_ends_agree [of "example_pipeline offline" no_ctx "''default''" "[]" example_raw node e s'] by auto
qed

section \<open>What the metrics count\<close>

text \<open>The mounts that fail after the content was delivered and the metadata written, while their target is set up.\<close>

definition link_failed :: "pipeline \<Rightarrow> string \<Rightarrow> attributes \<Rightarrow> git_content_policy \<Rightarrow> string \<Rightarrow> mat_result \<Rightarrow> sys \<Rightarrow> bool" where
  "link_failed pl tgt a pol profile mr s \<longleftrightarrow>
     (case Write (pl_iter pl) (mr_mounted_path mr) (mount_inputs a pol profile mr) (sy_world s) of
        (Inl _, _) \<Rightarrow> False
      | (Inr _, w1) \<Rightarrow> \<not> is_ok (fst (link_target pl tgt (mr_mounted_path mr) (s\<lparr>sy_world := w1\<rparr>))))"

definition target_failed :: "pipeline \<Rightarrow> ctx \<Rightarrow> string \<Rightarrow> attributes \<Rightarrow> git_content_policy \<Rightarrow> string \<Rightarrow> sys \<Rightarrow> bool" where
  "target_failed pl ctx tgt a pol profile s \<longleftrightarrow>
     (case pl_mat pl (mount_ctx ctx pol s) a pol (cache_path (pl_cache pl) a profile) (looked_up pl a profile s) of
        (Inl _, _) \<Rightarrow> False
      | (Inr mr, s1) \<Rightarrow> link_failed pl tgt a pol profile mr s1)"

lemma target_failed_some: "target_failed pl ctx tgt a pol profile s \<Longrightarrow> tgt \<noteq> []"
  by (auto simp: target_failed_def link_failed_def link_target_def ret_def split: prod.splits sum.splits)

definition unmetered :: "(sys \<Rightarrow> 'a \<times> sys) \<Rightarrow> bool" where
  "unmetered m \<longleftrightarrow> (\<forall>s. sy_metrics (snd (m s)) = sy_metrics s)"

lemma unmeteredD: "unmetered m \<Longrightarrow> m s = (r, s') \<Longrightarrow> sy_metrics s' = sy_metrics s"
  by (metis snd_conv unmetered_def)

lemma unmetered_bindW: "unmetered m \<Longrightarrow> (\<And>v. unmetered (f v)) \<Longrightarrow> unmetered (bindW m f)"
  by (auto simp: unmetered_def bindW_def split: prod.split sum.split) (metis snd_conv)+

lemma unmetered_onW: "unmetered (plainly (onW act))" "unmetered (onW act)"
  by (auto simp: unmetered_def plainly_def onW_def split: prod.split sum.split)

lemma unmetered_liftE: "unmetered (plainly (liftE x))"
  by (auto simp: unmetered_def plainly_def liftE_def split: sum.split)

lemma unmetered_ignoring: "unmetered (ignoring act)"
  by (simp add: unmetered_def ignoring_def)

lemma unmetered_ret: "unmetered (ret v)"
  by (simp add: unmetered_def ret_def)

lemma unmetered_link: "unmetered (link_target pl tgt mounted)"
  by (simp add: link_target_def unmetered_bindW unmetered_onW unmetered_liftE unmetered_ignoring unmetered_ret)

lemma Observe_frame [simp]:
  "m_mount_requests (ObserveMount ns p res d m) = Inc [ns, p, res] (m_mount_requests m)"
  "m_policy_denials (ObserveMount ns p res d m) = m_policy_denials m"
  by (simp_all add: ObserveMount_def)

text \<open>Neither the link nor its outcome depends on the metrics.\<close>

lemma link_target_metrics:
  "fst (link_target pl tgt mounted (s\<lparr>sy_metrics := m, sy_world := w\<rparr>)) = fst (link_target pl tgt mounted (s\<lparr>sy_world := w\<rparr>))"
  by (simp add: link_target_def bindW_def plainly_def liftE_def onW_def ignoring_def ret_def split: sum.split prod.split)

lemma finish_counted:
  assumes "finish_mount pl ns tgt a pol profile start mr s = (r, s')"
  shows "m_mount_requests (sy_metrics s') =
      (if link_failed pl tgt a pol profile mr s then m_mount_requests (sy_metrics s)
       else Inc [ns, p_name pol, if is_ok r then ''success'' else ''error''] (m_mount_requests (sy_metrics s)))
    \<and> m_policy_denials (sy_metrics s') = m_policy_denials (sy_metrics s)
    \<and> (mounts_timed (sy_metrics s) \<longrightarrow> mounts_timed (sy_metrics s'))"
proof -
  let ?m = "(sy_metrics s)\<lparr>m_repository_size := Set_gauge [policyHost (at_repo a)] (mr_size_bytes mr) (m_repository_size (sy_metrics s)),
         m_repository_files := Set_gauge [policyHost (at_repo a)] (mr_file_count mr) (m_repository_files (sy_metrics s))\<rparr>"
  let ?s = "s\<lparr>sy_metrics := ?m\<rparr>"
  have timed: "mounts_timed (sy_metrics s) \<Longrightarrow> mounts_timed ?m" by (simp add: mounts_timed_def)
  obtain r1 w1 where w: "Write (pl_iter pl) (mr_mounted_path mr) (mount_inputs a pol profile mr) (sy_world s) = (r1, w1)" by fastforce
  show ?thesis
  proof (cases r1)
    case (Inl e)
    then show ?thesis
      using assms w timed ObserveMount_timed
      by (auto simp: finish_mount_def bindW_def plainly_def meter_eq onW_def observe_mount_eq fail_def link_failed_def)
  next
    case (Inr u)
    let ?s1 = "?s\<lparr>sy_world := w1\<rparr>"
    obtain r2 s2 where l: "link_target pl tgt (mr_mounted_path mr) ?s1 = (r2, s2)" by fastforce
    have m2: "sy_metrics s2 = ?m" using unmeteredD [OF unmetered_link l] by simp
    have lf: "link_failed pl tgt a pol profile mr s = (\<not> is_ok r2)"
      using w Inr l link_target_metrics [of pl tgt "mr_mounted_path mr" w1 ?m s] by (simp add: link_failed_def)
    show ?thesis
    proof (cases r2)
      case (Inl e)
      then show ?thesis
        using assms w Inr l m2 timed lf by (auto simp: finish_mount_def bindW_def plainly_def meter_eq onW_def)
    next
      case r2: (Inr v)
      then show ?thesis
        using assms w Inr l m2 timed lf ObserveMount_timed
        by (auto simp: finish_mount_def bindW_def plainly_def meter_eq onW_def observe_mount_eq ignoring_def ret_def)
    qed
  qed
qed

lemma failed_mount_counted:
  assumes "failed_mount c ns pol start e s = (r, s')"
  shows "(\<exists>e'. r = Inl (OtherError e')) \<and> m_mount_requests (sy_metrics s') = Inc [ns, p_name pol, ''error''] (m_mount_requests (sy_metrics s))
    \<and> m_policy_denials (sy_metrics s') = m_policy_denials (sy_metrics s)
    \<and> (mounts_timed (sy_metrics s) \<longrightarrow> mounts_timed (sy_metrics s'))"
proof -
  have "s' = tick ((tick s)\<lparr>sy_metrics := ObserveMount ns (p_name pol) ''error'' (clock s - start) (sy_metrics s)\<rparr>)
      \<and> (\<exists>e'. r = Inl (OtherError e'))"
    using assms by (auto simp: failed_mount_def bindW_def plainly_def now_eq observe_mount_eq fail_def split: if_splits)
  then show ?thesis using ObserveMount_timed by simp
qed

lemma run_counted:
  assumes mat: "\<And>ctx a p W. unmetered (pl_mat pl ctx a p W)"
    and run: "run_mount pl ctx ns tgt a pol profile start s = (r, s')"
  shows "m_mount_requests (sy_metrics s') =
      (if target_failed pl ctx tgt a pol profile s then m_mount_requests (sy_metrics s)
       else Inc [ns, p_name pol, if is_ok r then ''success'' else ''error''] (m_mount_requests (sy_metrics s)))
    \<and> m_policy_denials (sy_metrics s') = m_policy_denials (sy_metrics s)
    \<and> (mounts_timed (sy_metrics s) \<longrightarrow> mounts_timed (sy_metrics s'))"
proof -
  obtain r1 s1 where mt: "pl_mat pl (mount_ctx ctx pol s) a pol (cache_path (pl_cache pl) a profile) (looked_up pl a profile s) = (r1, s1)"
    by fastforce
  have m1: "sy_metrics s1 = sy_metrics (looked_up pl a profile s)" by (rule unmeteredD [OF mat mt])
  show ?thesis
  proof (cases r1)
    case (Inl e)
    then have "failed_mount (mount_ctx ctx pol s) ns pol start e s1 = (r, s')" using run mt by (simp add: run_mount_eq)
    from failed_mount_counted [OF this] show ?thesis using m1 mt Inl by (auto simp: target_failed_def)
  next
    case (Inr mr)
    then have "finish_mount pl ns tgt a pol profile start mr s1 = (r, s')" using run mt by (simp add: run_mount_eq)
    from finish_counted [OF this] show ?thesis using m1 mt Inr by (simp add: target_failed_def)
  qed
qed

text \<open>
  C33. What the metrics count, for a backend that leaves them alone. A request that does not parse is not counted. Any other is counted
  once, under its namespace and the name of the policy that decided it: as denied when the policy refuses it, and then the denial is
  counted too under its code; otherwise as a success or as an error, as it ends. The one exception is a mount that fails
  while its HTTP target is set up, after the backend and the metadata succeeded: it is not counted. Every count is timed.
\<close>

theorem materialize_counted:
  assumes "\<And>ctx a p W. unmetered (pl_mat pl ctx a p W)"
    and "materialize pl ctx ns tgt raw s = (r, s')" and "mounts_timed (sy_metrics s)"
  shows "(m_mount_requests (sy_metrics s'), m_policy_denials (sy_metrics s')) =
      (let M = m_mount_requests (sy_metrics s); D = m_policy_denials (sy_metrics s) in
       case Parse raw of
         Inl _ \<Rightarrow> (M, D)
       | Inr a \<Rightarrow>
           (case decision pl ns a of (res, pol) \<Rightarrow>
              if \<not> res_allowed res
              then (Inc [ns, p_name pol, ''denied''] M, Inc [ns, p_name pol, res_denial_reason_code res] D)
              else if target_failed pl ctx tgt a pol (res_resolved_profile res) (tick s) then (M, D)
              else (Inc [ns, p_name pol, if is_ok r then ''success'' else ''error''] M, D)))
    \<and> mounts_timed (sy_metrics s')"
proof (cases "Parse raw")
  case (Inl e)
  then show ?thesis using assms(2,3) by (auto simp: materialize_parse_error)
next
  case (Inr a)
  obtain res pol where d: "decision pl ns a = (res, pol)" by fastforce
  show ?thesis
  proof (cases "res_allowed res")
    case True
    then have "run_mount pl ctx ns tgt a pol (res_resolved_profile res) (clock s) (tick s) = (r, s')"
      using assms(2) materialize_allowed [OF Inr d True] by simp
    from run_counted [OF assms(1) this] show ?thesis using Inr d True assms(3) by (simp add: Let_def)
  next
    case False
    have "mounts_timed (sy_metrics (denied_state ns pol res s))"
      using ObserveMount_timed [OF assms(3)] by (simp add: denied_state_def mounts_timed_def)
    then show ?thesis using assms(2) Inr d False unfolding materialize_denied [OF Inr d False]
      by (auto simp: denied_state_def Let_def)
  qed
qed

lemma unmetered_keeps: "(\<And>m. keeps (\<lambda>s. sy_metrics s = m) act) \<Longrightarrow> unmetered act"
  by (simp add: keeps_def unmetered_def)

lemma keeps_metrics_onW: "keeps (\<lambda>s. sy_metrics s = m) (onW act)"
  by (rule keeps_onW) simp

lemma keeps_metrics_execute: "sy_metrics (snd (execute env ctx cmd s)) = sy_metrics s"
  by (simp add: execute_def emit_def split: prod.split)

lemma keeps_metrics_ran:
  "(\<And>res s. sy_metrics (snd (f res s)) = sy_metrics s) \<Longrightarrow>
     keeps (\<lambda>s. sy_metrics s = m) (\<lambda>s. case execute env ctx cmd s of (res, s') \<Rightarrow> f res s')"
  using keeps_metrics_execute [of env ctx cmd] by (auto simp: keeps_def split: prod.split) (metis snd_conv)

lemma keeps_metrics_runGit: "keeps (\<lambda>s. sy_metrics s = m) (runGit env ctx dir args)"
  unfolding runGit_def
  by (intro keeps_intros keeps_metrics_ran) (simp split: option.split)

lemma keeps_metrics_gitOutput: "keeps (\<lambda>s. sy_metrics s = m) (gitOutput env ctx dir args)"
  unfolding gitOutput_def
  by (intro keeps_intros keeps_metrics_ran) (simp split: option.split)

lemmas keeps_metrics = keeps_intros keeps_metrics_onW keeps_metrics_runGit keeps_metrics_gitOutput

text \<open>The git backend leaves the metrics alone.\<close>

lemma gitMaterialize_unmetered: "unmetered (gitMaterialize env ctx a p W)"
proof (rule unmetered_keeps)
  fix m
  let ?k = "\<lambda>s. sy_metrics s = m"
  have prep: "keeps ?k (prepareWorkDirForGit env path)" for path
    unfolding prepareWorkDirForGit_def by (auto intro!: keeps_metrics split: option.split)
  have fetch: "keeps ?k (fetchMutableRevision env ctx a d)" for d
    unfolding fetchMutableRevision_def Let_def by (intro keeps_metrics)
  have clone: "keeps ?k (cloneOrRefresh env ctx a d e n)" for d e n
    unfolding cloneOrRefresh_def Let_def by (intro keeps_metrics fetch)
  have check: "keeps ?k (checkoutRevision env ctx a d)" for d
    unfolding checkoutRevision_def Let_def by (intro keeps_metrics)
  have src: "keeps ?k (source_path a d)" for d
    unfolding source_path_def by (auto intro!: keeps_metrics split: kind.split)
  have exp: "keeps ?k (export_content p d e)" for d e
    unfolding export_content_def split_def by (intro keeps_metrics)
  show "keeps ?k (gitMaterialize env ctx a p W)"
    unfolding gitMaterialize_def Let_def split_def by (intro keeps_metrics prep clone check src exp)
qed

theorem materialize_counted_witness:
  "\<exists>r s'. materialize (example_pipeline (gitMaterialize (example_env site_tree))) no_ctx ''default'' [] example_raw node = (r, s')
     \<and> m_mount_requests (sy_metrics s') = Inc [''default'', [], ''denied''] (\<lambda>_. 0)
     \<and> m_policy_denials (sy_metrics s') = Inc [''default'', [], ''policy_not_found''] (\<lambda>_. 0)"
proof -
  let ?pl = "example_pipeline (gitMaterialize (example_env site_tree))"
  obtain r s' where m: "materialize ?pl no_ctx ''default'' [] example_raw node = (r, s')" by fastforce
  have "unmetered (pl_mat ?pl ctx a p W)" for ctx a p W
    by (simp add: example_pipeline_def gitMaterialize_unmetered)
  moreover have "sy_metrics node = NewMetrics" by (simp add: node_def)
  moreover have "decision ?pl ''default'' example_attributes = (denied ''policy_not_found'' ''no matching policy found'', zero_policy)"
    using example_refused by (simp add: decision_def example_pipeline_def)
  ultimately show ?thesis using materialize_counted [OF _ m] m NewMetrics_timed Parse_example
    by (auto simp: NewMetrics_def zero_policy_def Let_def)
qed

end
