(* ===== verification/GoGit.thy ===== *)
theory GoGit
  imports GitBinary
begin

text \<open>
  The backend of \<^verbatim>\<open>pkg/materializer/gogit.go\<close> that clones into memory and writes the tree to disk. The library
  go-git is an argument: a record of the functions the code calls, over types of its own for repositories and
  trees. A call that asks the library for a clone is recorded in the log.
\<close>

section \<open>The library\<close>

text \<open>
  A file of a tree: its name below the tree, its mode and what reading it gives, the error of \<^verbatim>\<open>Reader\<close>, or the
  bytes that were read and the error that stopped the reading, if one did.
\<close>

record git_file =
  gf_name :: string
  gf_mode :: "32 word"
  gf_reader :: "(string \<times> string option) result"

text \<open>
  \<^verbatim>\<open>gg_files\<close> are the files \<^verbatim>\<open>ForEach\<close> visits and the error that ended the visit; \<^verbatim>\<open>gg_file\<close> is \<^verbatim>\<open>None\<close> for
  \<^verbatim>\<open>ErrFileNotFound\<close>; \<^verbatim>\<open>gg_walk\<close> are the entries of a recursive \<^verbatim>\<open>TreeWalker\<close>, with mode and hash, up to
  \<^verbatim>\<open>io.EOF\<close> or an error; \<^verbatim>\<open>gg_decode\<close> gives the sections of a configuration file by name, each with the
  \<^verbatim>\<open>Options.Get\<close> of its subsections.
\<close>

record ('r, 't) gogit =
  gg_environ :: "string list"
  gg_clone :: "ctx \<Rightarrow> clone_options \<Rightarrow> sys \<Rightarrow> err + 'r"
  gg_head :: "'r \<Rightarrow> string result"
  gg_commit :: "'r \<Rightarrow> string \<Rightarrow> (string \<times> 't result) result"
  gg_tree :: "'t \<Rightarrow> string \<Rightarrow> 't result"
  gg_files :: "'t \<Rightarrow> git_file list \<times> string option"
  gg_file :: "'t \<Rightarrow> string \<Rightarrow> git_file option result"
  gg_walk :: "'t \<Rightarrow> (string \<times> 32 word \<times> string) list \<times> string option"
  gg_new_hash :: "string \<Rightarrow> string"
  gg_is_file :: "32 word \<Rightarrow> bool"
  gg_decode :: "string \<Rightarrow> (string \<times> (string \<Rightarrow> string) list) list result"

text \<open>The modes \<^verbatim>\<open>filemode.Symlink\<close> and \<^verbatim>\<open>filemode.Submodule\<close>: \<^verbatim>\<open>0o120000\<close> and \<^verbatim>\<open>0o160000\<close>.\<close>

definition mode_symlink :: "32 word" where "mode_symlink = 40960"
definition mode_submodule :: "32 word" where "mode_submodule = 57344"

definition CloneContext :: "('r, 't) gogit \<Rightarrow> ctx \<Rightarrow> clone_options \<Rightarrow> 'r sys_action" where
  "CloneContext g ctx opts s = (gg_clone g ctx opts s, emit (Cloned opts) s)"

text \<open>\<^verbatim>\<open>f.Contents()\<close> reads all of the file or fails.\<close>

definition Contents :: "git_file \<Rightarrow> string result" where
  "Contents f =
     (case gf_reader f of
        Inl e \<Rightarrow> Inl e
      | Inr (c, None) \<Rightarrow> Inr c
      | Inr (c, Some e) \<Rightarrow> Inl e)"

section \<open>The backend\<close>

text \<open>The owner of the content, when one is configured.\<close>

type_synonym gogit_backend = "(32 word \<times> 32 word) option"

definition NewGoGit :: "string list \<Rightarrow> gogit_backend result" where
  "NewGoGit environ =
     (let uidRaw = Getenv environ uid_var; gidRaw = Getenv environ gid_var in
      if (uidRaw = []) \<noteq> (gidRaw = []) then Inl both_required
      else if uidRaw \<noteq> []
      then
        (case ParseUint32 uidRaw of
           None \<Rightarrow> Inl (uint_error uid_var uidRaw)
         | Some uid \<Rightarrow>
             (case ParseUint32 gidRaw of
                None \<Rightarrow> Inl (uint_error gid_var gidRaw)
              | Some gid \<Rightarrow> Inr (Some (uid, gid))))
      else Inr None)"

section \<open>Writing a tree\<close>

definition exportSymlink :: "git_file \<Rightarrow> string \<Rightarrow> string \<Rightarrow> (world, unit) action" where
  "exportSymlink f target contentDir =
     bindW (liftW (Contents f)) (\<lambda>linkTarget.
     bindW (liftW (validateSymlinkTarget contentDir target linkTarget)) (\<lambda>_.
       Symlink linkTarget target))"

definition exportRegularFile :: "git_file \<Rightarrow> string \<Rightarrow> (world, int) action" where
  "exportRegularFile f target =
     bindW (liftW (gf_reader f)) (\<lambda>(bytes, stopped).
     bindW (CreateExcl target (and (ucast (gf_mode f)) readonly_bits) bytes) (\<lambda>_.
       case stopped of
         None \<Rightarrow> ret (int (length bytes))
       | Some e \<Rightarrow> fail e))"

text \<open>The callback of \<^verbatim>\<open>exportTree\<close>: the size of the file it wrote, if it wrote one.\<close>

definition export_file :: "('r, 't) gogit \<Rightarrow> string \<Rightarrow> git_file \<Rightarrow> (world, int option) action" where
  "export_file g contentDir f =
     (if hasGitPathSegment (gf_name f) then ret None
      else
        bindW (liftW (safeJoin contentDir (gf_name f))) (\<lambda>target.
        bindW (MkdirAll (Dir target) publicDirPerm) (\<lambda>_.
          if gf_mode f = mode_symlink
          then bindW (exportSymlink f target contentDir) (\<lambda>_. ret None)
          else if \<not> gg_is_file g (gf_mode f) then ret None
          else bindW (exportRegularFile f target) (\<lambda>n. ret (Some n)))))"

fun export_all :: "('r, 't) gogit \<Rightarrow> string \<Rightarrow> git_file list \<Rightarrow> int \<times> int \<Rightarrow> (world, int \<times> int) action" where
  "export_all g contentDir [] acc = ret acc"
| "export_all g contentDir (f # fs) acc =
     bindW (export_file g contentDir f) (\<lambda>r.
       export_all g contentDir fs
         (case r of None \<Rightarrow> acc | Some n \<Rightarrow> (fst acc + 1, snd acc + n)))"

definition exportTree :: "('r, 't) gogit \<Rightarrow> 't \<Rightarrow> string \<Rightarrow> (world, int \<times> int) action" where
  "exportTree g tr contentDir =
     bindW (export_all g contentDir (fst (gg_files g tr)) (0, 0)) (\<lambda>acc.
       case snd (gg_files g tr) of
         None \<Rightarrow> ret acc
       | Some e \<Rightarrow> fail e)"

definition chown_visit :: "int \<Rightarrow> int \<Rightarrow> world callback" where
  "chown_visit uid gid path d err w =
     (case err of
        Some e \<Rightarrow> (WErr e, w)
      | None \<Rightarrow> to_walk (Lchown path uid gid w))"

definition chownTree :: "string \<Rightarrow> int \<Rightarrow> int \<Rightarrow> (world, unit) action" where
  "chownTree root uid gid w = walk_action (WalkDir id (chown_visit uid gid) root w)"

section \<open>Submodules\<close>

text \<open>The map from submodule paths to URLs; a later subsection overwrites an earlier one.\<close>

type_synonym modules = "(string \<times> string) list"

definition add_module :: "(string \<Rightarrow> string) \<Rightarrow> modules \<Rightarrow> modules" where
  "add_module get m =
     (let path = get ''path''; url = get ''url'' in
      if path \<noteq> [] \<and> url \<noteq> [] then AList.update path url m else m)"

fun add_sections :: "(string \<times> (string \<Rightarrow> string) list) list \<Rightarrow> modules \<Rightarrow> modules" where
  "add_sections [] m = m"
| "add_sections ((name, subs) # secs) m =
     (if \<not> EqualFold name ''submodule'' then add_sections secs m
      else add_sections secs (fold add_module subs m))"

definition parseGitModules :: "('r, 't) gogit \<Rightarrow> 't \<Rightarrow> modules result" where
  "parseGitModules g tr =
     (case gg_file g tr ''.gitmodules'' of
        Inl e \<Rightarrow> Inl e
      | Inr None \<Rightarrow> Inr []
      | Inr (Some f) \<Rightarrow>
          (case Contents f of
             Inl e \<Rightarrow> Inl e
           | Inr contents \<Rightarrow>
               (case gg_decode g contents of
                  Inl e \<Rightarrow> Inl (''parse .gitmodules: '' @ e)
                | Inr secs \<Rightarrow> Inr (add_sections secs []))))"

text \<open>Lines 303 to 314: the pinned commit, or \<^verbatim>\<open>HEAD\<close> when the shallow clone does not have it.\<close>

definition module_commit :: "('r, 't) gogit \<Rightarrow> 'r \<Rightarrow> string \<Rightarrow> (string \<times> 't result) result" where
  "module_commit g repo hash =
     (case gg_commit g repo hash of
        Inr c \<Rightarrow> Inr c
      | Inl e \<Rightarrow>
          (case gg_head g repo of
             Inl _ \<Rightarrow> Inl (''resolve commit: '' @ e)
           | Inr h \<Rightarrow>
               (case gg_commit g repo h of
                  Inr c \<Rightarrow> Inr c
                | Inl e' \<Rightarrow> Inl (''resolve commit: '' @ e'))))"

definition module_options :: "string \<Rightarrow> int \<Rightarrow> (string \<times> string) option \<Rightarrow> clone_options" where
  "module_options url depth auth =
     \<lparr>co_url = url, co_depth = depth, co_no_checkout = True, co_reference = [], co_single_branch = False,
      co_auth = auth\<rparr>"

definition cloneAndExport ::
  "('r, 't) gogit \<Rightarrow> ctx \<Rightarrow> string \<Rightarrow> string \<Rightarrow> string \<Rightarrow> (string \<times> string) option \<Rightarrow> int
     \<Rightarrow> (int \<times> int) sys_action" where
  "cloneAndExport g ctx url hash destDir auth depth =
     bindW (wrapE ''clone failed'' (CloneContext g ctx (module_options url depth auth))) (\<lambda>repo.
     bindW (liftE (module_commit g repo hash)) (\<lambda>commit.
     bindW (liftE (snd commit)) (\<lambda>tr.
       onW (exportTree g tr destDir))))"

text \<open>The loop over the entries of the tree.\<close>

fun export_modules ::
  "('r, 't) gogit \<Rightarrow> ctx \<Rightarrow> string \<Rightarrow> (string \<times> string) option \<Rightarrow> int \<Rightarrow> modules
     \<Rightarrow> (string \<times> 32 word \<times> string) list \<Rightarrow> int \<times> int \<Rightarrow> (int \<times> int) sys_action" where
  "export_modules g ctx contentDir auth maxDepth urls [] acc = ret acc"
| "export_modules g ctx contentDir auth maxDepth urls ((name, mode, hash) # es) acc =
     (if mode \<noteq> mode_submodule then export_modules g ctx contentDir auth maxDepth urls es acc
      else
        (case map_of urls name of
           None \<Rightarrow> export_modules g ctx contentDir auth maxDepth urls es acc
         | Some url \<Rightarrow>
             bindW (liftE (safeJoin contentDir name)) (\<lambda>subDir.
             bindW (onW (MkdirAll subDir publicDirPerm)) (\<lambda>_.
             bindW (wrapE (''submodule '' @ name) (cloneAndExport g ctx url hash subDir auth maxDepth)) (\<lambda>(f, n).
               export_modules g ctx contentDir auth maxDepth urls es (fst acc + f, snd acc + n))))))"

definition exportSubmodules ::
  "('r, 't) gogit \<Rightarrow> ctx \<Rightarrow> 't \<Rightarrow> string \<Rightarrow> (string \<times> string) option \<Rightarrow> int \<Rightarrow> (int \<times> int) sys_action" where
  "exportSubmodules g ctx tr contentDir auth maxDepth =
     bindW (liftE (parseGitModules g tr)) (\<lambda>urls.
       if urls = [] then ret (0, 0)
       else
         bindW (export_modules g ctx contentDir auth maxDepth urls (fst (gg_walk g tr)) (0, 0)) (\<lambda>acc.
           case snd (gg_walk g tr) of
             None \<Rightarrow> ret acc
           | Some e \<Rightarrow> fail (Plain e)))"

section \<open>Materialize\<close>

definition is_tag_request :: "attributes \<Rightarrow> bool" where
  "is_tag_request attrs \<longleftrightarrow>
     Contains (at_revision_kind attrs) ''tag'' \<or> HasPrefix (at_revision attrs) ''refs/tags/''
     \<or> HasPrefix (at_revision attrs) ''tag:''"

text \<open>\<^verbatim>\<open>plumbing.NewTagReferenceName\<close> and \<^verbatim>\<open>NewBranchReferenceName\<close> put their prefix before the name.\<close>

definition clone_reference :: "attributes \<Rightarrow> string" where
  "clone_reference attrs =
     (let ref = mutableRef attrs in
      if ref \<noteq> [] \<and> \<not> EqualFold ref ''HEAD''
      then (if is_tag_request attrs then ''refs/tags/'' @ ref else ''refs/heads/'' @ ref)
      else [])"

definition http_auth :: "string list \<Rightarrow> (string \<times> string) option" where
  "http_auth environ =
     (let user = Getenv environ ''GITCONTENT_HTTP_USERNAME'' in
      if user \<noteq> [] then Some (user, Getenv environ ''GITCONTENT_HTTP_PASSWORD'') else None)"

definition main_options :: "string list \<Rightarrow> attributes \<Rightarrow> git_content_policy \<Rightarrow> clone_options" where
  "main_options environ attrs p =
     \<lparr>co_url = at_repo attrs, co_depth = clone_depth attrs p, co_no_checkout = True,
      co_reference = clone_reference attrs, co_single_branch = (clone_reference attrs \<noteq> []),
      co_auth = http_auth environ\<rparr>"

definition resolveHash :: "('r, 't) gogit \<Rightarrow> 'r \<Rightarrow> attributes \<Rightarrow> string result" where
  "resolveHash g repo attrs =
     (if isPinnedCommit (at_revision attrs) then Inr (gg_new_hash g (at_revision attrs))
      else
        (case gg_head g repo of
           Inl e \<Rightarrow> Inl (''resolve HEAD failed: '' @ e)
         | Inr h \<Rightarrow> Inr h))"

definition wrap_result :: "string \<Rightarrow> 'a result \<Rightarrow> 'a result" where
  "wrap_result msg x = (case x of Inl e \<Rightarrow> Inl (msg @ '': '' @ e) | Inr v \<Rightarrow> Inr v)"

text \<open>Lines 107 to 116: the subtree a path selects.\<close>

definition select_tree :: "('r, 't) gogit \<Rightarrow> attributes \<Rightarrow> 't \<Rightarrow> 't result" where
  "select_tree g attrs tr =
     (if at_path attrs = [] then Inr tr
      else
        (let cleaned = Clean (at_path attrs) in
         if \<not> IsLocal cleaned \<or> hasParentPathSegment cleaned \<or> hasGitPathSegment cleaned
         then Inl (''invalid path '' @ at_path attrs)
         else wrap_result (''path '' @ at_path attrs @ '' not found in repository'') (gg_tree g tr cleaned)))"

text \<open>Lines 118 to 151: the content directory is written anew and measured.\<close>

definition write_content ::
  "gogit_backend \<Rightarrow> ('r, 't) gogit \<Rightarrow> ctx \<Rightarrow> attributes \<Rightarrow> git_content_policy \<Rightarrow> 't \<Rightarrow> string
     \<Rightarrow> (int \<times> int) sys_action" where
  "write_content b g ctx attrs p tr contentDir =
     bindW (onW (RemoveAll contentDir)) (\<lambda>_.
     bindW (onW (MkdirAll contentDir publicDirPerm)) (\<lambda>_.
     bindW (onW (exportTree g tr contentDir)) (\<lambda>(files, sz).
     bindW (if at_submodules attrs
            then exportSubmodules g ctx tr contentDir (http_auth (gg_environ g)) (sp_max_depth (p_submodules p))
            else ret (0, 0)) (\<lambda>(sf, ss).
     bindW (liftE (check_limits p (files + sf) (sz + ss))) (\<lambda>_.
     bindW (case b of
              None \<Rightarrow> ret ()
            | Some (uid, gid) \<Rightarrow> onW (chownTree contentDir (uint uid) (uint gid))) (\<lambda>_.
       ret (files + sf, sz + ss)))))))"

definition goGitMaterialize ::
  "gogit_backend \<Rightarrow> ('r, 't) gogit \<Rightarrow> ctx \<Rightarrow> attributes \<Rightarrow> git_content_policy \<Rightarrow> string \<Rightarrow> mat_result sys_action" where
  "goGitMaterialize b g ctx attrs p workDir =
     bindW (onW (MkdirAll workDir privateDirPerm)) (\<lambda>_.
     bindW (wrapE ''git clone failed'' (CloneContext g ctx (main_options (gg_environ g) attrs p))) (\<lambda>repo.
     bindW (liftE (resolveHash g repo attrs)) (\<lambda>hash.
     bindW (liftE (wrap_result ''resolve commit failed'' (gg_commit g repo hash))) (\<lambda>commit.
     bindW (liftE (wrap_result ''get tree failed'' (snd commit))) (\<lambda>root.
     bindW (liftE (select_tree g attrs root)) (\<lambda>tr.
     bindW (write_content b g ctx attrs p tr (Join workDir ''content'')) (\<lambda>(files, sz).
       ret (zero_mat_result\<lparr>mr_resolved := fst commit, mr_mounted_path := Join workDir ''content'',
              mr_file_count := files, mr_size_bytes := sz\<rparr>))))))))"

definition goGitRefresh ::
  "gogit_backend \<Rightarrow> ('r, 't) gogit \<Rightarrow> ctx \<Rightarrow> attributes \<Rightarrow> git_content_policy \<Rightarrow> string \<Rightarrow> mat_result sys_action" where
  "goGitRefresh b g ctx attrs p workDir = goGitMaterialize b g ctx attrs p workDir"

end
