(* ===== verification/TreeExport.thy ===== *)
theory TreeExport
  imports GoGit
begin

text \<open>
  What the export of a tree by \<^verbatim>\<open>gogit.go\<close> leaves on disk: \<^verbatim>\<open>os.MkdirAll\<close> below directories, one file, and
  the whole tree, pointwise, with the condition under which the export succeeds.
\<close>

section \<open>Making a path\<close>

text \<open>No component of the path is a file or a link: what exists of it are directories.\<close>

definition open_path :: "world \<Rightarrow> string list \<Rightarrow> bool" where
  "open_path w p \<longleftrightarrow> list_all name_ok p \<and> (\<forall>q. prefix q p \<longrightarrow> look w q = None \<or> is_dir w q)"

lemma open_path_prefix: "open_path w p \<Longrightarrow> prefix q p \<Longrightarrow> open_path w q"
  unfolding open_path_def list_all_iff by (meson prefix_order.trans set_mono_prefix subsetD)

lemma open_below:
  assumes "wf_world w" and "is_dir w C" and "list_all name_ok C" and "list_all name_ok p"
    and "\<And>r. r \<noteq> [] \<Longrightarrow> prefix r p \<Longrightarrow> look w (C @ r) = None \<or> is_dir w (C @ r)"
  shows "open_path w (C @ p)"
proof -
  have "look w q = None \<or> is_dir w q" if q: "prefix q (C @ p)" for q
  proof (cases "prefix q C")
    case True
    then obtain z where z: "C = q @ z" by (auto simp: prefix_def)
    have d: "is_dir w (q @ z)" using assms(2) z by simp
    show ?thesis
    proof (cases z)
      case (Cons n z')
      have "look w (q @ n # z') \<noteq> None" using d Cons by (auto simp: is_dir_iff)
      from wf_strict_ancestors [OF assms(1) this] show ?thesis by simp
    qed (use d in simp)
  next
    case False
    then obtain r where "q = C @ r" "r \<noteq> []" "prefix r p" using q by (auto simp: prefix_append)
    then show ?thesis using assms(5) [of r] by simp
  qed
  then show ?thesis using assms(3,4) by (simp add: open_path_def)
qed

lemma namei_stuck:
  assumes "wf_world w" and "open_path w (cur @ es)" and "look w (cur @ es) = None" and "is_dir w cur"
  shows "namei (w_fs w) follow n cur es \<noteq> Found p e"
  using assms(2-4)
proof (induction es arbitrary: cur)
  case Nil
  then show ?case by (simp add: is_dir_iff)
next
  case (Cons x es)
  obtain m where cur: "map_of (w_fs w) cur = Some (EDir m)" using Cons.prems(3) by (auto simp: is_dir_iff look_def)
  have x: "x \<noteq> ''..''" using Cons.prems(1) name_ok_elems [of "cur @ x # es"] by (auto simp: open_path_def)
  have p: "prefix (cur @ [x]) (cur @ x # es)" by simp
  show ?case
  proof (cases "look w (cur @ [x])")
    case None
    then show ?thesis using cur x by (auto simp: namei.simps look_def)
  next
    case (Some y)
    then have d: "is_dir w (cur @ [x])" using Cons.prems(1) p unfolding open_path_def by (metis option.distinct(1))
    then obtain m' where "map_of (w_fs w) (cur @ [x]) = Some (EDir m')" by (auto simp: is_dir_iff look_def)
    then show ?thesis using Cons.IH [of "cur @ [x]"] Cons.prems d cur x by (simp add: namei.simps)
  qed
qed

lemma Stat_stuck:
  assumes "wf_world w" and "open_path w p" and "look w p = None" and "IsAbs s" and "path_elems s = p"
  shows "\<exists>e. Stat s w = Inl e"
proof -
  have "resolve True s w \<noteq> Found q e" for q e
    using namei_stuck [OF assms(1), of "[]" p True max_symlinks q e] assms(2-5) wf_root [OF assms(1)]
    by (simp add: resolve_def)
  then show ?thesis by (cases "resolve True s w") (auto simp: Stat_def)
qed

text \<open>The strings \<^verbatim>\<open>os.MkdirAll\<close> recurses on: the path, with a slash at its end or without.\<close>

definition spells :: "string \<Rightarrow> string list \<Rightarrow> bool" where
  "spells s p \<longleftrightarrow> s = abs_path p \<or> s = abs_path p @ ''/''"

lemma spells_elems:
  assumes "spells s p" and "list_all name_ok p"
  shows "IsAbs s" and "path_elems s = p" and "CHR 0x00 \<notin> set s"
  using assms no_nul_abs_path [OF assms(2)] name_ok_elems [OF assms(2)] path_string_not_Nil [of p True]
  by (auto simp: spells_def path_elems_trailing)

lemma spells_parent:
  assumes "spells s (p @ [n])" and "list_all name_ok (p @ [n])"
  shows "spells (parent_part s) p"
proof -
  have n: "n \<noteq> []" "CHR ''/'' \<notin> set n" and p: "list_all elem_ok p"
    using assms(2) name_ok_elems [of "p @ [n]"] by (auto simp: elem_ok_def)
  define q where "q = (if p = [] then [] else abs_path p)"
  have s: "abs_path (p @ [n]) = q @ CHR ''/'' # n"
  proof (cases "p = []")
    case True
    then show ?thesis by (simp add: q_def path_string_def)
  qed (use p in \<open>simp add: q_def path_string_snoc\<close>)
  have d1: "dropWhile (\<lambda>c. c = CHR ''/'') (rev n @ CHR ''/'' # rev q) = rev n @ CHR ''/'' # rev q"
    using n by (cases n rule: rev_cases) auto
  have d2: "dropWhile (\<lambda>c. c \<noteq> CHR ''/'') (rev n @ CHR ''/'' # rev q) = CHR ''/'' # rev q"
    using n(2) by (simp add: dropWhile_append)
  have "parent_part s = q @ ''/''"
    using assms(1) unfolding spells_def parent_part_def s by (auto simp: d1 d2)
  then show ?thesis by (auto simp: spells_def q_def path_string_def)
qed

definition made :: "world \<Rightarrow> string list \<Rightarrow> perm \<Rightarrow> world \<Rightarrow> bool" where
  "made w p m w' \<longleftrightarrow>
     wf_world w' \<and> w_umask w' = w_umask w
     \<and> (\<forall>x. look w' x =
          (if prefix x p \<and> look w x = None then Some (EDir (and m (not (w_umask w)))) else look w x))"

lemma MkdirAll_spells:
  assumes "wf_world w" and "open_path w p" and "spells s p"
  shows "\<exists>w'. MkdirAll s m w = (Inr (), w') \<and> made w p m w'"
  using assms(2,3)
proof (induction p arbitrary: s rule: rev_induct)
  case Nil
  have s: "IsAbs s" "path_elems s = []" "CHR 0x00 \<notin> set s" using spells_elems [OF Nil(2)] by simp_all
  obtain m' where root: "look w [] = Some (EDir m')" using wf_root [OF assms(1)] by (auto simp: is_dir_iff)
  have "Stat s w = Inr (EDir m')"
    using resolve_elems [OF assms(1) _ s(1,2,3), of True] root by (simp add: Stat_def reach_def)
  then have "MkdirAll s m w = (Inr (), w)" by (rule MkdirAll_dir)
  moreover have "made w [] m w" using assms(1) root by (simp add: made_def)
  ultimately show ?case by blast
next
  case (snoc n p)
  have ok: "list_all name_ok (p @ [n])" using snoc.prems(1) by (simp add: open_path_def)
  note s = spells_elems [OF snoc.prems(2) ok]
  show ?case
  proof (cases "look w (p @ [n])")
    case (Some e)
    then obtain m' where e: "look w (p @ [n]) = Some (EDir m')"
      using snoc.prems(1) by (auto simp: open_path_def is_dir_iff)
    then have "Stat s w = Inr (EDir m')"
      using resolve_elems [OF assms(1) wf_reach [OF assms(1)] s, of True] by (simp add: Stat_def)
    then have "MkdirAll s m w = (Inr (), w)" by (rule MkdirAll_dir)
    moreover have "made w (p @ [n]) m w"
      using assms(1) e wf_ancestors [OF assms(1)] unfolding made_def prefix_def by (metis option.distinct(1))
    ultimately show ?thesis by blast
  next
    case None
    obtain e where st: "Stat s w = Inl e" using Stat_stuck [OF assms(1) snoc.prems(1) None s(1,2)] by blast
    have par: "spells (parent_part s) p" by (rule spells_parent [OF snoc.prems(2) ok])
    have "open_path w p" by (rule open_path_prefix [OF snoc.prems(1)]) simp
    from snoc.IH [OF this par] obtain w1 where w1: "MkdirAll (parent_part s) m w = (Inr (), w1)" "made w p m w1" by blast
    then have l1: "wf_world w1" "w_umask w1 = w_umask w"
      "look w1 x = (if prefix x p \<and> look w x = None then Some (EDir (and m (not (w_umask w)))) else look w x)" for x
      by (simp_all add: made_def)
    have dir: "is_dir w1 p" using l1(3) [of p] snoc.prems(1) by (auto simp: open_path_def is_dir_iff)
    have no: "look w1 (p @ [n]) = None" using l1(3) None by (simp add: prefix_def)
    have r: "reach w1 (p @ [n])" using ok dir by (simp add: reach_def)
    let ?e = "EDir (and m (not (w_umask w)))"
    have "Mkdir s m w1 = (Inr (), put (p @ [n]) ?e w1)"
      using resolve_elems [OF l1(1) r s, of False] no l1(2) by (simp add: Mkdir_def)
    moreover have "s \<noteq> []" using s(1) by (auto simp: IsAbs_def)
    moreover have "parent_part s \<noteq> []" using par by (auto simp: spells_def path_string_def)
    ultimately have "MkdirAll s m w = (Inr (), put (p @ [n]) ?e w1)"
      using st w1(1) by (simp add: MkdirAll.simps [of s])
    moreover have "wf_world (put (p @ [n]) ?e w1)"
      using l1(1) dir ok by (intro wf_put) (auto simp: entry_ok_def)
    moreover have "made w (p @ [n]) m (put (p @ [n]) ?e w1)"
      using calculation(2) l1 None by (auto simp: made_def)
    ultimately show ?thesis by blast
  qed
qed

lemma MkdirAll_open:
  "wf_world w \<Longrightarrow> open_path w p \<Longrightarrow> \<exists>w'. MkdirAll (abs_path p) m w = (Inr (), w') \<and> made w p m w'"
  by (rule MkdirAll_spells) (simp_all add: spells_def)

section \<open>One file\<close>

lemma split_on_chars: "e \<in> set (split_on c s) \<Longrightarrow> set e \<subseteq> set s"
proof (induction s arbitrary: e)
  case (Cons x xs)
  obtain v vs where vs: "split_on c xs = v # vs" by (cases "split_on c xs") auto
  then have "e = [] \<or> e = x # v \<or> e \<in> set (split_on c xs)" using Cons.prems by (auto split: if_splits)
  moreover have "set v \<subseteq> set xs" using Cons.IH [of v] vs by simp
  ultimately show ?case using Cons.IH [of e] by auto
qed simp

lemma clean_comps_chars: "e \<in> set (clean_comps s) \<Longrightarrow> set e \<subseteq> set s"
  using clean_elems_subset [of "IsAbs s" "[]" "path_elems s"] split_on_chars [of e "CHR ''/''" s]
  by (auto simp: clean_comps_def path_elems_def)

definition file_comps :: "git_file \<Rightarrow> string list" where
  "file_comps f = clean_comps (gf_name f)"

definition skipped :: "git_file \<Rightarrow> bool" where
  "skipped f = hasGitPathSegment (gf_name f)"

lemma safe_names: "safe_rel s \<Longrightarrow> CHR 0x00 \<notin> set s \<Longrightarrow> list_all name_ok (clean_comps s)"
  using clean_comps_ok [of s] clean_comps_chars [of _ s]
  by (auto simp: list_all_iff name_ok_def plain_elem_def safe_rel_def)

lemma safeJoin_abs:
  assumes "list_all name_ok C"
  shows "safeJoin (abs_path C) s = Inr t \<longleftrightarrow> safe_rel s \<and> t = abs_path (C @ clean_comps s)"
proof -
  have "clean_comps (abs_path C) = C" "IsAbs (abs_path C)" "''..'' \<notin> set C"
    using clean_comps_abs [OF assms] name_ok_elems [OF assms] by auto
  then show ?thesis using safeJoin_spec [of "abs_path C" s] path_string_not_Nil [of C True] name_ok_elems [OF assms]
    by (simp add: below_def)
qed

lemma Dir_abs:
  assumes "list_all name_ok p" and "p \<noteq> []"
  shows "Dir (abs_path p) = abs_path (butlast p)"
proof -
  obtain q n where p: "p = q @ [n]" using assms(2) by (cases p rule: rev_cases) auto
  have "list_all elem_ok (q @ [n])" "''..'' \<notin> set q" using name_ok_elems [OF assms(1)] by (auto simp: p)
  then show ?thesis using Dir_path_string [of q n True] by (simp add: p dots_first_plain)
qed

text \<open>What a file becomes, the size it is counted with, and when its export succeeds.\<close>

definition file_entry :: "('r, 't) gogit \<Rightarrow> perm \<Rightarrow> git_file \<Rightarrow> entry option" where
  "file_entry g um f =
     (if gf_mode f = mode_symlink
      then (case Contents f of Inl _ \<Rightarrow> None | Inr t \<Rightarrow> Some (ELink t))
      else if gg_is_file g (gf_mode f)
      then (case gf_reader f of
              Inl _ \<Rightarrow> None
            | Inr (c, _) \<Rightarrow> Some (EFile c (and (and (ucast (gf_mode f)) readonly_bits) (not um))))
      else None)"

definition file_size :: "('r, 't) gogit \<Rightarrow> git_file \<Rightarrow> int option" where
  "file_size g f =
     (if gf_mode f = mode_symlink \<or> \<not> gg_is_file g (gf_mode f) then None
      else (case gf_reader f of Inl _ \<Rightarrow> None | Inr (c, _) \<Rightarrow> Some (int (length c))))"

definition file_fine :: "('r, 't) gogit \<Rightarrow> string list \<Rightarrow> git_file \<Rightarrow> bool" where
  "file_fine g C f \<longleftrightarrow>
     safe_rel (gf_name f)
     \<and> (if gf_mode f = mode_symlink
        then (case Contents f of
                Inl _ \<Rightarrow> False
              | Inr t \<Rightarrow> t \<noteq> [] \<and> CHR 0x00 \<notin> set t \<and> link_ok C (file_comps f) t)
        else gg_is_file g (gf_mode f) \<longrightarrow> (\<exists>c. gf_reader f = Inr (c, None)))"

text \<open>The outcome of an export that stays below a directory.\<close>

definition only_below :: "string list \<Rightarrow> world \<Rightarrow> world \<Rightarrow> bool" where
  "only_below C w0 w \<longleftrightarrow>
     wf_world w \<and> w_umask w = w_umask w0 \<and> (\<forall>x. \<not> strict_prefix C x \<longrightarrow> look w x = look w0 x)"

lemma only_below_refl: "wf_world w \<Longrightarrow> only_below C w w"
  by (simp add: only_below_def)

lemma only_below_trans: "only_below C w0 w1 \<Longrightarrow> only_below C w1 w2 \<Longrightarrow> only_below C w0 w2"
  by (simp add: only_below_def)

lemma made_below:
  assumes "made w (C @ r) m w'" and "is_dir w C" and "wf_world w"
  shows "only_below C w w'"
proof -
  have "look w' x = look w x" if "\<not> strict_prefix C x" for x
  proof (cases "prefix x (C @ r)")
    case True
    then have "prefix x C" using that prefix_same_cases [of x "C @ r" C] by (auto simp: strict_prefix_def)
    then obtain y where y: "C = x @ y" by (auto simp: prefix_def)
    have "look w (x @ y) \<noteq> None" using assms(2) unfolding y by (auto simp: is_dir_iff)
    then have "look w x \<noteq> None" by (rule wf_ancestors [OF assms(3)])
    then show ?thesis using assms(1) by (simp add: made_def)
  qed (use assms(1) in \<open>simp add: made_def\<close>)
  then show ?thesis using assms(1) by (simp add: made_def only_below_def)
qed

lemma put_below:
  assumes "wf_world w" and "C @ r \<noteq> []" and "r \<noteq> []" and "is_dir w (butlast (C @ r))" and "name_ok (last (C @ r))"
    and "look w (C @ r) = None" and "entry_ok e"
  shows "only_below C w (put (C @ r) e w)"
proof -
  have "wf_world (put (C @ r) e w)" using assms by (intro wf_put) (auto simp: is_dir_iff)
  moreover have "strict_prefix C (C @ r)" using assms(3) by (simp add: strict_prefix_def)
  ultimately show ?thesis by (auto simp: only_below_def)
qed

lemma Symlink_refused: "t = [] \<or> CHR 0x00 \<in> set t \<Longrightarrow> \<exists>e. Symlink t path w = (Inl e, w)"
  by (auto simp: Symlink_def)

lemma prefix_butlast: "c \<noteq> [] \<Longrightarrow> prefix q (butlast c) \<longleftrightarrow> strict_prefix q c"
  by (cases c rule: rev_cases) (auto simp: strict_prefix_def)

text \<open>The state a file can be written in: its place is free and the way there is open.\<close>

definition file_ready :: "world \<Rightarrow> string list \<Rightarrow> git_file \<Rightarrow> bool" where
  "file_ready w C f \<longleftrightarrow>
     wf_world w \<and> list_all name_ok C \<and> is_dir w C \<and> file_comps f \<noteq> [] \<and> CHR 0x00 \<notin> set (gf_name f)
     \<and> (safe_rel (gf_name f) \<longrightarrow>
          open_path w (C @ butlast (file_comps f)) \<and> look w (C @ file_comps f) = None)"

definition placed :: "('r, 't) gogit \<Rightarrow> string list \<Rightarrow> git_file \<Rightarrow> world \<Rightarrow> world \<Rightarrow> bool" where
  "placed g C f w w' \<longleftrightarrow>
     (\<exists>w1. made w (C @ butlast (file_comps f)) publicDirPerm w1
       \<and> w' = (case file_entry g (w_umask w) f of None \<Rightarrow> w1 | Some e \<Rightarrow> put (C @ file_comps f) e w1))"

lemma export_file_outcome:
  assumes ready: "file_ready w C f" and no: "\<not> skipped f" and run: "export_file g (abs_path C) f w = (r, w')"
  shows "only_below C w w' \<and> (is_ok r \<longleftrightarrow> file_fine g C f)
    \<and> (is_ok r \<longrightarrow> r = Inr (file_size g f) \<and> placed g C f w w')"
proof (cases "safe_rel (gf_name f)")
  case False
  have C: "list_all name_ok C" "wf_world w" using ready by (simp_all add: file_ready_def)
  obtain e where "safeJoin (abs_path C) (gf_name f) = Inl e"
    using safeJoin_abs [OF C(1), of "gf_name f"] False by (cases "safeJoin (abs_path C) (gf_name f)") auto
  then have "r = Inl e \<and> w' = w" using run no by (simp add: export_file_def skipped_def bindW_def liftW_def)
  then show ?thesis using False C only_below_refl by (simp add: file_fine_def)
next
  case True
  let ?q = "file_comps f" and ?t = "abs_path (C @ file_comps f)"
  have C: "wf_world w" "list_all name_ok C" "is_dir w C" "?q \<noteq> []" "list_all name_ok ?q"
    "open_path w (C @ butlast ?q)" "look w (C @ ?q) = None"
    using ready safe_names [OF True] True by (simp_all add: file_ready_def file_comps_def)
  have join: "safeJoin (abs_path C) (gf_name f) = Inr ?t"
    using safeJoin_abs [OF C(2)] True by (simp add: file_comps_def)
  have dir: "Dir ?t = abs_path (C @ butlast ?q)" using Dir_abs [of "C @ ?q"] C by (simp add: butlast_append)
  obtain w1 where mk: "MkdirAll (Dir ?t) publicDirPerm w = (Inr (), w1)"
    and w1: "made w (C @ butlast ?q) publicDirPerm w1"
    using MkdirAll_open [OF C(1,6)] dir by metis
  have wf1: "wf_world w1" "w_umask w1 = w_umask w" using w1 by (simp_all add: made_def)
  have below1: "only_below C w w1" by (rule made_below [OF w1 C(3,1)])
  have free: "look w1 (C @ ?q) = None"
  proof -
    have "\<not> prefix (C @ ?q) (C @ butlast ?q)"
      using C(4) by (cases ?q rule: rev_cases) (auto dest: prefix_length_le)
    then show ?thesis using w1 C(7) by (simp add: made_def)
  qed
  have par: "is_dir w1 (butlast (C @ ?q))"
  proof -
    have "look w1 (C @ butlast ?q) \<noteq> None" using w1 by (auto simp: made_def)
    moreover have "look w (C @ butlast ?q) = None \<or> is_dir w (C @ butlast ?q)" using C(6) by (simp add: open_path_def)
    ultimately show ?thesis using w1 C(4) by (auto simp: made_def is_dir_iff butlast_append)
  qed
  have reach: "reach w1 (C @ ?q)" using C par by (simp add: reach_def)
  have last: "name_ok (last (C @ ?q))" using C(4,5) by (simp add: list_all_iff)
  have wrote: "only_below C w (put (C @ ?q) e w1)" if "entry_ok e" for e
    using only_below_trans [OF below1 put_below [OF wf1(1) _ C(4) par last free that]] C(4) by simp
  have start: "export_file g (abs_path C) f w =
      (if gf_mode f = mode_symlink then bindW (exportSymlink f ?t (abs_path C)) (\<lambda>_. ret None) w1
       else if \<not> gg_is_file g (gf_mode f) then (Inr None, w1)
       else bindW (exportRegularFile f ?t) (\<lambda>n. ret (Some n)) w1)"
    using no mk by (simp add: export_file_def skipped_def bindW_def liftW_def join ret_def)
  consider "gf_mode f = mode_symlink" | "gf_mode f \<noteq> mode_symlink" "\<not> gg_is_file g (gf_mode f)"
    | "gf_mode f \<noteq> mode_symlink" "gg_is_file g (gf_mode f)" by blast
  then show ?thesis
  proof cases
    case 1
    show ?thesis
    proof (cases "\<exists>t. Contents f = Inr t \<and> link_ok C ?q t \<and> t \<noteq> [] \<and> CHR 0x00 \<notin> set t")
      case fine: True
      then obtain t where t: "Contents f = Inr t" "link_ok C ?q t" "t \<noteq> []" "CHR 0x00 \<notin> set t" by blast
      have "r = Inr None \<and> w' = put (C @ ?q) (ELink t) w1"
        using run start 1 t Symlink_abs [OF wf1(1) reach free t(3,4)]
        by (simp add: exportSymlink_def bindW_def liftW_def link_ok_def ret_def)
      then show ?thesis
        using 1 t True w1 wrote [of "ELink t"]
        by (auto simp: file_fine_def file_size_def file_entry_def placed_def entry_ok_def)
    next
      case bad: False
      have "\<exists>e. r = Inl e \<and> w' = w1"
      proof (cases "Contents f")
        case (Inr t)
        show ?thesis
        proof (cases "link_ok C ?q t")
          case True
          then obtain e where "Symlink t ?t w1 = (Inl e, w1)" using Symlink_refused bad Inr by blast
          then show ?thesis using run start 1 Inr True by (auto simp: exportSymlink_def bindW_def liftW_def link_ok_def)
        next
          case False
          then show ?thesis
            using run start 1 Inr by (auto simp: exportSymlink_def bindW_def liftW_def link_ok_def split: sum.splits)
        qed
      qed (use run start 1 in \<open>auto simp: exportSymlink_def bindW_def liftW_def\<close>)
      then show ?thesis using 1 bad below1 by (auto simp: file_fine_def split: sum.splits)
    qed
  next
    case 2
    then have "r = Inr None \<and> w' = w1" using run start by simp
    then show ?thesis
      using 2 True below1 w1 by (auto simp: file_fine_def file_size_def file_entry_def placed_def)
  next
    case 3
    let ?e = "\<lambda>c. EFile c (and (and (ucast (gf_mode f)) readonly_bits) (not (w_umask w)))"
    show ?thesis
    proof (cases "gf_reader f")
      case (Inl e)
      then have "r = Inl e \<and> w' = w1"
        using run start 3 by (simp add: exportRegularFile_def bindW_def liftW_def)
      then show ?thesis using 3 Inl below1 by (simp add: file_fine_def)
    next
      case (Inr p)
      obtain c st where p: "gf_reader f = Inr (c, st)" using Inr by (cases p) auto
      have "w' = put (C @ ?q) (?e c) w1" and r: "r = (case st of None \<Rightarrow> Inr (Some (int (length c))) | Some e \<Rightarrow> Inl e)"
        using run start 3 p CreateExcl_abs [OF wf1(1) reach free, of "and (ucast (gf_mode f)) readonly_bits" c] wf1(2)
        by (auto simp: exportRegularFile_def bindW_def liftW_def ret_def fail_def split: option.splits)
      then show ?thesis
        using 3 p True w1 wrote [of "?e c"]
        by (cases st) (auto simp: file_fine_def file_size_def file_entry_def placed_def entry_ok_def)
    qed
  qed
qed

section \<open>The tree\<close>

text \<open>
  What git says of the files of a tree: their paths are not empty and have no NUL byte, no two are the same,
  and none is a directory on the way to another. Any name is allowed otherwise, also one with dot-dot.
\<close>

definition plain_tree :: "git_file list \<Rightarrow> bool" where
  "plain_tree fs \<longleftrightarrow>
     list_all (\<lambda>f. file_comps f \<noteq> [] \<and> CHR 0x00 \<notin> set (gf_name f)) fs \<and> distinct (map file_comps fs)
     \<and> list_all (\<lambda>f. list_all (\<lambda>f'. \<not> strict_prefix (file_comps f) (file_comps f')) fs) fs"

text \<open>The content of an exported tree, pointwise: the files, and the directories on the way to them.\<close>

definition tree_content :: "('r, 't) gogit \<Rightarrow> perm \<Rightarrow> git_file list \<Rightarrow> string list \<Rightarrow> entry option" where
  "tree_content g um fs q =
     (case find (\<lambda>f. \<not> skipped f \<and> file_comps f = q) fs of
        Some f \<Rightarrow> file_entry g um f
      | None \<Rightarrow>
          if list_ex (\<lambda>f. \<not> skipped f \<and> strict_prefix q (file_comps f)) fs
          then Some (EDir (and publicDirPerm (not um))) else None)"

definition tree_inv :: "('r, 't) gogit \<Rightarrow> world \<Rightarrow> string list \<Rightarrow> git_file list \<Rightarrow> world \<Rightarrow> bool" where
  "tree_inv g w0 C fs w \<longleftrightarrow>
     only_below C w0 w
     \<and> (\<forall>q. q \<noteq> [] \<longrightarrow> look w (C @ q) = tree_content g (w_umask w0) fs q)"

text \<open>A directory with nothing in it, ready for a tree.\<close>

definition empty_dir :: "world \<Rightarrow> string list \<Rightarrow> bool" where
  "empty_dir w C \<longleftrightarrow> wf_world w \<and> list_all name_ok C \<and> is_dir w C \<and> (\<forall>q. q \<noteq> [] \<longrightarrow> look w (C @ q) = None)"

lemma tree_inv_start: "empty_dir w C \<Longrightarrow> tree_inv g w C [] w"
  by (simp add: tree_inv_def empty_dir_def only_below_refl tree_content_def)

lemma plain_tree_snoc:
  assumes "plain_tree (fs @ [f])"
  shows "plain_tree fs" and "file_comps f \<noteq> []" and "CHR 0x00 \<notin> set (gf_name f)"
    and "h \<in> set fs \<Longrightarrow> file_comps h \<noteq> file_comps f \<and> \<not> strict_prefix (file_comps h) (file_comps f)
      \<and> \<not> strict_prefix (file_comps f) (file_comps h)"
proof -
  show "plain_tree fs" "file_comps f \<noteq> []" "CHR 0x00 \<notin> set (gf_name f)"
    using assms by (simp_all add: plain_tree_def list_all_iff)
  assume "h \<in> set fs"
  then show "file_comps h \<noteq> file_comps f \<and> \<not> strict_prefix (file_comps h) (file_comps f)
      \<and> \<not> strict_prefix (file_comps f) (file_comps h)"
  proof (intro conjI)
    have "file_comps f \<notin> file_comps ` set fs" using assms by (simp add: plain_tree_def)
    then show "file_comps h \<noteq> file_comps f" using \<open>h \<in> set fs\<close> by (metis imageI)
  qed (use assms \<open>h \<in> set fs\<close> in \<open>simp_all add: plain_tree_def list_all_iff\<close>)
qed

lemma find_snoc: "find P (xs @ [x]) = (case find P xs of None \<Rightarrow> if P x then Some x else None | Some y \<Rightarrow> Some y)"
  by (induction xs) auto

lemma tree_content_free:
  assumes "plain_tree (fs @ [f])"
  shows "tree_content g um fs (file_comps f) = None"
    and "strict_prefix r (file_comps f) \<Longrightarrow> tree_content g um fs r \<in> {None, Some (EDir (and publicDirPerm (not um)))}"
proof -
  note sep = plain_tree_snoc(4) [OF assms]
  have "find (\<lambda>h. \<not> skipped h \<and> file_comps h = file_comps f) fs = None" using sep by (auto simp: find_None_iff)
  moreover have "\<not> list_ex (\<lambda>h. \<not> skipped h \<and> strict_prefix (file_comps f) (file_comps h)) fs"
    using sep by (auto simp: list_ex_iff)
  ultimately show "tree_content g um fs (file_comps f) = None" by (simp add: tree_content_def)
  assume r: "strict_prefix r (file_comps f)"
  have "find (\<lambda>h. \<not> skipped h \<and> file_comps h = r) fs = None" using sep r by (auto simp: find_None_iff)
  then show "tree_content g um fs r \<in> {None, Some (EDir (and publicDirPerm (not um)))}"
    by (simp add: tree_content_def)
qed

lemma tree_inv_ready:
  assumes inv: "tree_inv g w0 C fs w" and w0: "empty_dir w0 C" and pt: "plain_tree (fs @ [f])"
  shows "file_ready w C f"
proof -
  have C: "list_all name_ok C" "wf_world w" "is_dir w C"
    using inv w0 by (simp_all add: tree_inv_def only_below_def empty_dir_def is_dir_iff)
  have "open_path w (C @ butlast (file_comps f))" if s: "safe_rel (gf_name f)"
  proof -
    have names: "list_all name_ok (butlast (file_comps f))"
      using safe_names [OF s plain_tree_snoc(3) [OF pt]]
      by (auto simp: file_comps_def list_all_iff dest: in_set_butlastD)
    have "look w (C @ r) = None \<or> is_dir w (C @ r)" if r: "r \<noteq> []" "prefix r (butlast (file_comps f))" for r
    proof -
      have "strict_prefix r (file_comps f)"
        using r(2) prefix_butlast [OF plain_tree_snoc(2) [OF pt]] by simp
      then show ?thesis
        using inv r tree_content_free(2) [OF pt, of r g "w_umask w0"] by (auto simp: tree_inv_def is_dir_iff)
    qed
    then show ?thesis by (rule open_below [OF C(2,3,1) names])
  qed
  moreover have "look w (C @ file_comps f) = None"
    using inv tree_content_free(1) [OF pt] plain_tree_snoc(2) [OF pt] by (simp add: tree_inv_def)
  ultimately show ?thesis using C plain_tree_snoc(2,3) [OF pt] by (simp add: file_ready_def)
qed

lemma tree_content_snoc:
  assumes pt: "plain_tree (fs @ [f])"
  shows "tree_content g um (fs @ [f]) q =
    (if skipped f then tree_content g um fs q
     else if q = file_comps f then file_entry g um f
     else if strict_prefix q (file_comps f) then Some (EDir (and publicDirPerm (not um)))
     else tree_content g um fs q)"
proof -
  note sep = plain_tree_snoc(4) [OF pt]
  have a: "find (\<lambda>h. \<not> skipped h \<and> file_comps h = file_comps f) fs = None" using sep by (auto simp: find_None_iff)
  have b: "strict_prefix q (file_comps f) \<Longrightarrow> find (\<lambda>h. \<not> skipped h \<and> file_comps h = q) fs = None"
    using sep by (auto simp: find_None_iff)
  show ?thesis using a b by (auto simp: tree_content_def find_snoc split: option.split)
qed

lemma tree_inv_step:
  assumes inv: "tree_inv g w0 C fs w" and w0: "empty_dir w0 C" and pt: "plain_tree (fs @ [f])"
    and no: "\<not> skipped f" and pl: "placed g C f w w'" and below: "only_below C w w'"
  shows "tree_inv g w0 C (fs @ [f]) w'"
proof -
  obtain w1 where w1: "made w (C @ butlast (file_comps f)) publicDirPerm w1"
    and w': "w' = (case file_entry g (w_umask w) f of None \<Rightarrow> w1 | Some e \<Rightarrow> put (C @ file_comps f) e w1)"
    using pl by (auto simp: placed_def)
  have um: "w_umask w = w_umask w0" and old: "q \<noteq> [] \<Longrightarrow> look w (C @ q) = tree_content g (w_umask w0) fs q" for q
    using inv by (simp_all add: tree_inv_def only_below_def)
  have ne: "file_comps f \<noteq> []" by (rule plain_tree_snoc(2) [OF pt])
  have pre: "prefix q (butlast (file_comps f)) \<longleftrightarrow> strict_prefix q (file_comps f)" for q
    by (rule prefix_butlast [OF ne])
  have mid: "look w1 (C @ q) = (if strict_prefix q (file_comps f) then Some (EDir (and publicDirPerm (not (w_umask w0))))
      else tree_content g (w_umask w0) fs q)" if "q \<noteq> []" for q
    using w1 old [OF that] tree_content_free(2) [OF pt, of q g "w_umask w0"] um by (auto simp: made_def pre)
  have "look w' (C @ q) = tree_content g (w_umask w0) (fs @ [f]) q" if "q \<noteq> []" for q
    using mid [OF that] tree_content_free(1) [OF pt, of g "w_umask w0"] no um
    unfolding w' tree_content_snoc [OF pt] by (auto split: option.split)
  then show ?thesis using inv below only_below_trans by (auto simp: tree_inv_def)
qed

text \<open>The number and the size of the regular files.\<close>

definition counted_size :: "('r, 't) gogit \<Rightarrow> git_file \<Rightarrow> int option" where
  "counted_size g f = (if skipped f then None else file_size g f)"

definition tree_count :: "('r, 't) gogit \<Rightarrow> git_file list \<Rightarrow> int" where
  "tree_count g fs = int (length (filter (\<lambda>f. counted_size g f \<noteq> None) fs))"

definition tree_bytes :: "('r, 't) gogit \<Rightarrow> git_file list \<Rightarrow> int" where
  "tree_bytes g fs = (\<Sum>f\<leftarrow>fs. case counted_size g f of None \<Rightarrow> 0 | Some n \<Rightarrow> n)"

definition tree_fine :: "('r, 't) gogit \<Rightarrow> string list \<Rightarrow> git_file list \<Rightarrow> bool" where
  "tree_fine g C fs \<longleftrightarrow> list_all (\<lambda>f. skipped f \<or> file_fine g C f) fs"

lemma export_file_skipped: "skipped f \<Longrightarrow> export_file g dir f w = (Inr None, w)"
  by (simp add: export_file_def skipped_def ret_def)

lemma export_all_outcome:
  assumes "tree_inv g w0 C fs w" and "empty_dir w0 C" and "plain_tree (fs @ rest)"
    and "export_all g (abs_path C) rest acc w = (r, w')"
  shows "only_below C w0 w' \<and> (is_ok r \<longleftrightarrow> tree_fine g C rest)
    \<and> (is_ok r \<longrightarrow> tree_inv g w0 C (fs @ rest) w' \<and> r = Inr (fst acc + tree_count g rest, snd acc + tree_bytes g rest))"
  using assms(1,3,4)
proof (induction rest arbitrary: fs w acc)
  case Nil
  then show ?case by (auto simp: ret_def tree_inv_def tree_fine_def tree_count_def tree_bytes_def)
next
  case (Cons f rest)
  have pt: "plain_tree (fs @ [f])" using Cons.prems(2) by (auto simp: plain_tree_def list_all_iff)
  have pt': "plain_tree ((fs @ [f]) @ rest)" using Cons.prems(2) by simp
  obtain r1 w1 where one: "export_file g (abs_path C) f w = (r1, w1)" by fastforce
  have step: "only_below C w w1 \<and> (is_ok r1 \<longleftrightarrow> tree_fine g C [f])
      \<and> (is_ok r1 \<longrightarrow> r1 = Inr (counted_size g f) \<and> tree_inv g w0 C (fs @ [f]) w1)"
  proof (cases "skipped f")
    case True
    then have "r1 = Inr None \<and> w1 = w" using one by (simp add: export_file_skipped)
    moreover have "tree_inv g w0 C (fs @ [f]) w"
      using Cons.prems(1) True by (simp add: tree_inv_def tree_content_snoc [OF pt])
    ultimately show ?thesis
      using True Cons.prems(1) by (auto simp: tree_fine_def counted_size_def tree_inv_def only_below_def)
  next
    case False
    note out = export_file_outcome [OF tree_inv_ready [OF Cons.prems(1) assms(2) pt] False one]
    then show ?thesis
      using False tree_inv_step [OF Cons.prems(1) assms(2) pt False] by (simp add: tree_fine_def counted_size_def)
  qed
  have b0: "only_below C w0 w" using Cons.prems(1) by (simp add: tree_inv_def)
  show ?case
  proof (cases r1)
    case (Inl e)
    then have "r = Inl e \<and> w' = w1" using Cons.prems(3) one by (simp add: bindW_def)
    then show ?thesis using step Inl only_below_trans [OF b0] by (auto simp: tree_fine_def)
  next
    case (Inr n)
    let ?acc = "case n of None \<Rightarrow> acc | Some k \<Rightarrow> (fst acc + 1, snd acc + k)"
    have run: "export_all g (abs_path C) rest ?acc w1 = (r, w')" using Cons.prems(3) one Inr by (simp add: bindW_def)
    have inv: "tree_inv g w0 C (fs @ [f]) w1" and n: "n = counted_size g f" using step Inr by auto
    show ?thesis
      using Cons.IH [OF inv pt' run] step Inr n
      by (auto simp: tree_fine_def tree_count_def tree_bytes_def split: option.split)
  qed
qed

lemma exportTree_outcome:
  assumes "empty_dir w C" and "plain_tree (fst (gg_files g tr))" and "exportTree g tr (abs_path C) w = (r, w')"
  shows "only_below C w w' \<and> (is_ok r \<longleftrightarrow> tree_fine g C (fst (gg_files g tr)) \<and> snd (gg_files g tr) = None)
    \<and> (is_ok r \<longrightarrow> tree_inv g w C (fst (gg_files g tr)) w'
         \<and> r = Inr (tree_count g (fst (gg_files g tr)), tree_bytes g (fst (gg_files g tr))))"
proof -
  obtain r1 w1 where all: "export_all g (abs_path C) (fst (gg_files g tr)) (0, 0) w = (r1, w1)" by fastforce
  have pt: "plain_tree ([] @ fst (gg_files g tr))" using assms(2) by simp
  note out = export_all_outcome [OF tree_inv_start [OF assms(1)] assms(1) pt all]
  show ?thesis
    using out assms(3) all
    by (cases r1; cases "snd (gg_files g tr)") (auto simp: exportTree_def bindW_def ret_def fail_def)
qed

end
