(* ===== verification/GoGitSpec.thy ===== *)
theory GoGitSpec
  imports TreeExport GitSpec
begin

text \<open>
  What the go-git backend delivers: the measure of an exported tree, submodules, the whole of a
  materialisation, its place behind the contract of \<open>Backend\<close>, and its agreement with the git backend.
\<close>

section \<open>The measure of an exported tree\<close>

definition clean_below :: "world \<Rightarrow> string list \<Rightarrow> bool" where
  "clean_below w C \<longleftrightarrow> (\<forall>q e. look w (C @ q) = Some e \<longrightarrow> ''.git'' \<notin> set q \<and> kind_of e \<noteq> KSpecial)"

definition sized :: "world \<Rightarrow> string list \<Rightarrow> int \<Rightarrow> int \<Rightarrow> bool" where
  "sized w C n sz \<longleftrightarrow>
     int (card (regular_files w C)) = n \<and> total_size w (regular_files w C) = sz"

lemma tree_content_file:
  assumes "plain_tree fs" and "f \<in> set fs" and "\<not> skipped f"
  shows "tree_content g um fs (file_comps f) = file_entry g um f"
proof -
  have "find (\<lambda>h. \<not> skipped h \<and> file_comps h = file_comps f) fs \<noteq> None" using assms by (auto simp: find_None_iff)
  then obtain h where h: "find (\<lambda>h. \<not> skipped h \<and> file_comps h = file_comps f) fs = Some h" by blast
  then have "h \<in> set fs" "file_comps h = file_comps f" by (auto simp: find_Some_iff)
  then have "h = f" using assms(1,2) by (auto simp: plain_tree_def distinct_map dest: inj_onD)
  then show ?thesis using h by (simp add: tree_content_def)
qed

lemma find_mem: "find P xs = Some x \<Longrightarrow> x \<in> set xs \<and> P x"
  by (auto simp: find_Some_iff)

lemma tree_content_cases:
  assumes "tree_content g um fs q = Some e"
  obtains (leaf) f where "f \<in> set fs" "\<not> skipped f" "q = file_comps f" "file_entry g um f = Some e"
  | (branch) f where "f \<in> set fs" "\<not> skipped f" "strict_prefix q (file_comps f)" "e = EDir (and publicDirPerm (not um))"
  using assms by (auto simp: tree_content_def list_ex_iff dest!: find_mem split: option.splits if_splits)

lemma not_skipped_names: "\<not> skipped f \<Longrightarrow> ''.git'' \<notin> set (file_comps f)"
  using clean_elems_subset [of "IsAbs (gf_name f)" "[]" "path_elems (gf_name f)"]
  by (auto simp: skipped_def hasGitPathSegment_def file_comps_def clean_comps_def path_elems_def list_ex_iff)

lemma file_entry_kinds:
  assumes "file_entry g um f = Some e"
  shows "kind_of e = KFile \<or> kind_of e = KLink"
  using assms by (auto simp: file_entry_def split: if_splits sum.splits)

lemma file_entry_size:
  assumes "file_entry g um f = Some e"
  shows "(\<exists>c m. e = EFile c m) \<longleftrightarrow> file_size g f \<noteq> None"
    and "file_size g f = Some n \<Longrightarrow> \<exists>c m. e = EFile c m \<and> n = int (length c)"
  using assms by (auto simp: file_entry_def file_size_def split: if_splits sum.splits)

lemma file_size_entry: "file_size g f = Some n \<Longrightarrow> \<exists>c m. file_entry g um f = Some (EFile c m) \<and> n = int (length c)"
  by (auto simp: file_entry_def file_size_def split: if_splits sum.splits)

lemma tree_measures:
  assumes inv: "tree_inv g w C fs w'" and w: "empty_dir w C" and pt: "plain_tree fs"
  shows "clean_below w' C" and "sized w' C (tree_count g fs) (tree_bytes g fs)"
proof -
  have look: "q \<noteq> [] \<Longrightarrow> look w' (C @ q) = tree_content g (w_umask w) fs q" for q using inv by (simp add: tree_inv_def)
  have root: "is_dir w' C" using inv w by (simp add: tree_inv_def only_below_def empty_dir_def is_dir_iff)
  show "clean_below w' C"
    unfolding clean_below_def
  proof (intro allI impI)
    fix q e
    assume e: "look w' (C @ q) = Some e"
    show "''.git'' \<notin> set q \<and> kind_of e \<noteq> KSpecial"
    proof (cases "q = []")
      case True
      then show ?thesis using e root by (auto simp: is_dir_iff)
    next
      case False
      then have "tree_content g (w_umask w) fs q = Some e" using look e by simp
      then show ?thesis
      proof (cases rule: tree_content_cases)
        case (leaf f)
        then show ?thesis using not_skipped_names [of f] file_entry_kinds [of g "w_umask w" f e] by auto
      next
        case (branch f)
        then show ?thesis using not_skipped_names [of f] set_mono_prefix [of q "file_comps f"] by (auto simp: strict_prefix_def)
      qed
    qed
  qed
  let ?R = "{f \<in> set fs. counted_size g f \<noteq> None}"
  let ?at = "\<lambda>f. C @ file_comps f"
  have at: "\<exists>c m. look w' (?at f) = Some (EFile c m) \<and> counted_size g f = Some (int (length c))" if f: "f \<in> ?R" for f
  proof -
    have ns: "\<not> skipped f" and "file_comps f \<noteq> []" using f pt by (auto simp: counted_size_def plain_tree_def list_all_iff split: if_splits)
    then have l: "look w' (?at f) = file_entry g (w_umask w) f" using look tree_content_file [OF pt _ ns] f by simp
    obtain n where n: "file_size g f = Some n" using f ns by (auto simp: counted_size_def)
    then show ?thesis using l ns file_size_entry [OF n, of "w_umask w"] by (auto simp: counted_size_def)
  qed
  have "regular_files w' C = ?at ` ?R"
  proof (intro equalityI subsetI)
    fix x
    assume "x \<in> regular_files w' C"
    then obtain q c m where x: "x = C @ q" "look w' (C @ q) = Some (EFile c m)" by (auto simp: regular_files_def prefix_def)
    then have "q \<noteq> []" using root by (auto simp: is_dir_iff)
    then have "tree_content g (w_umask w) fs q = Some (EFile c m)" using look x by simp
    then show "x \<in> ?at ` ?R"
    proof (cases rule: tree_content_cases)
      case (leaf f)
      then show ?thesis using x file_entry_size(1) [of g "w_umask w" f] by (auto simp: counted_size_def)
    qed simp
  next
    fix x
    assume "x \<in> ?at ` ?R"
    then obtain f where f: "f \<in> ?R" "x = ?at f" by blast
    from at [OF f(1)] show "x \<in> regular_files w' C" by (auto simp: regular_files_def f(2))
  qed
  moreover have inj: "inj_on ?at ?R" using pt by (auto simp: plain_tree_def distinct_map inj_on_def)
  moreover have dist: "distinct fs" using pt by (simp add: plain_tree_def distinct_map)
  moreover have "card ?R = length (filter (\<lambda>f. counted_size g f \<noteq> None) fs)"
    using dist distinct_card [of "filter (\<lambda>f. counted_size g f \<noteq> None) fs"] by simp
  moreover have "total_size w' (?at ` ?R) = (\<Sum>f \<in> ?R. case counted_size g f of None \<Rightarrow> 0 | Some n \<Rightarrow> n)"
    unfolding total_size_def sum.reindex [OF inj]
  proof (rule sum.cong [OF refl])
    fix f
    assume "f \<in> ?R"
    from at [OF this] show "((\<lambda>p. size_at w' p (the (look w' p))) \<circ> ?at) f = (case counted_size g f of None \<Rightarrow> 0 | Some n \<Rightarrow> n)"
      by (auto simp: size_at_def)
  qed
  moreover have "(\<Sum>f \<in> ?R. case counted_size g f of None \<Rightarrow> 0 | Some n \<Rightarrow> n) = tree_bytes g fs"
    unfolding tree_bytes_def sum_list_distinct_conv_sum_set [OF dist]
    by (rule sum.mono_neutral_left) auto
  ultimately show "sized w' C (tree_count g fs) (tree_bytes g fs)"
    by (simp add: sized_def tree_count_def card_image)
qed

section \<open>Submodules\<close>

text \<open>
  The submodules a tree names, and what git says of them: a submodule stands where no file, directory or
  other submodule of the tree is.
\<close>

definition module_names :: "(string \<times> 32 word \<times> string) list \<Rightarrow> string list" where
  "module_names es = map fst (filter (\<lambda>(name, mode, hash). mode = mode_submodule) es)"

definition apart :: "string list \<Rightarrow> string list \<Rightarrow> bool" where
  "apart p q \<longleftrightarrow> \<not> prefix p q \<and> \<not> prefix q p"

definition plain_modules :: "git_file list \<Rightarrow> string list \<Rightarrow> bool" where
  "plain_modules fs ms \<longleftrightarrow>
     list_all (\<lambda>m. clean_comps m \<noteq> [] \<and> CHR 0x00 \<notin> set m
       \<and> list_all (\<lambda>f. apart (clean_comps m) (file_comps f)) fs) ms
     \<and> sorted_wrt (\<lambda>m m'. apart (clean_comps m) (clean_comps m')) ms"

definition plain_library :: "('r, 't) gogit \<Rightarrow> bool" where
  "plain_library g \<longleftrightarrow>
     (\<forall>tr. plain_tree (fst (gg_files g tr)) \<and> plain_modules (fst (gg_files g tr)) (module_names (fst (gg_walk g tr))))"

text \<open>The state between two submodules: what is written so far is clean and measured, and the places of those
  to come are free.\<close>

definition module_place :: "world \<Rightarrow> string list \<Rightarrow> string \<Rightarrow> bool" where
  "module_place w C m \<longleftrightarrow>
     (safe_rel m \<longrightarrow> open_path w (C @ clean_comps m) \<and> look w (C @ clean_comps m) = None)"

definition modules_inv :: "world \<Rightarrow> string list \<Rightarrow> string list \<Rightarrow> world \<Rightarrow> int \<times> int \<Rightarrow> bool" where
  "modules_inv w0 C ms w acc \<longleftrightarrow>
     only_below C w0 w \<and> list_all name_ok C \<and> is_dir w C \<and> clean_below w C \<and> sized w C (fst acc) (snd acc)
     \<and> list_all (module_place w C) ms"

lemma regular_finite: "finite (regular_files w C)"
proof -
  have "regular_files w C \<subseteq> fst ` set (w_fs w)" using look_key [of w] by (auto simp: regular_files_def)
  then show ?thesis by (rule finite_subset) simp
qed

lemma prefix_two: "prefix x (C @ p) \<Longrightarrow> prefix (C @ q) x \<Longrightarrow> prefix q p"
  by (metis prefix_order.trans same_prefix_prefix)

text \<open>A directory made and filled at a free place adds its files to the measure.\<close>

lemma filled_measures:
  assumes C: "sized w C n sz" "clean_below w C" and D: "m \<noteq> []" "''.git'' \<notin> set m" "look w (C @ m) = None" "wf_world w"
    and mk: "made w (C @ m) pm w1" and b: "only_below (C @ m) w1 w2" and new: "clean_below w2 (C @ m)" "sized w2 (C @ m) k s"
    and dir: "is_dir w2 (C @ m)"
  shows "clean_below w2 C" and "sized w2 C (n + k) (sz + s)"
proof -
  have outside: "look w2 x = (if prefix x (C @ m) \<and> look w x = None then Some (EDir (and pm (not (w_umask w)))) else look w x)"
    if "\<not> strict_prefix (C @ m) x" for x using that mk b by (simp add: made_def only_below_def)
  have none: "look w x = None" if "prefix (C @ m) x" for x
    using that wf_missing [OF D(4,3)] by (auto simp: prefix_def)
  show "clean_below w2 C"
    unfolding clean_below_def
  proof (intro allI impI)
    fix q e
    assume e: "look w2 (C @ q) = Some e"
    show "''.git'' \<notin> set q \<and> kind_of e \<noteq> KSpecial"
    proof (cases "strict_prefix (C @ m) (C @ q)")
      case True
      then obtain r where r: "q = m @ r" by (auto simp: strict_prefix_def prefix_def)
      then show ?thesis using new(1) D(2) e by (auto simp: clean_below_def)
    next
      case False
      show ?thesis
      proof (cases "prefix (C @ q) (C @ m) \<and> look w (C @ q) = None")
        case True
        then have "e = EDir (and pm (not (w_umask w)))" "set q \<subseteq> set m"
          using outside [OF False] e by (auto dest: set_mono_prefix)
        then show ?thesis using D(2) by auto
      next
        case no: False
        then have "look w (C @ q) = Some e" using outside [OF False] e by auto
        then show ?thesis using C(2) by (auto simp: clean_below_def)
      qed
    qed
  qed
  have un: "regular_files w2 C = regular_files w C \<union> regular_files w2 (C @ m)"
  proof (intro equalityI subsetI)
    fix x
    assume "x \<in> regular_files w2 C"
    then obtain c pr where x: "prefix C x" "look w2 x = Some (EFile c pr)" by (auto simp: regular_files_def)
    show "x \<in> regular_files w C \<union> regular_files w2 (C @ m)"
    proof (cases "strict_prefix (C @ m) x")
      case True
      then show ?thesis using x by (auto simp: regular_files_def strict_prefix_def)
    next
      case False
      then show ?thesis using x outside [OF False] by (auto simp: regular_files_def split: if_splits)
    qed
  next
    fix x
    assume "x \<in> regular_files w C \<union> regular_files w2 (C @ m)"
    then show "x \<in> regular_files w2 C"
    proof
      assume "x \<in> regular_files w C"
      then obtain c pr where x: "prefix C x" "look w x = Some (EFile c pr)" by (auto simp: regular_files_def)
      then have "\<not> prefix (C @ m) x" using none [of x] by auto
      then show ?thesis using x outside [of x] by (auto simp: regular_files_def strict_prefix_def)
    next
      assume "x \<in> regular_files w2 (C @ m)"
      then show ?thesis by (auto simp: regular_files_def prefix_def)
    qed
  qed
  have disj: "regular_files w C \<inter> regular_files w2 (C @ m) = {}" using none by (auto simp: regular_files_def)
  have same: "look w2 x = look w x" if mem: "x \<in> regular_files w C" for x
  proof -
    obtain c pr where x: "look w x = Some (EFile c pr)" using mem by (auto simp: regular_files_def)
    then have "\<not> prefix (C @ m) x" using none [of x] by auto
    then show ?thesis using x outside [of x] by (auto simp: strict_prefix_def)
  qed
  have "total_size w2 (regular_files w C) = total_size w (regular_files w C)"
    unfolding total_size_def
  proof (rule sum.cong [OF refl])
    fix x
    assume x: "x \<in> regular_files w C"
    then have "\<exists>c pr. look w x = Some (EFile c pr)" by (auto simp: regular_files_def)
    then show "size_at w2 x (the (look w2 x)) = size_at w x (the (look w x))" using same [OF x] by (auto simp: size_at_def)
  qed
  then show "sized w2 C (n + k) (sz + s)"
    using C(1) new(2) disj regular_finite [of w C] regular_finite [of w2 "C @ m"] unfolding sized_def un
    by (auto simp: card_Un_disjoint total_size_def sum.union_disjoint)
qed

lemma modules_start:
  assumes inv: "tree_inv g w0 C fs w" and w0: "empty_dir w0 C" and pt: "plain_tree fs" and pm: "plain_modules fs ms"
  shows "modules_inv w0 C ms w (tree_count g fs, tree_bytes g fs)"
proof -
  have C: "list_all name_ok C" "wf_world w" "is_dir w C" "only_below C w0 w"
    using inv w0 by (simp_all add: tree_inv_def only_below_def empty_dir_def is_dir_iff)
  have "module_place w C m" if m: "m \<in> set ms" for m
    unfolding module_place_def
  proof
    assume safe: "safe_rel m"
    have m': "clean_comps m \<noteq> []" "CHR 0x00 \<notin> set m" "\<And>f. f \<in> set fs \<Longrightarrow> apart (clean_comps m) (file_comps f)"
      using pm m by (auto simp: plain_modules_def list_all_iff)
    have way: "tree_content g (w_umask w0) fs r \<in> {None, Some (EDir (and publicDirPerm (not (w_umask w0))))}"
      if r: "prefix r (clean_comps m)" for r
    proof (cases "tree_content g (w_umask w0) fs r")
      case (Some e)
      then show ?thesis
      proof (cases rule: tree_content_cases)
        case (leaf f)
        then show ?thesis using m'(3) [of f] r by (simp add: apart_def)
      qed (use Some in simp)
    qed simp
    have "tree_content g (w_umask w0) fs (clean_comps m) = None"
    proof (cases "tree_content g (w_umask w0) fs (clean_comps m)")
      case (Some e)
      then show ?thesis
      proof (cases rule: tree_content_cases)
        case (leaf f)
        then show ?thesis using m'(3) [of f] by (simp add: apart_def)
      next
        case (branch f)
        then show ?thesis using m'(3) [of f] by (simp add: apart_def strict_prefix_def)
      qed
    qed
    then have "look w (C @ clean_comps m) = None" using inv m'(1) by (simp add: tree_inv_def)
    moreover have "look w (C @ r) = None \<or> is_dir w (C @ r)" if "r \<noteq> []" "prefix r (clean_comps m)" for r
      using inv way [OF that(2)] that(1) by (auto simp: tree_inv_def is_dir_iff)
    ultimately show "open_path w (C @ clean_comps m) \<and> look w (C @ clean_comps m) = None"
      using open_below [OF C(2,3,1) safe_names [OF safe m'(2)]] by blast
  qed
  then show ?thesis using C tree_measures [OF inv w0 pt] by (simp add: modules_inv_def list_all_iff)
qed

text \<open>The place of a later submodule is still free after an earlier one was written.\<close>

lemma module_place_stays:
  assumes pl: "module_place w C m'" and ap: "apart (clean_comps m) (clean_comps m')" and wf: "wf_world w"
    and mk: "made w (C @ clean_comps m) pm w1" and b: "only_below (C @ clean_comps m) w1 w2"
  shows "module_place w2 C m'"
  unfolding module_place_def
proof
  assume "safe_rel m'"
  then have o: "open_path w (C @ clean_comps m')" "look w (C @ clean_comps m') = None"
    using pl by (simp_all add: module_place_def)
  have same: "look w2 x = look w x \<or> look w x = None \<and> is_dir w2 x" if x: "prefix x (C @ clean_comps m')" for x
  proof -
    have "\<not> strict_prefix (C @ clean_comps m) x"
    proof
      assume "strict_prefix (C @ clean_comps m) x"
      then have "prefix (C @ clean_comps m) x" by (simp add: strict_prefix_def)
      from prefix_two [OF x this] show False using ap by (simp add: apart_def)
    qed
    then show ?thesis using mk b by (auto simp: made_def only_below_def is_dir_iff)
  qed
  have "look w2 (C @ clean_comps m') = None"
  proof -
    have "\<not> prefix (C @ clean_comps m') (C @ clean_comps m)" "\<not> strict_prefix (C @ clean_comps m) (C @ clean_comps m')"
      using ap by (auto simp: apart_def strict_prefix_def)
    then show ?thesis using mk b o(2) by (simp add: made_def only_below_def)
  qed
  moreover have "open_path w2 (C @ clean_comps m')"
    unfolding open_path_def
  proof (intro conjI allI impI)
    fix x
    assume x: "prefix x (C @ clean_comps m')"
    then have "look w x = None \<or> is_dir w x" using o(1) by (simp add: open_path_def)
    then show "look w2 x = None \<or> is_dir w2 x" using same [OF x] by (auto simp: is_dir_iff)
  qed (use o(1) in \<open>simp add: open_path_def\<close>)
  ultimately show "open_path w2 (C @ clean_comps m') \<and> look w2 (C @ clean_comps m') = None" by blast
qed

lemma CloneContext_frame: "CloneContext g ctx opts s = (r, s') \<Longrightarrow> sy_world s' = sy_world s \<and> sy_metrics s' = sy_metrics s"
  by (auto simp: CloneContext_def emit_def)

lemma onW_run: "onW act s = (r, s') \<Longrightarrow> \<exists>r1 w. act (sy_world s) = (r1, w) \<and> s' = s\<lparr>sy_world := w\<rparr>
    \<and> r = (case r1 of Inl e \<Rightarrow> Inl (Plain e) | Inr v \<Rightarrow> Inr v)"
  by (cases "act (sy_world s)") (auto simp: onW_def split: sum.splits)

lemma cloneAndExport_outcome:
  assumes lib: "plain_library g" and D: "empty_dir (sy_world s) D"
    and run: "cloneAndExport g ctx url h (abs_path D) auth d s = (r, s')"
  shows "only_below D (sy_world s) (sy_world s') \<and> sy_metrics s' = sy_metrics s
    \<and> (\<forall>n k. r = Inr (n, k) \<longrightarrow> clean_below (sy_world s') D \<and> sized (sy_world s') D n k)"
proof -
  have refl: "only_below D (sy_world s) (sy_world s)" using D by (simp add: only_below_refl empty_dir_def)
  obtain r1 s1 where cl: "CloneContext g ctx (module_options url d auth) s = (r1, s1)" by fastforce
  note fr = CloneContext_frame [OF cl]
  show ?thesis
  proof (cases r1)
    case (Inl e)
    then show ?thesis using run cl fr refl by (auto simp: cloneAndExport_def bindW_def wrapE_def)
  next
    case (Inr repo)
    show ?thesis
    proof (cases "module_commit g repo h")
      case (Inl e)
      then show ?thesis using run cl fr refl Inr by (auto simp: cloneAndExport_def bindW_def wrapE_def liftE_def)
    next
      case commit: (Inr c)
      show ?thesis
      proof (cases "snd c")
        case (Inl e)
        then show ?thesis using run cl fr refl Inr commit by (auto simp: cloneAndExport_def bindW_def wrapE_def liftE_def)
      next
        case tr: (Inr tr)
        have "onW (exportTree g tr (abs_path D)) s1 = (r, s')"
          using run cl Inr commit tr by (simp add: cloneAndExport_def bindW_def wrapE_def liftE_def)
        from onW_run [OF this] obtain r2 w where ex: "exportTree g tr (abs_path D) (sy_world s) = (r2, w)"
          and s': "s' = s1\<lparr>sy_world := w\<rparr>" "r = (case r2 of Inl e \<Rightarrow> Inl (Plain e) | Inr v \<Rightarrow> Inr v)"
          using fr by auto
        have pt: "plain_tree (fst (gg_files g tr))" using lib by (simp add: plain_library_def)
        note out = exportTree_outcome [OF D pt ex]
        show ?thesis using out tree_measures [OF _ D pt] fr s' by (auto split: sum.splits)
      qed
    qed
  qed
qed

definition later_plain :: "string list \<Rightarrow> bool" where
  "later_plain ms \<longleftrightarrow>
     list_all (\<lambda>m. clean_comps m \<noteq> [] \<and> CHR 0x00 \<notin> set m) ms
     \<and> sorted_wrt (\<lambda>m m'. apart (clean_comps m) (clean_comps m')) ms"

lemma liftE_run: "liftE x s = (case x of Inl e \<Rightarrow> (Inl (Plain e), s) | Inr v \<Rightarrow> (Inr v, s))"
  by (simp add: liftE_def)

lemma export_modules_outcome:
  assumes lib: "plain_library g" and "modules_inv w0 C (module_names es) (sy_world s) (n0 + fst acc, k0 + snd acc)"
    and "later_plain (module_names es)"
    and "export_modules g ctx (abs_path C) auth d urls es acc s = (r, s')"
  shows "only_below C w0 (sy_world s') \<and> sy_metrics s' = sy_metrics s
    \<and> (\<forall>n k. r = Inr (n, k) \<longrightarrow> clean_below (sy_world s') C \<and> sized (sy_world s') C (n0 + n) (k0 + k))"
  using assms(2-4)
proof (induction es arbitrary: s acc)
  case Nil
  then show ?case by (auto simp: ret_def modules_inv_def)
next
  case (Cons e es)
  obtain name mode hash where e: "e = (name, mode, hash)" by (cases e) auto
  have b0: "only_below C w0 (sy_world s)" and C: "list_all name_ok C" "wf_world (sy_world s)" "is_dir (sy_world s) C"
    using Cons.prems(1) by (simp_all add: modules_inv_def only_below_def)
  show ?case
  proof (cases "mode = mode_submodule")
    case False
    then have "module_names (e # es) = module_names es" by (simp add: module_names_def e)
    then show ?thesis using Cons.IH [of s acc] Cons.prems False by (simp add: e)
  next
    case True
    then have names: "module_names (e # es) = name # module_names es" by (simp add: module_names_def e)
    have nx: "later_plain (module_names es)" "clean_comps name \<noteq> []" "CHR 0x00 \<notin> set name"
      "\<And>m. m \<in> set (module_names es) \<Longrightarrow> apart (clean_comps name) (clean_comps m)"
      using Cons.prems(2) unfolding names by (simp_all add: later_plain_def)
    have places: "module_place (sy_world s) C name" "list_all (module_place (sy_world s) C) (module_names es)"
      using Cons.prems(1) unfolding names by (simp_all add: modules_inv_def)
    show ?thesis
    proof (cases "map_of urls name")
      case None
      have "modules_inv w0 C (module_names es) (sy_world s) (n0 + fst acc, k0 + snd acc)"
        using Cons.prems(1) unfolding names by (simp add: modules_inv_def)
      then show ?thesis using Cons.IH [of s acc] Cons.prems(3) nx(1) True None by (simp add: e)
    next
      case (Some url)
      show ?thesis
      proof (cases "safe_rel name")
        case False
        then obtain er where "safeJoin (abs_path C) name = Inl er"
          using safeJoin_abs [OF C(1), of name] by (cases "safeJoin (abs_path C) name") auto
        then have "r = Inl (Plain er) \<and> s' = s" using Cons.prems(3) True Some by (simp add: e bindW_def liftE_def)
        then show ?thesis using b0 by simp
      next
        case safe: True
        let ?m = "clean_comps name"
        let ?D = "C @ ?m"
        have join: "safeJoin (abs_path C) name = Inr (abs_path ?D)" using safeJoin_abs [OF C(1)] safe by simp
        have place: "open_path (sy_world s) ?D" "look (sy_world s) ?D = None" using places(1) safe by (simp_all add: module_place_def)
        obtain w1 where mk: "MkdirAll (abs_path ?D) publicDirPerm (sy_world s) = (Inr (), w1)" "made (sy_world s) ?D publicDirPerm w1"
          using MkdirAll_open [OF C(2) place(1)] by blast
        have D: "empty_dir w1 ?D"
        proof -
          have "look w1 (?D @ q) = None" if "q \<noteq> []" for q
            using mk(2) that wf_missing [OF C(2) place(2)] by (auto simp: made_def dest: prefix_length_le)
          then show ?thesis using mk(2) place C(1) safe_names [OF safe nx(3)] by (simp add: empty_dir_def made_def is_dir_iff)
        qed
        let ?s1 = "s\<lparr>sy_world := w1\<rparr>"
        obtain r2 s2 where cl: "cloneAndExport g ctx url hash (abs_path ?D) auth d ?s1 = (r2, s2)" by fastforce
        have out: "only_below ?D w1 (sy_world s2)" "sy_metrics s2 = sy_metrics s"
          "\<And>n k. r2 = Inr (n, k) \<Longrightarrow> clean_below (sy_world s2) ?D \<and> sized (sy_world s2) ?D n k"
          using cloneAndExport_outcome [OF lib _ cl] D by auto
        have b1: "only_below C (sy_world s) w1" by (rule made_below [OF mk(2) C(3,2)])
        have up: "only_below C w1 (sy_world s2)"
          using out(1) nx(2) by (auto simp: only_below_def strict_prefix_def prefix_def)
        have b2: "only_below C w0 (sy_world s2)"
          by (rule only_below_trans [OF b0 only_below_trans [OF b1 up]])
        have run: "export_modules g ctx (abs_path C) auth d urls (e # es) acc s =
            (case r2 of Inl er \<Rightarrow> (Inl (map_err (\<lambda>t. (''submodule '' @ name) @ '': '' @ t) er), s2)
             | Inr (f, n) \<Rightarrow> export_modules g ctx (abs_path C) auth d urls es (fst acc + f, snd acc + n) s2)"
          using True Some join mk(1) cl by (simp add: e bindW_def liftE_def onW_def wrapE_def split: sum.split prod.split)
        show ?thesis
        proof (cases r2)
          case (Inl er)
          then show ?thesis using run Cons.prems(3) b2 out(2) by auto
        next
          case (Inr v)
          obtain f n where v: "r2 = Inr (f, n)" using Inr by (cases v) auto
          have dirs: "is_dir (sy_world s2) ?D" "is_dir (sy_world s2) C"
            using out(1) up b1 D C(3) by (auto simp: only_below_def empty_dir_def is_dir_iff)
          have "sized (sy_world s) C (n0 + fst acc) (k0 + snd acc)" "clean_below (sy_world s) C"
            using Cons.prems(1) by (simp_all add: modules_inv_def)
          moreover have "''.git'' \<notin> set ?m" using safe by (simp add: safe_rel_def)
          ultimately have "clean_below (sy_world s2) C" "sized (sy_world s2) C (n0 + fst acc + f) (k0 + snd acc + n)"
            using filled_measures [OF _ _ nx(2) _ place(2) C(2) mk(2) out(1) _ _ dirs(1)] out(3) [OF v] by blast+
          then have filled: "clean_below (sy_world s2) C" "sized (sy_world s2) C (n0 + (fst acc + f)) (k0 + (snd acc + n))"
            by (simp_all add: add.assoc)
          have "module_place (sy_world s2) C m" if m: "m \<in> set (module_names es)" for m
            using module_place_stays [OF _ nx(4) [OF m] C(2) mk(2) out(1)] places(2) m by (simp add: list_all_iff)
          then have inv: "modules_inv w0 C (module_names es) (sy_world s2)
              (n0 + fst (fst acc + f, snd acc + n), k0 + snd (fst acc + f, snd acc + n))"
            using b2 C(1) dirs(2) filled by (simp add: modules_inv_def list_all_iff)
          show ?thesis using Cons.IH [OF inv nx(1)] Cons.prems(3) run v out(2) by simp
        qed
      qed
    qed
  qed
qed

lemma exportSubmodules_outcome:
  assumes lib: "plain_library g" and inv: "tree_inv g w0 C (fst (gg_files g tr)) (sy_world s)" and w0: "empty_dir w0 C"
    and run: "exportSubmodules g ctx tr (abs_path C) auth d s = (r, s')"
  shows "only_below C w0 (sy_world s') \<and> sy_metrics s' = sy_metrics s
    \<and> (\<forall>n k. r = Inr (n, k) \<longrightarrow> clean_below (sy_world s') C
         \<and> sized (sy_world s') C (tree_count g (fst (gg_files g tr)) + n) (tree_bytes g (fst (gg_files g tr)) + k))"
proof -
  let ?fs = "fst (gg_files g tr)" and ?ms = "module_names (fst (gg_walk g tr))"
  have pt: "plain_tree ?fs" and pm: "plain_modules ?fs ?ms" using lib by (simp_all add: plain_library_def)
  note tm = tree_measures [OF inv w0 pt]
  have b: "only_below C w0 (sy_world s)" using inv by (simp add: tree_inv_def)
  show ?thesis
  proof (cases "parseGitModules g tr")
    case (Inl e)
    then show ?thesis using run b by (auto simp: exportSubmodules_def bindW_def liftE_def)
  next
    case (Inr urls)
    show ?thesis
    proof (cases "urls = []")
      case True
      then have "r = Inr (0, 0) \<and> s' = s" using run Inr by (simp add: exportSubmodules_def bindW_def liftE_def ret_def)
      then show ?thesis using b tm by simp
    next
      case False
      obtain r1 s1 where ms: "export_modules g ctx (abs_path C) auth d urls (fst (gg_walk g tr)) (0, 0) s = (r1, s1)" by fastforce
      have "later_plain ?ms" using pm by (auto simp: plain_modules_def later_plain_def list_all_iff)
      moreover have "modules_inv w0 C ?ms (sy_world s) (tree_count g ?fs + fst (0, 0), tree_bytes g ?fs + snd (0, 0))"
        using modules_start [OF inv w0 pt pm] by simp
      ultimately have out: "only_below C w0 (sy_world s1)" "sy_metrics s1 = sy_metrics s"
        "\<And>n k. r1 = Inr (n, k) \<Longrightarrow> clean_below (sy_world s1) C
            \<and> sized (sy_world s1) C (tree_count g ?fs + n) (tree_bytes g ?fs + k)"
        using export_modules_outcome [OF lib _ _ ms] by blast+
      have "s' = s1 \<and> (\<forall>v. r = Inr v \<longrightarrow> r1 = Inr v)"
        using run Inr False ms by (cases r1; cases "snd (gg_walk g tr)") (auto simp: exportSubmodules_def bindW_def liftE_def ret_def fail_def)
      then show ?thesis using out by auto
    qed
  qed
qed

section \<open>Owners\<close>

text \<open>A walk keeps what its callback keeps.\<close>

lemma walk_list_keeps:
  assumes v: "\<And>n d s. I s \<Longrightarrow> I (snd (v n d s))"
  shows "I s \<Longrightarrow> I (snd (walk_list v ds s))"
proof (induction ds arbitrary: s)
  case (Cons nd ds)
  obtain n d where nd: "nd = (n, d)" by (cases nd) auto
  obtain r s1 where one: "v n d s = (r, s1)" by fastforce
  then have "I s1" using v [OF Cons.prems, of n d] by simp
  then show ?case using Cons.IH [of s1] one by (cases r) (simp_all add: nd)
qed simp

lemma walk_dir_keeps:
  assumes f: "\<And>path d e s. I s \<Longrightarrow> I (snd (f path d e s))"
  shows "I s \<Longrightarrow> I (snd (walk_dir wd f n path d s))"
proof (induction n arbitrary: path d s)
  case (Suc n)
  obtain r s1 where one: "f path (Some d) None s = (r, s1)" by fastforce
  then have I1: "I s1" using f [OF Suc.prems, of path "Some d" None] by simp
  show ?case
  proof (cases "r = WOk \<and> d = KDir")
    case True
    show ?thesis
    proof (cases "ReadDir path (wd s1)")
      case (Inl e)
      obtain r2 s2 where "f path (Some d) (Some e) s1 = (r2, s2)" by fastforce
      moreover from this have "I s2" using f [OF I1, of path "Some d" "Some e"] by simp
      ultimately show ?thesis using one True Inl by (cases r2) simp_all
    next
      case (Inr ds)
      have "I (snd (walk_list (\<lambda>name. walk_dir wd f n (Join path name)) ds s1))"
        by (rule walk_list_keeps [OF Suc.IH I1])
      then show ?thesis using one True Inr by simp
    qed
  qed (use one I1 in \<open>cases r; simp\<close>)
qed simp

lemma walk_keeps:
  assumes f: "\<And>path d e s. I s \<Longrightarrow> I (snd (f path d e s))" and s: "I s"
  shows "I (snd (WalkDir wd f root s))"
proof (cases "Lstat root (wd s)")
  case (Inl e)
  then show ?thesis using f [OF s, of root None "Some e"] by (simp add: WalkDir_def Let_def split_def)
next
  case (Inr e)
  then show ?thesis using walk_dir_keeps [where I = I and f = f and wd = wd, OF f s] by (simp add: WalkDir_def Let_def split_def del: walk_dir.simps)
qed

lemma chownTree_frame:
  assumes "chownTree root uid gid w = (r, w')"
  shows "w_fs w' = w_fs w \<and> w_umask w' = w_umask w"
proof -
  have "w_fs (snd (WalkDir id (chown_visit uid gid) root w)) = w_fs w \<and> w_umask (snd (WalkDir id (chown_visit uid gid) root w)) = w_umask w"
  proof (rule walk_keeps [where I = "\<lambda>s. w_fs s = w_fs w \<and> w_umask s = w_umask w"])
    fix path d e and s :: world
    assume "w_fs s = w_fs w \<and> w_umask s = w_umask w"
    then show "w_fs (snd (chown_visit uid gid path d e s)) = w_fs w \<and> w_umask (snd (chown_visit uid gid path d e s)) = w_umask w"
      by (auto simp: chown_visit_def to_walk_def Lchown_def split: option.split lookup.split)
  qed simp
  moreover have "w' = snd (WalkDir id (chown_visit uid gid) root w)"
    using assms by (auto simp: chownTree_def walk_action_def split: prod.splits walk_result.splits)
  ultimately show ?thesis by simp
qed

section \<open>The content directory\<close>

text \<open>
  A content directory the backend wrote: clean, of the size and number of files it reports, within the limits;
  without submodules it is the tree, entry by entry.
\<close>

definition wrote_content ::
  "('r, 't) gogit \<Rightarrow> git_content_policy \<Rightarrow> attributes \<Rightarrow> 't \<Rightarrow> string list \<Rightarrow> int \<Rightarrow> int \<Rightarrow> world \<Rightarrow> bool" where
  "wrote_content g p a tr C n sz w \<longleftrightarrow>
     wf_world w \<and> is_dir w C \<and> clean_below w C \<and> sized w C n sz \<and> within_limits p n sz
     \<and> (\<not> at_submodules a \<longrightarrow>
          tree_fine g C (fst (gg_files g tr)) \<and> snd (gg_files g tr) = None
          \<and> look w C = Some (EDir (and publicDirPerm (not (w_umask w))))
          \<and> (\<forall>q. q \<noteq> [] \<longrightarrow> look w (C @ q) = tree_content g (w_umask w) (fst (gg_files g tr)) q))"

lemma same_files:
  assumes "w_fs w' = w_fs w"
  shows "look w' = look w" and "wf_world w' = wf_world w" and "clean_below w' C = clean_below w C"
    and "sized w' C n sz = sized w C n sz"
proof -
  show l: "look w' = look w" using assms by (simp add: fun_eq_iff look_def)
  then have d: "is_dir w' = is_dir w" by (simp add: fun_eq_iff is_dir_def)
  show "wf_world w' = wf_world w" using assms l d by (simp add: wf_world_def)
  show "clean_below w' C = clean_below w C" using l by (simp add: clean_below_def)
  have r: "regular_files w' C = regular_files w C" using l by (simp add: regular_files_def)
  have "size_at w' x (the (look w' x)) = size_at w x (the (look w x))" if "x \<in> regular_files w C" for x
    using that l by (auto simp: regular_files_def size_at_def)
  then have "total_size w' (regular_files w C) = total_size w (regular_files w C)"
    unfolding total_size_def by (rule sum.cong [OF refl])
  then show "sized w' C n sz = sized w C n sz" by (simp add: sized_def r)
qed

lemma fresh_content:
  assumes w: "wf_world w" and C: "C \<noteq> []" "list_all name_ok C" "is_dir w (butlast C)"
  obtains w2 where "bindW (onW (RemoveAll (abs_path C))) (\<lambda>_. bindW (onW (MkdirAll (abs_path C) pm)) f) (s\<lparr>sy_world := w\<rparr>)
      = f () (s\<lparr>sy_world := w2\<rparr>)"
    and "empty_dir w2 C" and "w_umask w2 = w_umask w" and "\<And>x. \<not> prefix C x \<Longrightarrow> look w2 x = look w x"
    and "look w2 C = Some (EDir (and pm (not (w_umask w))))"
proof -
  have reach: "reach w C" using C by (simp add: reach_def)
  obtain w1 where rm: "RemoveAll (abs_path C) w = (Inr (), w1)" "wf_world w1" "w_umask w1 = w_umask w"
    "\<And>q. look w1 q = (if prefix C q then None else look w q)"
    by (rule RemoveAll_abs [OF w reach C(1)]) (rule that)
  have par: "is_dir w1 (butlast C)" using C(1,3) rm(4) [of "butlast C"] prefix_butlast [OF C(1), of C]
    by (auto simp: is_dir_iff dest: prefix_length_le split: if_splits)
  have no: "look w1 C = None" using rm(4) by simp
  let ?e = "EDir (and pm (not (w_umask w)))"
  let ?w2 = "put C ?e w1"
  have mk: "MkdirAll (abs_path C) pm w1 = (Inr (), ?w2)" using MkdirAll_new [OF rm(2) C(2,1) par no] rm(3) by simp
  have "wf_world ?w2" using rm(2) C par by (intro wf_put) (auto simp: entry_ok_def list_all_iff)
  then have e: "empty_dir ?w2 C" using C(2) rm(4) by (simp add: empty_dir_def is_dir_iff)
  show ?thesis
    by (rule that [of ?w2]) (use rm mk e in \<open>simp_all add: bindW_def onW_def\<close>, auto simp: rm(4))
qed

lemma write_content_outcome:
  assumes lib: "plain_library g" and w: "wf_world (sy_world s)" and C: "C \<noteq> []" "list_all name_ok C" "is_dir (sy_world s) (butlast C)"
    and run: "write_content b g ctx a p tr (abs_path C) s = (r, s')"
  shows "(\<forall>x. \<not> prefix C x \<longrightarrow> look (sy_world s') x = look (sy_world s) x) \<and> sy_metrics s' = sy_metrics s
    \<and> wf_world (sy_world s') \<and> w_umask (sy_world s') = w_umask (sy_world s)
    \<and> (\<forall>n sz. r = Inr (n, sz) \<longrightarrow> wrote_content g p a tr C n sz (sy_world s'))"
proof -
  let ?fs = "fst (gg_files g tr)"
  define rest where "rest = (\<lambda>_ :: unit. bindW (onW (exportTree g tr (abs_path C))) (\<lambda>(files, sz).
     bindW (if at_submodules a
            then exportSubmodules g ctx tr (abs_path C) (http_auth (gg_environ g)) (sp_max_depth (p_submodules p))
            else ret (0, 0)) (\<lambda>(sf, ss).
     bindW (liftE (check_limits p (files + sf) (sz + ss))) (\<lambda>_.
     bindW (case b of
              None \<Rightarrow> ret ()
            | Some (uid, gid) \<Rightarrow> onW (chownTree (abs_path C) (uint uid) (uint gid))) (\<lambda>_.
       ret (files + sf, sz + ss))))))"
  let ?start = "\<lambda>s. bindW (onW (RemoveAll (abs_path C))) (\<lambda>_. bindW (onW (MkdirAll (abs_path C) publicDirPerm)) rest) s"
  have call: "?start s = (r, s')" using run by (simp add: write_content_def rest_def)
  obtain w2 where begins: "?start (s\<lparr>sy_world := sy_world s\<rparr>) = rest () (s\<lparr>sy_world := w2\<rparr>)"
    and w2': "empty_dir w2 C" "w_umask w2 = w_umask (sy_world s)" "\<And>x. \<not> prefix C x \<Longrightarrow> look w2 x = look (sy_world s) x"
    "look w2 C = Some (EDir (and publicDirPerm (not (w_umask (sy_world s)))))"
    by (rule fresh_content [OF w C, of publicDirPerm rest s]) (rule that)
  have "rest () (s\<lparr>sy_world := w2\<rparr>) = (r, s')" using begins call by simp
  note w2 = this w2'
  have pt: "plain_tree ?fs" using lib by (simp add: plain_library_def)
  have out: "look v x = look (sy_world s) x" if "only_below C w2 v" "\<not> prefix C x" for v x
    using that w2(4) by (simp add: only_below_def strict_prefix_def)
  have kept: "wf_world v \<and> w_umask v = w_umask (sy_world s)" if "only_below C w2 v" for v
    using that w2(3) by (simp add: only_below_def)
  obtain r1 v1 where ex: "exportTree g tr (abs_path C) w2 = (r1, v1)" by fastforce
  note o1 = exportTree_outcome [OF w2(2) pt ex]
  show ?thesis
  proof (cases r1)
    case (Inl e)
    then have "r = Inl (Plain e) \<and> s' = s\<lparr>sy_world := v1\<rparr>" using w2(1) ex by (simp add: rest_def bindW_def onW_def)
    then show ?thesis using o1 out kept by simp
  next
    case (Inr c1)
    then have c1: "r1 = Inr (tree_count g ?fs, tree_bytes g ?fs)" and inv: "tree_inv g w2 C ?fs v1"
      and fine: "tree_fine g C ?fs" "snd (gg_files g tr) = None" using o1 by auto
    let ?s1 = "s\<lparr>sy_world := v1\<rparr>"
    obtain r2 s2 where sub: "(if at_submodules a
            then exportSubmodules g ctx tr (abs_path C) (http_auth (gg_environ g)) (sp_max_depth (p_submodules p))
            else ret (0, 0)) ?s1 = (r2, s2)" by fastforce
    have o2: "only_below C w2 (sy_world s2)" "sy_metrics s2 = sy_metrics s"
      "\<And>n k. r2 = Inr (n, k) \<Longrightarrow> clean_below (sy_world s2) C \<and> sized (sy_world s2) C (tree_count g ?fs + n) (tree_bytes g ?fs + k)"
      "\<not> at_submodules a \<Longrightarrow> s2 = ?s1"
    proof -
      have "only_below C w2 (sy_world s2) \<and> sy_metrics s2 = sy_metrics s \<and> (\<forall>n k. r2 = Inr (n, k) \<longrightarrow> clean_below (sy_world s2) C
          \<and> sized (sy_world s2) C (tree_count g ?fs + n) (tree_bytes g ?fs + k)) \<and> (\<not> at_submodules a \<longrightarrow> s2 = ?s1)"
      proof (cases "at_submodules a")
        case True
        then show ?thesis using exportSubmodules_outcome [OF lib _ w2(2), of tr ?s1] sub inv by auto
      next
        case False
        then show ?thesis using sub inv tree_measures [OF inv w2(2) pt] by (auto simp: ret_def tree_inv_def)
      qed
      then show "only_below C w2 (sy_world s2)" "sy_metrics s2 = sy_metrics s"
        "\<And>n k. r2 = Inr (n, k) \<Longrightarrow> clean_below (sy_world s2) C \<and> sized (sy_world s2) C (tree_count g ?fs + n) (tree_bytes g ?fs + k)"
        "\<not> at_submodules a \<Longrightarrow> s2 = ?s1" by blast+
    qed
    have run2: "(r, s') = (case r2 of Inl e \<Rightarrow> (Inl e, s2) | Inr (sf, ss) \<Rightarrow>
        bindW (liftE (check_limits p (tree_count g ?fs + sf) (tree_bytes g ?fs + ss))) (\<lambda>_.
        bindW (case b of None \<Rightarrow> ret () | Some (uid, gid) \<Rightarrow> onW (chownTree (abs_path C) (uint uid) (uint gid))) (\<lambda>_.
          ret (tree_count g ?fs + sf, tree_bytes g ?fs + ss))) s2)"
      unfolding w2(1) [symmetric] using ex c1 sub by (cases r2) (simp_all add: rest_def bindW_def onW_def split_beta)
    show ?thesis
    proof (cases r2)
      case (Inl e)
      then show ?thesis using run2 out [OF o2(1)] kept [OF o2(1)] o2(2) by simp
    next
      case (Inr c2)
      obtain n k where c2: "r2 = Inr (n, k)" using Inr by (cases c2) auto
      let ?n = "tree_count g ?fs + n" and ?k = "tree_bytes g ?fs + k"
      have chown: "w_fs (sy_world s3) = w_fs (sy_world s2) \<and> w_umask (sy_world s3) = w_umask (sy_world s2) \<and> sy_metrics s3 = sy_metrics s2"
        if "(case b of None \<Rightarrow> ret () | Some (uid, gid) \<Rightarrow> onW (chownTree (abs_path C) (uint uid) (uint gid))) s2 = (r3, s3)" for r3 s3
        using that chownTree_frame by (auto simp: ret_def onW_def split: option.splits prod.splits sum.splits) 
      obtain r3 s3 where r3: "(case b of None \<Rightarrow> ret () | Some (uid, gid) \<Rightarrow> onW (chownTree (abs_path C) (uint uid) (uint gid))) s2 = (r3, s3)"
        by fastforce
      have fin: "s' = s2 \<and> (\<exists>e. r = Inl e) \<or> s' = s3 \<and> ((\<exists>e. r = Inl e) \<or> r = Inr (?n, ?k) \<and> within_limits p ?n ?k)"
        using run2 c2 r3 check_limits_iff [of p ?n ?k]
        by (cases "check_limits p ?n ?k"; cases r3) (auto simp: bindW_def liftE_def ret_def)
      note s3 = chown [OF r3]
      note sf = same_files [of "sy_world s3" "sy_world s2"]
      have frame: "(\<forall>x. \<not> prefix C x \<longrightarrow> look (sy_world s') x = look (sy_world s) x) \<and> sy_metrics s' = sy_metrics s
          \<and> wf_world (sy_world s') \<and> w_umask (sy_world s') = w_umask (sy_world s)"
        using fin out [OF o2(1)] kept [OF o2(1)] o2(2) s3 sf by auto
      have "wrote_content g p a tr C ?n ?k (sy_world s3)" if "within_limits p ?n ?k"
      proof -
        have root: "look (sy_world s2) C = look w2 C" using o2(1) by (simp add: only_below_def)
        have wf: "wf_world (sy_world s2)" "w_umask (sy_world s2) = w_umask w2" using o2(1) by (simp_all add: only_below_def)
        have "is_dir (sy_world s2) C" using root w2(5) by (simp add: is_dir_iff)
        then have "is_dir (sy_world s3) C" using s3 sf(1) by (simp add: is_dir_iff)
        moreover have "look (sy_world s2) (C @ q) = tree_content g (w_umask w2) ?fs q" if "\<not> at_submodules a" "q \<noteq> []" for q
          using inv o2(4) [OF that(1)] that(2) by (simp add: tree_inv_def)
        ultimately show ?thesis
          using that s3 sf wf o2(3) [OF c2] fine root w2(3,5) by (simp add: wrote_content_def)
      qed
      then show ?thesis using fin frame by auto
    qed
  qed
qed

section \<open>Materialize\<close>

text \<open>The tree a result comes from: of the commit the request resolves to in what the library cloned.\<close>

definition from_clone ::
  "('r, 't) gogit \<Rightarrow> ctx \<Rightarrow> git_content_policy \<Rightarrow> attributes \<Rightarrow> string \<Rightarrow> 't \<Rightarrow> bool" where
  "from_clone g ctx p a resolved tr \<longleftrightarrow>
     (\<exists>s1 repo hash root.
        gg_clone g ctx (main_options (gg_environ g) a p) s1 = Inr repo \<and> resolveHash g repo a = Inr hash
        \<and> gg_commit g repo hash = Inr (resolved, Inr root) \<and> select_tree g a root = Inr tr)"

definition gogit_result ::
  "('r, 't) gogit \<Rightarrow> ctx \<Rightarrow> git_content_policy \<Rightarrow> attributes \<Rightarrow> string \<Rightarrow> mat_result \<Rightarrow> world \<Rightarrow> bool" where
  "gogit_result g ctx p a W res w \<longleftrightarrow>
     mr_mounted_path res = abs_path (content_dir W)
     \<and> (\<exists>tr. from_clone g ctx p a (mr_resolved res) tr
          \<and> wrote_content g p a tr (content_dir W) (mr_file_count res) (mr_size_bytes res) w)"

lemma wrap_result_Inr: "wrap_result msg x = Inr v \<longleftrightarrow> x = Inr v"
  by (cases x) (auto simp: wrap_result_def)

lemma goGit_prefix_frame:
  "bindW (liftE x) f s = (case x of Inl e \<Rightarrow> (Inl (Plain e), s) | Inr v \<Rightarrow> f v s)"
  by (simp add: bindW_def liftE_def split: sum.split)

lemma goGitMaterialize_steps:
  assumes lib: "plain_library g" and ready: "work_ready (sy_world s) W"
    and call: "goGitMaterialize b g ctx a p W s = (r, s')"
  shows "changed_below W s s' \<and> (\<forall>res. r = Inr res \<longrightarrow> gogit_result g ctx p a W res (sy_world s'))"
proof -
  let ?C = "content_dir W"
  have path: "Join W ''content'' = abs_path ?C" using work_child [OF ready] content_dir_name by (simp add: content_dir_def)
  obtain w1 where mk: "MkdirAll W privateDirPerm (sy_world s) = (Inr (), w1)" "work_open (sy_world s) W w1"
    by (rule MkdirAll_work [OF ready, of privateDirPerm]) (rule that)
  obtain r1 s1 where cl: "CloneContext g ctx (main_options (gg_environ g) a p) (s\<lparr>sy_world := w1\<rparr>) = (r1, s1)" by fastforce
  have s1: "sy_world s1 = w1" "sy_metrics s1 = sy_metrics s" using CloneContext_frame [OF cl] by simp_all
  have early: "changed_below W s s1" using s1 mk(2) by (simp add: changed_below_def work_open_def)
  define tail where "tail = (\<lambda>repo. bindW (liftE (resolveHash g repo a)) (\<lambda>hash.
     bindW (liftE (wrap_result ''resolve commit failed'' (gg_commit g repo hash))) (\<lambda>commit.
     bindW (liftE (wrap_result ''get tree failed'' (snd commit))) (\<lambda>root.
     bindW (liftE (select_tree g a root)) (\<lambda>tr.
     bindW (write_content b g ctx a p tr (Join W ''content'')) (\<lambda>(files, sz).
       ret (zero_mat_result\<lparr>mr_resolved := fst commit, mr_mounted_path := Join W ''content'',
              mr_file_count := files, mr_size_bytes := sz\<rparr>)))))))"
  have run: "(r, s') = (case r1 of Inl e \<Rightarrow> (Inl (map_err (\<lambda>t. ''git clone failed'' @ '': '' @ t) e), s1) | Inr repo \<Rightarrow> tail repo s1)"
    unfolding call [symmetric] using mk(1) cl
    by (cases r1) (simp_all add: goGitMaterialize_def tail_def bindW_def [of "onW _"] bindW_def [of "wrapE _ _"] onW_def wrapE_def)
  show ?thesis
  proof (cases "\<exists>repo hash c root tr. r1 = Inr repo \<and> resolveHash g repo a = Inr hash \<and> gg_commit g repo hash = Inr c
      \<and> snd c = Inr root \<and> select_tree g a root = Inr tr")
    case False
    then have "s' = s1 \<and> (\<exists>e. r = Inl e)"
      using run by (auto simp: tail_def goGit_prefix_frame wrap_result_Inr split: sum.splits)
    then show ?thesis using early by auto
  next
    case True
    then obtain repo hash c root tr where ok: "r1 = Inr repo" "resolveHash g repo a = Inr hash" "gg_commit g repo hash = Inr c"
      "snd c = Inr root" "select_tree g a root = Inr tr" by blast
    then have run1: "(r, s') = bindW (write_content b g ctx a p tr (abs_path ?C)) (\<lambda>(files, sz).
       ret (zero_mat_result\<lparr>mr_resolved := fst c, mr_mounted_path := Join W ''content'',
              mr_file_count := files, mr_size_bytes := sz\<rparr>)) s1"
      using run by (simp add: tail_def goGit_prefix_frame wrap_result_def path)
    obtain r2 s2 where wr: "write_content b g ctx a p tr (abs_path ?C) s1 = (r2, s2)" by fastforce
    have C: "?C \<noteq> []" "list_all name_ok ?C" "is_dir (sy_world s1) (butlast ?C)" "wf_world (sy_world s1)"
      using ready mk(2) s1 content_dir_name by (simp_all add: content_dir_def work_ready_def work_open_def)
    note out = write_content_outcome [OF lib C(4,1,2,3) wr]
    have "\<not> prefix ?C x" if "\<not> prefix (clean_comps W) x" for x
      using that by (auto simp: content_dir_def dest: append_prefixD)
    moreover have "\<not> prefix ?C (clean_comps W)" by (simp add: content_dir_def)
    ultimately have frame: "changed_below W s s2" using out early by (simp add: changed_below_def is_dir_iff)
    show ?thesis
    proof (cases r2)
      case (Inl e)
      then show ?thesis using run1 wr frame by (auto simp: bindW_def)
    next
      case (Inr v)
      obtain n sz where v: "r2 = Inr (n, sz)" using Inr by (cases v) auto
      then have r: "r = Inr (zero_mat_result\<lparr>mr_resolved := fst c, mr_mounted_path := Join W ''content'',
              mr_file_count := n, mr_size_bytes := sz\<rparr>)" "s' = s2" using run1 wr by (simp_all add: bindW_def ret_def)
      have "gg_clone g ctx (main_options (gg_environ g) a p) (s\<lparr>sy_world := w1\<rparr>) = Inr repo"
        using cl ok(1) by (simp add: CloneContext_def)
      moreover have "gg_commit g repo hash = Inr (fst c, Inr root)" using ok(3,4) by (metis prod.collapse)
      ultimately have "from_clone g ctx p a (fst c) tr" using ok(2,5) unfolding from_clone_def by blast
      then show ?thesis using r frame out v by (auto simp: gogit_result_def path)
    qed
  qed
qed

text \<open>
  C9. What the go-git backend delivers, for a library whose trees are what git says of trees: whatever the
  outcome, nothing outside the work directory changes; and after a success the content is the tree of the commit
  the request resolves to, entry by entry when no submodules were asked for, its links checked, nothing in it
  named \<^verbatim>\<open>.git\<close>, of the number and size of files that are reported, within the limits of the policy.
\<close>

theorem goGitMaterialize_content:
  assumes "plain_library g" and "work_ready (sy_world s) W"
  shows "changed_below W s (snd (goGitMaterialize b g ctx a p W s))
    \<and> (\<forall>res. fst (goGitMaterialize b g ctx a p W s) = Inr res \<longrightarrow>
         gogit_result g ctx p a W res (sy_world (snd (goGitMaterialize b g ctx a p W s))))"
  using goGitMaterialize_steps [OF assms surjective_pairing] .

section \<open>The contract\<close>

lemma gogit_result_materialized:
  assumes "gogit_result g ctx p a W res w"
  shows "materialized p W res w"
proof -
  obtain tr where "mr_mounted_path res = abs_path (content_dir W)"
    and "wrote_content g p a tr (content_dir W) (mr_file_count res) (mr_size_bytes res) w"
    using assms by (auto simp: gogit_result_def)
  then show ?thesis
    by (auto simp: materialized_def wrote_content_def clean_below_def sized_def within_limits_def)
qed

definition gogit_materializer :: "gogit_backend \<times> ('r, 't) gogit \<Rightarrow> materializer" where
  "gogit_materializer bg = goGitMaterialize (fst bg) (snd bg)"

interpretation gogit: backend gogit_materializer "\<lambda>bg a W w. plain_library (snd bg)"
proof
  fix bg :: "gogit_backend \<times> ('r, 't) gogit" and a W s ctx p res s'
  assume lib: "plain_library (snd bg)" and ready: "work_ready (sy_world s) W"
    and "gogit_materializer bg ctx a p W s = (res, s')"
  then have "goGitMaterialize (fst bg) (snd bg) ctx a p W s = (res, s')" by (simp add: gogit_materializer_def)
  from goGitMaterialize_steps [OF lib ready this] show "changed_below W s s'" by simp
next
  fix bg :: "gogit_backend \<times> ('r, 't) gogit" and a W s ctx p r s'
  assume lib: "plain_library (snd bg)" and ready: "work_ready (sy_world s) W"
    and "gogit_materializer bg ctx a p W s = (Inr r, s')"
  then have "goGitMaterialize (fst bg) (snd bg) ctx a p W s = (Inr r, s')" by (simp add: gogit_materializer_def)
  from goGitMaterialize_steps [OF lib ready this] show "materialized p W r (sy_world s')"
    using gogit_result_materialized by fastforce
qed

end
