(* ===== verification/Backends.thy ===== *)
theory Backends
  imports GoGitSpec NodeGate
begin

text \<open>
  The two backends side by side: the reference the go-git backend asks for against the revision the policy judged, and that both
  backends mount the same content for the same commit.
\<close>

section \<open>A library\<close>

definition modes_file :: "32 word list" where "modes_file = [33188, 33204, 33261]"

text \<open>A site with a submodule on another host: tree 0 is the root, 1 its \<^verbatim>\<open>public/assets\<close>, 2 the submodule's.\<close>

definition blob :: "string \<Rightarrow> string \<Rightarrow> git_file" where
  "blob name bytes = \<lparr>gf_name = name, gf_mode = 33188, gf_reader = Inr (bytes, None)\<rparr>"

definition site_files :: "nat \<Rightarrow> git_file list" where
  "site_files tr =
     (if tr = 0 then [blob ''.gitmodules'' ''config'', blob ''public/assets/a.css'' ''body'']
      else if tr = 1 then [blob ''a.css'' ''body'']
      else [blob ''lib.js'' ''code''])"

definition site_library :: "(string, nat) gogit" where
  "site_library =
     \<lparr>gg_environ = [''GITCONTENT_HTTP_USERNAME=robot'', ''GITCONTENT_HTTP_PASSWORD=secret''],
      gg_clone = (\<lambda>ctx opts s. Inr (co_url opts)),
      gg_head = (\<lambda>r. Inr ''0123456789abcdef0123456789abcdef01234567''),
      gg_commit = (\<lambda>r h. Inr (h, Inr (if r = ''https://github.com/example/site.git'' then 0 else 2))),
      gg_tree = (\<lambda>tr path. if tr = 0 \<and> path = ''public/assets'' then Inr 1 else Inl ''directory not found''),
      gg_files = (\<lambda>tr. (site_files tr, None)),
      gg_file = (\<lambda>tr name. if tr = 0 \<and> name = ''.gitmodules'' then Inr (Some (blob ''.gitmodules'' ''config'')) else Inr None),
      gg_walk = (\<lambda>tr. (if tr = 0 then [(''vendor'', mode_submodule, ''abcd'')] else [], None)),
      gg_new_hash = (\<lambda>s. s),
      gg_is_file = (\<lambda>m. m \<in> set modes_file),
      gg_decode = (\<lambda>c. Inr [(''submodule'',
        [\<lambda>k. if k = ''path'' then ''vendor'' else if k = ''url'' then ''https://evil.example/lib.git'' else []])])\<rparr>"

lemma site_plain: "plain_library site_library"
proof -
  have ok: "plain_tree (site_files 0) \<and> plain_modules (site_files 0) [''vendor'']"
    "plain_tree (site_files 1) \<and> plain_modules (site_files 1) []"
    "plain_tree (site_files 2) \<and> plain_modules (site_files 2) []" by code_simp+
  have "plain_tree (site_files tr) \<and> plain_modules (site_files tr) (if tr = 0 then [''vendor''] else [])" for tr
  proof -
    consider "tr = 0" | "tr = 1" | "tr \<noteq> 0" "tr \<noteq> 1" by blast
    then show ?thesis
    proof cases
      case 3
      then have "site_files tr = site_files 2" by (simp add: site_files_def)
      then show ?thesis using ok(3) 3(1) by simp
    qed (use ok in simp_all)
  qed
  moreover have "fst (gg_files site_library tr) = site_files tr"
    "module_names (fst (gg_walk site_library tr)) = (if tr = 0 then [''vendor''] else [])" for tr
    by (simp_all add: site_library_def module_names_def)
  ultimately show ?thesis by (simp only: plain_library_def)  simp
qed

theorem goGitMaterialize_content_witness:
  "\<exists>res s'. goGitMaterialize None site_library no_ctx example_attributes (applyPolicyDefaults example_policy) ''/cache/k'' node
       = (Inr res, s')
     \<and> gogit_result site_library no_ctx (applyPolicyDefaults example_policy) example_attributes ''/cache/k'' res (sy_world s')
     \<and> look (sy_world s') [''etc'', ''ssl'', ''key''] = Some (EFile ''secret'' 384)"
proof -
  let ?m = "goGitMaterialize None site_library no_ctx example_attributes (applyPolicyDefaults example_policy) ''/cache/k'' node"
  have "is_ok (fst ?m)" by code_simp
  then obtain res where res: "fst ?m = Inr res" by (auto simp: is_ok_iff)
  have "clean_comps ''/cache/k'' = [''cache'', ''k'']" "look node_world [''etc'', ''ssl'', ''key''] = Some (EFile ''secret'' 384)"
    by code_simp+
  moreover note goGitMaterialize_content [OF site_plain node_ready, of None no_ctx example_attributes "applyPolicyDefaults example_policy"]
  ultimately show ?thesis
    using res by (intro exI [of _ res] exI [of _ "snd ?m"]) (auto simp: changed_below_def node_def prod_eq_iff)
qed

section \<open>The reference and the policy\<close>

lemma is_tag_request_plain: "at_revision_kind a = [] \<Longrightarrow> is_tag_request a = is_tag_rev (at_revision a)"
  by (auto simp: is_tag_request_def is_tag_rev_def)

text \<open>
  C36. For a request without a revision kind, the reference the go-git backend asks for is of the kind the policy
  judged: a tag exactly for a revision the policy takes for a tag, a branch exactly for one it takes for a
  branch, and none for a pinned commit. The one exception is a reference whose name is \<^verbatim>\<open>HEAD\<close> in any case.
\<close>

theorem clone_reference_kind:
  assumes "Parse raw = Inr a" and "at_revision_kind a = []"
  shows "(prefix ''refs/tags/'' (clone_reference a) \<longleftrightarrow> is_tag_rev (at_revision a) \<and> \<not> EqualFold (mutableRef a) ''HEAD'')
    \<and> (prefix ''refs/heads/'' (clone_reference a) \<longleftrightarrow> is_branch_rev (at_revision a) \<and> \<not> EqualFold (mutableRef a) ''HEAD'')
    \<and> (isCommitSHA (at_revision a) \<longrightarrow> clone_reference a = [])"
proof -
  have "(mutableRef a = []) = isCommitSHA (at_revision a)"
    using parsed_operands [OF assms(1)] assms(2) by (simp add: isPinnedCommit_isCommitSHA)
  then show ?thesis
    using revision_kinds [of "at_revision a"] is_tag_request_plain [OF assms(2)]
    by (auto simp: clone_reference_def Let_def)
qed

theorem clone_reference_kind_witness:
  "prefix ''refs/tags/'' (clone_reference example_attributes) \<and> clone_reference example_attributes = ''refs/tags/v1.0.0''"
proof -
  have "is_tag_rev (at_revision example_attributes)" "\<not> EqualFold (mutableRef example_attributes) ''HEAD''"
    "clone_reference example_attributes = ''refs/tags/v1.0.0''" by code_simp+
  moreover have "at_revision_kind example_attributes = []" by (simp add: example_attributes_def)
  ultimately show ?thesis using clone_reference_kind [OF Parse_example] by blast
qed

section \<open>The same content\<close>

text \<open>
  What git leaves in a work tree for the files of a tree: links and regular files, the latter made with
  \<^verbatim>\<open>0o666\<close> or \<^verbatim>\<open>0o777\<close> less the umask, and the directories on the way; nothing else but \<^verbatim>\<open>.git\<close>. It holds of trees
  whose modes are those of blobs and whose names git accepts, in a repository without submodules.
\<close>

definition work_perm :: "32 word \<Rightarrow> perm" where
  "work_perm m = (if and m 64 = 0 then 438 else 511)"

definition work_entry :: "perm \<Rightarrow> git_file \<Rightarrow> entry option" where
  "work_entry um f =
     (case Contents f of
        Inl _ \<Rightarrow> None
      | Inr c \<Rightarrow>
          Some (if gf_mode f = mode_symlink then ELink c else EFile c (and (work_perm (gf_mode f)) (not um))))"

definition checked_out :: "('r, 't) gogit \<Rightarrow> perm \<Rightarrow> git_file list \<Rightarrow> world \<Rightarrow> string list \<Rightarrow> bool" where
  "checked_out g um fs w S \<longleftrightarrow>
     list_all (\<lambda>f. \<not> skipped f
       \<and> (gf_mode f = mode_symlink \<or> gf_mode f \<in> set modes_file \<and> gg_is_file g (gf_mode f))) fs
     \<and> (\<forall>q. q \<noteq> [] \<and> ''.git'' \<notin> set q \<longrightarrow>
          (case find (\<lambda>f. file_comps f = q) fs of
             Some f \<Rightarrow> look w (S @ q) = work_entry um f
           | None \<Rightarrow>
               if list_ex (\<lambda>f. strict_prefix q (file_comps f)) fs then is_dir w (S @ q) else look w (S @ q) = None))"

lemma blob_perms:
  assumes "m \<in> set modes_file"
  shows "and (and (and (work_perm m) (not um)) readonly_bits) (not um) = and (and (ucast m) readonly_bits) (not um)"
proof -
  have "and (work_perm m) readonly_bits = and (ucast m) readonly_bits"
    using assms by (auto simp: modes_file_def work_perm_def readonly_bits_def)
  then have "and (and (and (work_perm m) readonly_bits) (not um)) (not um) = and (and (ucast m) readonly_bits) (not um)"
    by (simp add: and.assoc)
  then show ?thesis by (simp add: ac_simps)
qed

lemma exported_tree:
  assumes co: "checked_out g (w_umask w) fs w S" and pt: "plain_tree fs" and fine: "tree_fine g C fs" and q: "q \<noteq> []"
  shows "exported w S q = tree_content g (w_umask w) fs q"
proof -
  have ns: "\<not> skipped f" "gf_mode f = mode_symlink \<or> gf_mode f \<in> set modes_file \<and> gg_is_file g (gf_mode f)" if "f \<in> set fs" for f
    using co that by (auto simp: checked_out_def list_all_iff)
  have find_eq: "find (\<lambda>f. \<not> skipped f \<and> file_comps f = q) fs = find (\<lambda>f. file_comps f = q) fs"
    by (rule find_cong) (use ns in auto)
  have ex_eq: "list_ex (\<lambda>f. \<not> skipped f \<and> strict_prefix q (file_comps f)) fs = list_ex (\<lambda>f. strict_prefix q (file_comps f)) fs"
    using ns by (auto simp: list_ex_iff)
  show ?thesis
  proof (cases "''.git'' \<in> set q")
    case True
    have "find (\<lambda>f. file_comps f = q) fs = None" using True ns not_skipped_names by (auto simp: find_None_iff)
    moreover have "\<not> list_ex (\<lambda>f. strict_prefix q (file_comps f)) fs"
    proof
      assume "list_ex (\<lambda>f. strict_prefix q (file_comps f)) fs"
      then obtain f where f: "f \<in> set fs" "strict_prefix q (file_comps f)" by (auto simp: list_ex_iff)
      then have "set q \<subseteq> set (file_comps f)" by (simp add: strict_prefix_def set_mono_prefix)
      then show False using True not_skipped_names [OF ns(1) [OF f(1)]] by blast
    qed
    ultimately show ?thesis using True by (simp add: exported_def tree_content_def find_eq ex_eq)
  next
    case False
    have at: "case find (\<lambda>f. file_comps f = q) fs of
        Some f \<Rightarrow> look w (S @ q) = work_entry (w_umask w) f
      | None \<Rightarrow> if list_ex (\<lambda>f. strict_prefix q (file_comps f)) fs then is_dir w (S @ q) else look w (S @ q) = None"
      using co q False unfolding checked_out_def by blast
    show ?thesis
    proof (cases "find (\<lambda>f. file_comps f = q) fs")
      case None
      have "look w (S @ q) = None \<and> \<not> list_ex (\<lambda>f. strict_prefix q (file_comps f)) fs
          \<or> (\<exists>m. look w (S @ q) = Some (EDir m)) \<and> list_ex (\<lambda>f. strict_prefix q (file_comps f)) fs"
        using at None by (simp add: is_dir_iff split: if_splits)
      then show ?thesis using None False by (auto simp: exported_def tree_content_def find_eq ex_eq)
    next
      case (Some f)
      then have f: "f \<in> set fs" "file_comps f = q" using find_mem by fastforce+
      have look: "look w (S @ q) = work_entry (w_umask w) f" using at Some by simp
      have ff: "file_fine g C f" using fine f(1) ns(1) [OF f(1)] by (auto simp: tree_fine_def list_all_iff)
      show ?thesis
      proof (cases "gf_mode f = mode_symlink")
        case True
        then show ?thesis using look Some False ff
          by (auto simp: exported_def tree_content_def find_eq work_entry_def file_entry_def split: sum.splits)
      next
        case no: False
        then have m: "gf_mode f \<in> set modes_file" "gg_is_file g (gf_mode f)" using ns(2) [OF f(1)] by auto
        then obtain c where "gf_reader f = Inr (c, None)" using ff no by (auto simp: file_fine_def)
        then show ?thesis using look Some False no m blob_perms [OF m(1), of "w_umask w"]
          by (auto simp: exported_def tree_content_def find_eq work_entry_def file_entry_def Contents_def)
      qed
    qed
  qed
qed

text \<open>
  C12. The two backends mount the same content. When both succeed on a request without submodules, under the same
  umask, and the work tree git made is a checkout of the tree the library found, then the two content
  directories agree at every path: the same files with the same bytes and permissions, the same links, the same
  directories.
\<close>

theorem backends_agree:
  assumes "git_env_ok env a W (sy_world s)" and "work_ready (sy_world s) W"
    and "gitMaterialize env ctx a p W s = (Inr r1, s1)"
    and "plain_library g" and "work_ready (sy_world t) V" and "goGitMaterialize b g ctx' a p V t = (Inr r2, t1)"
    and "\<not> at_submodules a" and "w_umask (sy_world t1) = w_umask (sy_world s1)"
    and "\<And>tr. from_clone g ctx' p a (mr_resolved r2) tr \<Longrightarrow>
      checked_out g (w_umask (sy_world s1)) (fst (gg_files g tr)) (sy_world s1) (source_dir a W)"
  shows "look (sy_world s1) (content_dir W @ q) = look (sy_world t1) (content_dir V @ q)"
proof -
  have g1: "git_result p a W r1 (sy_world s1)" using gitMaterialize_steps [OF assms(1-3)] by simp
  have "gogit_result g ctx' p a V r2 (sy_world t1)" using goGitMaterialize_steps [OF assms(4-6)] by simp
  then obtain tr where tr: "from_clone g ctx' p a (mr_resolved r2) tr"
    and wr: "wrote_content g p a tr (content_dir V) (mr_file_count r2) (mr_size_bytes r2) (sy_world t1)"
    by (auto simp: gogit_result_def)
  let ?fs = "fst (gg_files g tr)"
  have right: "tree_fine g (content_dir V) ?fs" "q \<noteq> [] \<Longrightarrow> look (sy_world t1) (content_dir V @ q) = tree_content g (w_umask (sy_world s1)) ?fs q"
    "look (sy_world t1) (content_dir V) = Some (EDir (and publicDirPerm (not (w_umask (sy_world s1)))))"
    using wr assms(7,8) by (simp_all add: wrote_content_def)
  have left: "look (sy_world s1) (content_dir W @ q) = exported (sy_world s1) (source_dir a W) q" "is_dir (sy_world s1) (source_dir a W)"
    using g1 by (simp_all add: git_result_def)
  show ?thesis
  proof (cases "q = []")
    case True
    then show ?thesis using left bind_exported_root [OF left(2)] right(3) by simp
  next
    case False
    have "plain_tree ?fs" using assms(4) by (simp add: plain_library_def)
    from exported_tree [OF assms(9) [OF tr] this right(1) False] show ?thesis using left(1) right(2) [OF False] by simp
  qed
qed

text \<open>A test for work trees.\<close>

definition checkout_test :: "('r, 't) gogit \<Rightarrow> perm \<Rightarrow> git_file list \<Rightarrow> world \<Rightarrow> string list \<Rightarrow> bool" where
  "checkout_test g um fs w S \<longleftrightarrow>
     list_all (\<lambda>f. \<not> skipped f
       \<and> (gf_mode f = mode_symlink \<or> gf_mode f \<in> set modes_file \<and> gg_is_file g (gf_mode f))
       \<and> look w (S @ file_comps f) = work_entry um f
       \<and> list_all (\<lambda>n. is_dir w (S @ take n (file_comps f))) [0..<length (file_comps f)]) fs
     \<and> list_all (\<lambda>(x, e). prefix S x \<and> x \<noteq> S \<and> ''.git'' \<notin> set (drop (length S) x) \<longrightarrow>
          list_ex (\<lambda>f. prefix (drop (length S) x) (file_comps f)) fs) (w_fs w)"

lemma checkout_test:
  assumes "checkout_test g um fs w S"
  shows "checked_out g um fs w S"
  unfolding checked_out_def
proof (intro conjI allI impI)
  have all: "\<not> skipped f" "gf_mode f = mode_symlink \<or> gf_mode f \<in> set modes_file \<and> gg_is_file g (gf_mode f)"
    "look w (S @ file_comps f) = work_entry um f" "n < length (file_comps f) \<Longrightarrow> is_dir w (S @ take n (file_comps f))"
    if "f \<in> set fs" for f n
    using assms that by (auto simp: checkout_test_def list_all_iff)
  then show "list_all (\<lambda>f. \<not> skipped f \<and> (gf_mode f = mode_symlink \<or> gf_mode f \<in> set modes_file \<and> gg_is_file g (gf_mode f))) fs"
    by (simp add: list_all_iff)
  fix q
  assume q: "q \<noteq> [] \<and> ''.git'' \<notin> set q"
  show "case find (\<lambda>f. file_comps f = q) fs of
      Some f \<Rightarrow> look w (S @ q) = work_entry um f
    | None \<Rightarrow> if list_ex (\<lambda>f. strict_prefix q (file_comps f)) fs then is_dir w (S @ q) else look w (S @ q) = None"
  proof (cases "find (\<lambda>f. file_comps f = q) fs")
    case (Some f)
    then show ?thesis using all(3) [of f] find_mem by fastforce
  next
    case None
    have "is_dir w (S @ q)" if "f \<in> set fs" "strict_prefix q (file_comps f)" for f
      using all(4) [OF that(1), of "length q"] that(2) by (auto simp: strict_prefix_def prefix_def)
    moreover have "\<exists>f \<in> set fs. prefix q (file_comps f)" if some: "look w (S @ q) \<noteq> None"
    proof -
      obtain e where "(S @ q, e) \<in> set (w_fs w)" using some by (auto simp: look_def dest: map_of_SomeD)
      then show ?thesis using assms q by (force simp: checkout_test_def list_all_iff list_ex_iff)
    qed
    moreover have "file_comps f \<noteq> q" if "f \<in> set fs" for f using None that by (auto simp: find_None_iff)
    ultimately have "if list_ex (\<lambda>f. strict_prefix q (file_comps f)) fs then is_dir w (S @ q) else look w (S @ q) = None"
      unfolding list_ex_iff strict_prefix_def by (metis (no_types, lifting))
    then show ?thesis using None by simp
  qed
qed

theorem backends_agree_witness:
  "\<exists>s1 t1. snd (gitMaterialize (example_env site_tree) no_ctx example_attributes (applyPolicyDefaults example_policy) ''/cache/k'' node) = s1
     \<and> snd (goGitMaterialize None site_library no_ctx example_attributes (applyPolicyDefaults example_policy) ''/cache/k'' node) = t1
     \<and> (\<forall>q. look (sy_world s1) (content_dir ''/cache/k'' @ q) = look (sy_world t1) (content_dir ''/cache/k'' @ q))
     \<and> look (sy_world t1) [''cache'', ''k'', ''content'', ''a.css''] = Some (EFile ''body'' 292)"
proof -
  let ?m = "gitMaterialize (example_env site_tree) no_ctx example_attributes (applyPolicyDefaults example_policy) ''/cache/k'' node"
  let ?n = "goGitMaterialize None site_library no_ctx example_attributes (applyPolicyDefaults example_policy) ''/cache/k'' node"
  have m: "case ?m of (r, s) \<Rightarrow> is_ok r \<and> w_umask (sy_world s) = 18
      \<and> checkout_test site_library 18 (site_files 1) (sy_world s) (source_dir example_attributes ''/cache/k'')" by code_simp
  have n: "case ?n of (r, t) \<Rightarrow> is_ok r \<and> w_umask (sy_world t) = 18
      \<and> look (sy_world t) [''cache'', ''k'', ''content'', ''a.css''] = Some (EFile ''body'' 292)" by code_simp
  obtain r1 s1 where s1: "?m = (Inr r1, s1)" using m by (cases "fst ?m"; cases ?m) auto
  obtain r2 t1 where t1: "?n = (Inr r2, t1)" using n by (cases "fst ?n"; cases ?n) auto
  have sel: "select_tree site_library example_attributes 0 = Inr 1" by code_simp
  have "tr = 1" if "from_clone site_library ctx p example_attributes rv tr" for ctx p rv tr
    using that sel by (auto simp: from_clone_def site_library_def main_options_def example_attributes_def)
  then have co: "checked_out site_library (w_umask (sy_world s1)) (fst (gg_files site_library tr)) (sy_world s1) (source_dir example_attributes ''/cache/k'')"
    if "from_clone site_library ctx p example_attributes rv tr" for ctx p rv tr
    using that m s1 checkout_test by (auto simp: site_library_def)
  have "look (sy_world s1) (content_dir ''/cache/k'' @ q) = look (sy_world t1) (content_dir ''/cache/k'' @ q)" for q
    by (rule backends_agree [OF node_env_ok node_ready s1 site_plain node_ready t1 _ _ co])
      (use m n s1 t1 in \<open>simp_all add: example_attributes_def\<close>)
  then show ?thesis using s1 t1 n by auto
qed

end
