(* ===== verification/Clones.thy ===== *)
theory Clones
  imports Backends
begin

text \<open>
  What the go-git backend of \<^verbatim>\<open>pkg/materializer/gogit.go\<close> asks the network for: the repository, then the submodules
  that \<^verbatim>\<open>.gitmodules\<close> declares; with which credentials; and what of it the policy decides.
\<close>

section \<open>The submodules a tree declares\<close>

text \<open>The URL of a path: that of the last subsection with this path, in any section called \<^verbatim>\<open>submodule\<close>.\<close>

definition declared_url :: "(string \<times> (string \<Rightarrow> string) list) list \<Rightarrow> string \<Rightarrow> string option" where
  "declared_url secs name =
     (case filter (\<lambda>get. get ''path'' = name \<and> name \<noteq> [] \<and> get ''url'' \<noteq> [])
             (concat (map snd (filter (\<lambda>sec. EqualFold (fst sec) ''submodule'') secs))) of
        [] \<Rightarrow> None
      | gets \<Rightarrow> Some (last gets ''url''))"

text \<open>The URLs of the submodules of a tree, in the order of the walk: those of its gitlinks that have one.\<close>

definition submodule_urls :: "('r, 't) gogit \<Rightarrow> 't \<Rightarrow> string list" where
  "submodule_urls g tr =
     (case gg_file g tr ''.gitmodules'' of
        Inr (Some f) \<Rightarrow>
          (case Contents f of
             Inr c \<Rightarrow>
               (case gg_decode g c of
                  Inr secs \<Rightarrow>
                    List.map_filter (\<lambda>(name, mode, hash). if mode = mode_submodule then declared_url secs name else None)
                      (fst (gg_walk g tr))
                | Inl _ \<Rightarrow> [])
           | Inl _ \<Rightarrow> [])
      | _ \<Rightarrow> [])"

lemma fold_add_module:
  "map_of (fold add_module gets m) name =
     (case filter (\<lambda>get. get ''path'' = name \<and> name \<noteq> [] \<and> get ''url'' \<noteq> []) gets of
        [] \<Rightarrow> map_of m name | xs \<Rightarrow> Some (last xs ''url''))"
proof (induction gets arbitrary: m)
  case (Cons get gets)
  then show ?case by (auto simp: add_module_def Let_def update_conv' split: list.splits)
qed simp

lemma add_sections_fold:
  "add_sections secs m = fold add_module (concat (map snd (filter (\<lambda>sec. EqualFold (fst sec) ''submodule'') secs))) m"
  by (induction secs m rule: add_sections.induct) auto

lemma add_sections_url: "map_of (add_sections secs []) name = declared_url secs name"
  by (simp add: add_sections_fold fold_add_module declared_url_def split: list.split)

definition wanted :: "modules \<Rightarrow> (string \<times> 32 word \<times> string) list \<Rightarrow> string list" where
  "wanted urls es = List.map_filter (\<lambda>(name, mode, hash). if mode = mode_submodule then map_of urls name else None) es"

lemma wanted_Cons:
  "wanted urls ((name, mode, hash) # es) =
     (if mode = mode_submodule then (case map_of urls name of None \<Rightarrow> wanted urls es | Some u \<Rightarrow> u # wanted urls es) else wanted urls es)"
  by (simp add: wanted_def List.map_filter_def split: option.split)

lemma wanted_empty: "wanted [] es = []"
  by (induction es) (auto simp: wanted_def List.map_filter_def)

lemma wanted_declared:
  "List.map_filter (\<lambda>(name, mode, hash). if mode = mode_submodule then declared_url secs name else None) es = wanted (add_sections secs []) es"
  unfolding wanted_def add_sections_url by (rule refl)

lemma submodule_urls_wanted: "parseGitModules g tr = Inr urls \<Longrightarrow> submodule_urls g tr = wanted urls (fst (gg_walk g tr))"
  by (auto simp: parseGitModules_def submodule_urls_def wanted_empty wanted_declared
        split: sum.splits option.splits)

section \<open>The log\<close>

definition logged :: "string list \<Rightarrow> sys \<Rightarrow> int \<Rightarrow> (string \<times> string) option \<Rightarrow> sys \<Rightarrow> bool" where
  "logged us s depth auth s' \<longleftrightarrow> sy_log s' = sy_log s @ map (\<lambda>u. Cloned (module_options u depth auth)) us"

lemma log_same_onW [keeps_intros]: "keeps (\<lambda>s. sy_log s = L) (onW act)"
  by (rule keeps_onW) simp

lemma keeps_case_pair [keeps_intros]: "(\<And>a b. keeps I (f a b)) \<Longrightarrow> keeps I (case x of (a, b) \<Rightarrow> f a b)"
  by (cases x) simp

lemma log_cloneAndExport: "sy_log (snd (cloneAndExport g ctx url h d auth depth s)) = sy_log s @ [Cloned (module_options url depth auth)]"
proof -
  let ?rest = "\<lambda>repo. bindW (liftE (module_commit g repo h)) (\<lambda>commit. bindW (liftE (snd commit)) (\<lambda>tr. onW (exportTree g tr d)))"
  have rest: "keeps (\<lambda>s. sy_log s = L) (?rest repo)" for L repo by (intro keeps_intros)
  obtain r1 s1 where cl: "CloneContext g ctx (module_options url depth auth) s = (r1, s1)" by fastforce
  have l1: "sy_log s1 = sy_log s @ [Cloned (module_options url depth auth)]" using cl by (auto simp: CloneContext_def emit_def)
  show ?thesis
  proof (cases r1)
    case (Inl e)
    then show ?thesis using cl l1 by (simp add: cloneAndExport_def bindW_def wrapE_def)
  next
    case (Inr repo)
    then have "cloneAndExport g ctx url h d auth depth s = ?rest repo s1"
      using cl by (simp add: cloneAndExport_def bindW_def [of "wrapE _ _"] wrapE_def)
    then show ?thesis using rest [of "sy_log s1" repo] l1 by (simp add: keeps_def)
  qed
qed

lemma log_modules:
  assumes "export_modules g ctx d auth depth urls es acc s = (r, s')"
  shows "\<exists>us. logged us s depth auth s' \<and> prefix us (wanted urls es) \<and> (is_ok r \<longrightarrow> us = wanted urls es)"
  using assms
proof (induction es arbitrary: acc s)
  case Nil
  then show ?case by (auto simp: ret_def logged_def wanted_def List.map_filter_def)
next
  case (Cons e es)
  obtain name mode hash where e: "e = (name, mode, hash)" by (cases e) auto
  show ?case
  proof (cases "if mode = mode_submodule then map_of urls name else None")
    case None
    then have "export_modules g ctx d auth depth urls es acc s = (r, s')" "wanted urls (e # es) = wanted urls es"
      using Cons.prems by (auto simp: e wanted_Cons split: if_splits option.splits)
    then show ?thesis using Cons.IH by metis
  next
    case (Some url)
    let ?I = "\<lambda>s1. sy_log s1 = sy_log s"
    let ?Q = "\<lambda>r s'. \<exists>us. logged us s depth auth s' \<and> prefix us (url # wanted urls es) \<and> (is_ok r \<longrightarrow> us = url # wanted urls es)"
    have w: "wanted urls (e # es) = url # wanted urls es" "map_of urls name = Some url" "mode = mode_submodule"
      using Some by (auto simp: e wanted_Cons split: if_splits)
    have early: "?Q (Inl x) s1" if "?I s1" for x s1 using that by (intro exI [of _ "[]"]) (simp add: logged_def)
    have run: "bindW (liftE (safeJoin d name)) (\<lambda>subDir.
             bindW (onW (MkdirAll subDir publicDirPerm)) (\<lambda>_.
             bindW (wrapE (''submodule '' @ name) (cloneAndExport g ctx url hash subDir auth depth)) (\<lambda>(f, n).
               export_modules g ctx d auth depth urls es (fst acc + f, snd acc + n)))) s = (r, s')"
      using Cons.prems w by (simp add: e)
    have "?Q r s'"
    proof (rule bind_post [OF run, where I = ?I])
      fix subDir s1
      assume I1: "?I s1" and run1: "bindW (onW (MkdirAll subDir publicDirPerm)) (\<lambda>_.
             bindW (wrapE (''submodule '' @ name) (cloneAndExport g ctx url hash subDir auth depth)) (\<lambda>(f, n).
               export_modules g ctx d auth depth urls es (fst acc + f, snd acc + n))) s1 = (r, s')"
      show "?Q r s'"
      proof (rule bind_post [OF run1, where I = ?I])
        fix u s2
        assume I2: "?I s2" and run2: "bindW (wrapE (''submodule '' @ name) (cloneAndExport g ctx url hash subDir auth depth)) (\<lambda>(f, n).
               export_modules g ctx d auth depth urls es (fst acc + f, snd acc + n)) s2 = (r, s')"
        obtain r3 s3 where cl: "cloneAndExport g ctx url hash subDir auth depth s2 = (r3, s3)" by fastforce
        have l3: "sy_log s3 = sy_log s @ [Cloned (module_options url depth auth)]"
          using log_cloneAndExport [of g ctx url hash subDir auth depth s2] cl I2 by simp
        show "?Q r s'"
        proof (cases r3)
          case (Inl x)
          then have "s' = s3 \<and> \<not> is_ok r" using run2 cl by (auto simp: bindW_def wrapE_def)
          then show ?thesis using l3 by (intro exI [of _ "[url]"]) (simp add: logged_def)
        next
          case (Inr fn)
          then have "export_modules g ctx d auth depth urls es (fst acc + fst fn, snd acc + snd fn) s3 = (r, s')"
            using run2 cl by (simp add: bindW_def wrapE_def split_def)
          from Cons.IH [OF this] obtain us where "logged us s3 depth auth s'" "prefix us (wanted urls es)" "is_ok r \<longrightarrow> us = wanted urls es"
            by blast
          then show ?thesis using l3 by (intro exI [of _ "url # us"]) (simp add: logged_def)
        qed
      qed (use I1 early in \<open>auto intro: keeps_intros\<close>)
    qed (use early in \<open>auto intro: keeps_intros\<close>)
    then show ?thesis by (simp only: w)
  qed
qed

text \<open>What one stage of a materialisation of the tree \<open>tr\<close> adds to the log: a part of the submodules, all of them when it succeeds.\<close>

definition cloned_modules :: "('r, 't) gogit \<Rightarrow> attributes \<Rightarrow> git_content_policy \<Rightarrow> 't \<Rightarrow> sys \<Rightarrow> bool \<Rightarrow> sys \<Rightarrow> bool" where
  "cloned_modules g a p tr s done s' \<longleftrightarrow>
     (\<exists>us. logged us s (sp_max_depth (p_submodules p)) (http_auth (gg_environ g)) s'
        \<and> prefix us (if at_submodules a then submodule_urls g tr else [])
        \<and> (done \<longrightarrow> us = (if at_submodules a then submodule_urls g tr else [])))"

lemma cloned_none: "sy_log s' = sy_log s \<Longrightarrow> cloned_modules g a p tr s False s'"
  unfolding cloned_modules_def logged_def by (intro exI [of _ "[]"]) simp

lemma log_submodules:
  assumes "exportSubmodules g ctx tr d (http_auth (gg_environ g)) (sp_max_depth (p_submodules p)) s = (r, s')" and "at_submodules a"
  shows "cloned_modules g a p tr s (is_ok r) s'"
proof (cases "parseGitModules g tr")
  case (Inl e)
  then have "s' = s \<and> \<not> is_ok r" using assms by (auto simp: exportSubmodules_def bindW_def liftE_def)
  then show ?thesis using cloned_none [of s' s g a p tr] by simp
next
  case (Inr urls)
  let ?auth = "http_auth (gg_environ g)" and ?depth = "sp_max_depth (p_submodules p)"
  show ?thesis
  proof (cases "urls = []")
    case True
    then show ?thesis using assms Inr submodule_urls_wanted [OF Inr]
      by (auto simp: exportSubmodules_def bindW_def liftE_def ret_def cloned_modules_def logged_def wanted_empty)
  next
    case False
    obtain r1 s1 where m: "export_modules g ctx d ?auth ?depth urls (fst (gg_walk g tr)) (0, 0) s = (r1, s1)" by fastforce
    obtain us where us: "logged us s ?depth ?auth s1" "prefix us (submodule_urls g tr)" "is_ok r1 \<longrightarrow> us = submodule_urls g tr"
      using log_modules [OF m] submodule_urls_wanted [OF Inr] by auto
    have "s' = s1 \<and> (is_ok r \<longrightarrow> is_ok r1)"
      using assms(1) Inr False m by (auto simp: exportSubmodules_def bindW_def liftE_def ret_def fail_def split: sum.splits option.splits)
    then show ?thesis using us assms(2) by (auto simp: cloned_modules_def)
  qed
qed

lemma log_content:
  assumes "write_content b g ctx a p tr d s = (r, s')"
  shows "cloned_modules g a p tr s (is_ok r) s'"
proof -
  let ?I = "\<lambda>s1. sy_log s1 = sy_log s" and ?Q = "\<lambda>r s'. cloned_modules g a p tr s (is_ok r) s'"
  let ?subs = "if at_submodules a
      then exportSubmodules g ctx tr d (http_auth (gg_environ g)) (sp_max_depth (p_submodules p)) else ret (0, 0)"
  let ?tail = "\<lambda>files sz sf ss. bindW (liftE (check_limits p (files + sf) (sz + ss))) (\<lambda>_.
     bindW (case b of None \<Rightarrow> ret () | Some (uid, gid) \<Rightarrow> onW (chownTree d (uint uid) (uint gid))) (\<lambda>_.
       ret (files + sf, sz + ss)))"
  have tail: "keeps (\<lambda>s. sy_log s = L) (?tail files sz sf ss)" for L files sz sf ss
    by (intro keeps_intros)
  have rest: "?Q r s'" if I: "?I s1" and run: "bindW ?subs (\<lambda>(sf, ss). ?tail files sz sf ss) s1 = (r, s')" for s1 files sz
  proof -
    obtain r2 s2 where subs: "?subs s1 = (r2, s2)" by fastforce
    have c2: "cloned_modules g a p tr s1 (is_ok r2) s2"
    proof (cases "at_submodules a")
      case True
      then show ?thesis using log_submodules [of g ctx tr d p s1 r2 s2 a] subs by simp
    next
      case False
      then show ?thesis using subs by (auto simp: ret_def cloned_modules_def logged_def)
    qed
    have "sy_log s' = sy_log s2 \<and> (is_ok r \<longrightarrow> is_ok r2)"
    proof (cases r2)
      case (Inl e)
      then show ?thesis using run subs by (auto simp: bindW_def)
    next
      case (Inr v)
      then have "?tail files sz (fst v) (snd v) s2 = (r, s')" using run subs by (simp add: bindW_def [of ?subs] split_def)
      from keepsD [OF tail refl this] show ?thesis using Inr by simp
    qed
    then show ?thesis using c2 I by (auto simp: cloned_modules_def logged_def)
  qed
  have run: "bindW (onW (RemoveAll d)) (\<lambda>_.
     bindW (onW (MkdirAll d publicDirPerm)) (\<lambda>_.
     bindW (onW (exportTree g tr d)) (\<lambda>(files, sz).
     bindW ?subs (\<lambda>(sf, ss). ?tail files sz sf ss)))) s = (r, s')"
    using assms unfolding write_content_def by simp
  have early: "?Q (Inl e) s1" if "?I s1" for e s1 using that cloned_none by simp
  show ?thesis
  proof (rule bind_post [OF run, where I = ?I and Q = ?Q])
    fix u s1
    assume I1: "?I s1" and run1: "bindW (onW (MkdirAll d publicDirPerm)) (\<lambda>_.
     bindW (onW (exportTree g tr d)) (\<lambda>(files, sz).
     bindW ?subs (\<lambda>(sf, ss). ?tail files sz sf ss))) s1 = (r, s')"
    show "?Q r s'"
    proof (rule bind_post [OF run1, where I = ?I and Q = ?Q])
      fix u s2
      assume I2: "?I s2" and run2: "bindW (onW (exportTree g tr d)) (\<lambda>(files, sz).
         bindW ?subs (\<lambda>(sf, ss). ?tail files sz sf ss)) s2 = (r, s')"
      show "?Q r s'"
      proof (rule bind_post [OF run2, where I = ?I and Q = ?Q])
        fix v s3
        assume "?I s3" and "(case v of (files, sz) \<Rightarrow> bindW ?subs (\<lambda>(sf, ss). ?tail files sz sf ss)) s3 = (r, s')"
        then show "?Q r s'" using rest [of s3 "fst v" "snd v"] by (simp add: split_def)
      qed (use I2 early in \<open>simp_all add: log_same_onW\<close>)
    qed (use I1 early in \<open>simp_all add: log_same_onW\<close>)
  qed (use early in \<open>simp_all add: log_same_onW\<close>)
qed

definition gogit_tail ::
  "gogit_backend \<Rightarrow> ('r, 't) gogit \<Rightarrow> ctx \<Rightarrow> attributes \<Rightarrow> git_content_policy \<Rightarrow> string \<Rightarrow> 'r \<Rightarrow> mat_result sys_action" where
  "gogit_tail b g ctx a p W repo =
     bindW (liftE (resolveHash g repo a)) (\<lambda>hash.
     bindW (liftE (wrap_result ''resolve commit failed'' (gg_commit g repo hash))) (\<lambda>commit.
     bindW (liftE (wrap_result ''get tree failed'' (snd commit))) (\<lambda>root.
     bindW (liftE (select_tree g a root)) (\<lambda>tr.
     bindW (write_content b g ctx a p tr (Join W ''content'')) (\<lambda>(files, sz).
       ret (zero_mat_result\<lparr>mr_resolved := fst commit, mr_mounted_path := Join W ''content'',
              mr_file_count := files, mr_size_bytes := sz\<rparr>))))))"

text \<open>After the clone: nothing is cloned before a tree is selected, and then its submodules.\<close>

lemma log_tail:
  assumes "gogit_tail b g ctx a p W repo s = (r, s')" and "gg_clone g ctx (main_options (gg_environ g) a p) s0 = Inr repo"
  shows "sy_log s' = sy_log s \<and> \<not> is_ok r
    \<or> (\<exists>rv tr. from_clone g ctx p a rv tr \<and> cloned_modules g a p tr s (is_ok r) s' \<and> (\<forall>res. r = Inr res \<longrightarrow> rv = mr_resolved res))"
proof -
  have lift: "liftE x s = (case x of Inl e \<Rightarrow> (Inl (Plain e), s) | Inr v \<Rightarrow> (Inr v, s))" for x :: "'z result" and s :: sys
    by (simp add: liftE_def)
  show ?thesis
  proof (cases "\<exists>hash commit root tr. resolveHash g repo a = Inr hash \<and> gg_commit g repo hash = Inr commit \<and> snd commit = Inr root
      \<and> select_tree g a root = Inr tr")
    case True
    then obtain hash commit root tr where ok: "resolveHash g repo a = Inr hash" "gg_commit g repo hash = Inr commit" "snd commit = Inr root"
      "select_tree g a root = Inr tr" by blast
    have fc: "from_clone g ctx p a (fst commit) tr" using assms(2) ok unfolding from_clone_def by (metis prod.collapse)
    obtain r1 s1 where wc: "write_content b g ctx a p tr (Join W ''content'') s = (r1, s1)" by fastforce
    have "s' = s1 \<and> is_ok r = is_ok r1 \<and> (\<forall>res. r = Inr res \<longrightarrow> fst commit = mr_resolved res)"
      using assms(1) ok wc
      by (cases r1) (auto simp: gogit_tail_def bindW_def lift wrap_result_def ret_def split_def)
    then show ?thesis using log_content [OF wc] fc by (intro disjI2 exI [of _ "fst commit"] exI [of _ tr]) simp
  next
    case False
    then show ?thesis
      using assms(1) by (auto simp: gogit_tail_def bindW_def lift wrap_result_def split: sum.splits)
  qed
qed

section \<open>What is cloned\<close>

lemma clones_log:
  assumes run: "goGitMaterialize b g ctx a p W s = (r, s')"
  shows "sy_log s' = sy_log s \<and> \<not> is_ok r
    \<or> (\<exists>urls. logged urls (emit (Cloned (main_options (gg_environ g) a p)) s) (sp_max_depth (p_submodules p)) (http_auth (gg_environ g)) s'
        \<and> (urls \<noteq> [] \<longrightarrow> at_submodules a \<and> (\<exists>rv tr. from_clone g ctx p a rv tr \<and> prefix urls (submodule_urls g tr)))
        \<and> (\<forall>res. r = Inr res \<longrightarrow> (\<exists>tr. from_clone g ctx p a (mr_resolved res) tr
             \<and> urls = (if at_submodules a then submodule_urls g tr else []))))"
proof -
  let ?main = "main_options (gg_environ g) a p" and ?depth = "sp_max_depth (p_submodules p)" and ?auth = "http_auth (gg_environ g)"
  obtain r1 s1 where mk: "onW (MkdirAll W privateDirPerm) s = (r1, s1)" by fastforce
  have l1: "sy_log s1 = sy_log s" using keepsD [OF log_same_onW refl mk] .
  show ?thesis
  proof (cases r1)
    case (Inl e)
    then show ?thesis using run mk l1 by (auto simp: goGitMaterialize_def bindW_def)
  next
    case (Inr u)
    obtain r2 s2 where cl: "CloneContext g ctx ?main s1 = (r2, s2)" by fastforce
    have l2: "sy_log s2 = sy_log (emit (Cloned ?main) s)" using cl l1 by (auto simp: CloneContext_def emit_def)
    show ?thesis
    proof (cases r2)
      case (Inl e)
      then have "s' = s2 \<and> \<not> is_ok r" using run mk Inr cl by (auto simp: goGitMaterialize_def bindW_def wrapE_def)
      then show ?thesis using l2 by (intro disjI2 exI [of _ "[]"]) (auto simp: logged_def)
    next
      case repo: (Inr repo)
      then have got: "gg_clone g ctx ?main s1 = Inr repo" using cl by (simp add: CloneContext_def)
      have "gogit_tail b g ctx a p W repo s2 = (r, s')"
        using run mk Inr cl repo
        by (simp add: goGitMaterialize_def gogit_tail_def bindW_def [of "onW _"] bindW_def [of "wrapE _ _"] wrapE_def)
      from log_tail [OF this got] consider "sy_log s' = sy_log s2" "\<not> is_ok r"
        | rv tr where "from_clone g ctx p a rv tr" "cloned_modules g a p tr s2 (is_ok r) s'" "\<forall>res. r = Inr res \<longrightarrow> rv = mr_resolved res"
        by blast
      then show ?thesis
      proof cases
        case 1
        then show ?thesis using l2 by (intro disjI2 exI [of _ "[]"]) (auto simp: logged_def)
      next
        case 2
        then obtain us where us: "logged us s2 ?depth ?auth s'"
          "prefix us (if at_submodules a then submodule_urls g tr else [])"
          "is_ok r \<longrightarrow> us = (if at_submodules a then submodule_urls g tr else [])"
          by (auto simp: cloned_modules_def)
        have "us \<noteq> [] \<longrightarrow> at_submodules a \<and> prefix us (submodule_urls g tr)" using us(2) by (auto split: if_splits)
        moreover have "logged us (emit (Cloned ?main) s) ?depth ?auth s'" using us(1) l2 by (simp add: logged_def)
        moreover have "from_clone g ctx p a (mr_resolved res) tr" if "r = Inr res" for res using 2(1,3) that by metis
        ultimately show ?thesis using us(3) 2(1) is_ok_simps by (metis (lifting))
      qed
    qed
  qed
qed

text \<open>
  C34. The go-git backend starts no process, and this is all it asks the network for. If it cannot make its work directory, nothing. Otherwise
  first the repository of the request, at the depth of the request or else of the policy, with the user name and the password of the environment
  when a user name is set. Then, only when the request asks for submodules, the URLs that the \<^verbatim>\<open>.gitmodules\<close> of the tree it exports declares for
  the gitlinks of that tree, in the order of the walk, each at the depth of the submodule policy, with the same credentials; all of them when it
  succeeds, and the first few of them otherwise.
\<close>

theorem goGitMaterialize_clones:
  assumes run: "goGitMaterialize b g ctx a p W s = (r, s')"
    and creds: "creds = (if Getenv (gg_environ g) ''GITCONTENT_HTTP_USERNAME'' = [] then None
             else Some (Getenv (gg_environ g) ''GITCONTENT_HTTP_USERNAME'', Getenv (gg_environ g) ''GITCONTENT_HTTP_PASSWORD''))"
    and first: "first = \<lparr>co_url = at_repo a, co_depth = (if at_depth a = 0 then cp_default_depth (p_clone p) else at_depth a),
             co_no_checkout = True, co_reference = clone_reference a, co_single_branch = (clone_reference a \<noteq> []), co_auth = creds\<rparr>"
    and child: "child = (\<lambda>url. \<lparr>co_url = url, co_depth = sp_max_depth (p_submodules p), co_no_checkout = True, co_reference = [],
             co_single_branch = False, co_auth = creds\<rparr>)"
  shows "sy_log s' = sy_log s \<and> \<not> is_ok r
    \<or> (\<exists>urls. sy_log s' = sy_log s @ Cloned first # map (\<lambda>url. Cloned (child url)) urls
        \<and> (urls \<noteq> [] \<longrightarrow> at_submodules a \<and> (\<exists>rv tr. from_clone g ctx p a rv tr \<and> prefix urls (submodule_urls g tr)))
        \<and> (\<forall>res. r = Inr res \<longrightarrow> (\<exists>tr. from_clone g ctx p a (mr_resolved res) tr
             \<and> urls = (if at_submodules a then submodule_urls g tr else []))))"
proof -
  have opts: "main_options (gg_environ g) a p = first" "module_options url (sp_max_depth (p_submodules p)) (http_auth (gg_environ g)) = child url" for url
    by (simp_all add: main_options_def module_options_def first child creds http_auth_def Let_def clone_depth_def)
  then show ?thesis using clones_log [OF run] by (simp add: logged_def emit_def)
qed

definition module_attributes :: attributes where
  "module_attributes = example_attributes\<lparr>at_submodules := True, at_path := []\<rparr>"

lemma site_tree: "from_clone site_library ctx p module_attributes rv tr \<Longrightarrow> tr = 0"
proof -
  have "select_tree site_library module_attributes 0 = Inr 0" by code_simp
  then show "from_clone site_library ctx p module_attributes rv tr \<Longrightarrow> tr = 0"
    by (auto simp: from_clone_def site_library_def main_options_def module_attributes_def example_attributes_def)
qed

theorem goGitMaterialize_clones_witness:
  "\<exists>s'. goGitMaterialize None site_library no_ctx module_attributes (applyPolicyDefaults example_policy) ''/cache/k'' node
        = (fst (goGitMaterialize None site_library no_ctx module_attributes (applyPolicyDefaults example_policy) ''/cache/k'' node), s')
     \<and> map (\<lambda>ev. case ev of Cloned c \<Rightarrow> (co_url c, co_auth c) | Ran c \<Rightarrow> ([], None)) (sy_log s')
       = [(''https://github.com/example/site.git'', Some (''robot'', ''secret'')), (''https://evil.example/lib.git'', Some (''robot'', ''secret''))]"
proof -
  let ?m = "goGitMaterialize None site_library no_ctx module_attributes (applyPolicyDefaults example_policy) ''/cache/k'' node"
  have ok: "is_ok (fst ?m)" by code_simp
  then obtain res where res: "fst ?m = Inr res" by (auto simp: is_ok_iff)
  have env: "Getenv (gg_environ site_library) ''GITCONTENT_HTTP_USERNAME'' = ''robot''"
    "Getenv (gg_environ site_library) ''GITCONTENT_HTTP_PASSWORD'' = ''secret''" by code_simp+
  have zero: "tr = 0" if "from_clone site_library no_ctx (applyPolicyDefaults example_policy) module_attributes (mr_resolved res) tr" for tr
    by (rule site_tree [OF that])
  have urls: "submodule_urls site_library 0 = [''https://evil.example/lib.git'']" by code_simp
  have rest: "at_submodules module_attributes" "at_repo module_attributes = ''https://github.com/example/site.git''" "sy_log node = []"
    by code_simp+
  have run: "?m = (Inr res, snd ?m)" using res by (simp add: prod_eq_iff)
  have creds: "Some (''robot'', ''secret'') = (if Getenv (gg_environ site_library) ''GITCONTENT_HTTP_USERNAME'' = [] then None
      else Some (Getenv (gg_environ site_library) ''GITCONTENT_HTTP_USERNAME'', Getenv (gg_environ site_library) ''GITCONTENT_HTTP_PASSWORD''))"
    using env by simp
  note all = goGitMaterialize_clones [OF run creds refl refl]
  obtain us tr where tr: "from_clone site_library no_ctx (applyPolicyDefaults example_policy) module_attributes (mr_resolved res) tr"
      "us = submodule_urls site_library tr"
    and log: "map (\<lambda>ev. case ev of Cloned c \<Rightarrow> (co_url c, co_auth c) | Ran c \<Rightarrow> ([], None)) (sy_log (snd ?m))
        = (''https://github.com/example/site.git'', Some (''robot'', ''secret'')) # map (\<lambda>url. (url, Some (''robot'', ''secret''))) us"
    using all
  proof (elim disjE exE conjE, goal_cases)
    case 1
    then show ?case by simp
  next
    case (2 us)
    from 2(4) rest(1) obtain tr where tr: "from_clone site_library no_ctx (applyPolicyDefaults example_policy) module_attributes (mr_resolved res) tr"
      "us = submodule_urls site_library tr" by (simp only: if_True) blast
    show ?case by (rule 2(1) [OF tr]) (simp add: 2(2) rest comp_def)
  qed
  have "us = [''https://evil.example/lib.git'']" using zero [OF tr(1)] tr(2) urls by simp
  then show ?thesis using log by (intro exI [of _ "snd ?m"] conjI) simp_all
qed

section \<open>What the policy decides of it\<close>

text \<open>A policy with other lists for its submodules.\<close>

definition relisted :: "string list \<Rightarrow> string list \<Rightarrow> bool \<Rightarrow> git_content_policy \<Rightarrow> git_content_policy" where
  "relisted hosts repos recursive p =
     p\<lparr>p_submodules := (p_submodules p)
        \<lparr>sp_allowed_hosts := hosts, sp_allowed_repositories := repos, sp_recursive := recursive\<rparr>\<rparr>"

lemma relisted_simps [simp]:
  "p_name (relisted hs rs c p) = p_name p" "p_namespaces (relisted hs rs c p) = p_namespaces p"
  "p_allowed_repositories (relisted hs rs c p) = p_allowed_repositories p" "p_allowed_hosts (relisted hs rs c p) = p_allowed_hosts p"
  "p_clone (relisted hs rs c p) = p_clone p" "p_lfs (relisted hs rs c p) = p_lfs p" "p_revisions (relisted hs rs c p) = p_revisions p"
  "p_credentials (relisted hs rs c p) = p_credentials p"
  "sp_enabled (p_submodules (relisted hs rs c p)) = sp_enabled (p_submodules p)"
  "sp_max_depth (p_submodules (relisted hs rs c p)) = sp_max_depth (p_submodules p)"
  by (simp_all add: relisted_def)

lemma relisted_uses: "clone_depth a (relisted hs rs c p) = clone_depth a p" "check_limits (relisted hs rs c p) = check_limits p"
  unfolding clone_depth_def check_limits_def fun_eq_iff relisted_simps by (rule refl) (intro allI refl)

lemma selectPolicy_relisted: "selectPolicy (map (relisted hs rs c) ps) ns name = map_option (relisted hs rs c) (selectPolicy ps ns name)"
  by (induction ps) auto

text \<open>
  C35. The lists of a submodule policy decide nothing. Whatever its allowed hosts, its allowed repositories and its recursive flag, every decision
  is the same, and both backends do the same from every state; and when the go-git backend succeeds on a request with submodules, every URL
  that the \<^verbatim>\<open>.gitmodules\<close> of the exported tree declares for one of its gitlinks, on whatever host, has been asked for with the
  credentials of the driver.
\<close>

theorem submodule_lists_ignored:
  "fst (Evaluate rx (map (relisted hs rs c) ps) req name) = fst (Evaluate rx ps req name)
   \<and> goGitMaterialize b g ctx a (relisted hs rs c p) W s = goGitMaterialize b g ctx a p W s
   \<and> gitMaterialize env ctx a (relisted hs rs c p) W s = gitMaterialize env ctx a p W s
   \<and> (\<forall>res s'. goGitMaterialize b g ctx a (relisted hs rs c p) W s = (Inr res, s') \<longrightarrow> at_submodules a \<longrightarrow>
        (\<exists>tr. from_clone g ctx p a (mr_resolved res) tr
          \<and> (\<forall>url \<in> set (submodule_urls g tr).
               \<exists>opts. Cloned opts \<in> set (sy_log s') \<and> co_url opts = url \<and> co_auth opts = http_auth (gg_environ g))))"
proof (intro conjI allI impI)
  show "fst (Evaluate rx (map (relisted hs rs c) ps) req name) = fst (Evaluate rx ps req name)"
    by (cases "selectPolicy ps (rq_namespace req) name") (auto simp: Evaluate_def selectPolicy_relisted Let_def split: sum.splits)
  show same: "goGitMaterialize b g ctx a (relisted hs rs c p) W s = goGitMaterialize b g ctx a p W s"
    unfolding goGitMaterialize_def write_content_def main_options_def relisted_uses relisted_simps by (rule refl)
  show "gitMaterialize env ctx a (relisted hs rs c p) W s = gitMaterialize env ctx a p W s"
    unfolding gitMaterialize_def export_content_def relisted_uses relisted_simps by (rule refl)
  fix res s'
  assume "goGitMaterialize b g ctx a (relisted hs rs c p) W s = (Inr res, s')" and sub: "at_submodules a"
  then have "goGitMaterialize b g ctx a p W s = (Inr res, s')" by (simp add: same)
  from clones_log [OF this] sub obtain tr where tr: "from_clone g ctx p a (mr_resolved res) tr"
    and log: "logged (submodule_urls g tr) (emit (Cloned (main_options (gg_environ g) a p)) s) (sp_max_depth (p_submodules p)) (http_auth (gg_environ g)) s'"
    by auto
  have "\<exists>opts. Cloned opts \<in> set (sy_log s') \<and> co_url opts = url \<and> co_auth opts = http_auth (gg_environ g)" if "url \<in> set (submodule_urls g tr)" for url
    using log that by (intro exI [of _ "module_options url (sp_max_depth (p_submodules p)) (http_auth (gg_environ g))"])
      (auto simp: logged_def module_options_def)
  then show "\<exists>tr. from_clone g ctx p a (mr_resolved res) tr
      \<and> (\<forall>url \<in> set (submodule_urls g tr). \<exists>opts. Cloned opts \<in> set (sy_log s') \<and> co_url opts = url \<and> co_auth opts = http_auth (gg_environ g))"
    using tr by blast
qed

theorem submodule_lists_ignored_witness:
  "\<exists>res s'. goGitMaterialize None site_library no_ctx module_attributes (relisted [''github.com''] [] False (applyPolicyDefaults example_policy))
       ''/cache/k'' node = (Inr res, s')
     \<and> (\<exists>opts. Cloned opts \<in> set (sy_log s') \<and> co_url opts = ''https://evil.example/lib.git'' \<and> co_auth opts = Some (''robot'', ''secret''))"
proof -
  let ?p = "relisted [''github.com''] [] False (applyPolicyDefaults example_policy)"
  let ?m = "goGitMaterialize None site_library no_ctx module_attributes ?p ''/cache/k'' node"
  note lists = submodule_lists_ignored [of no_regex "[''github.com'']" "[]" False "[]" undefined "[]" None site_library no_ctx
      module_attributes "applyPolicyDefaults example_policy" "''/cache/k''" node undefined]
  have "is_ok (fst (goGitMaterialize None site_library no_ctx module_attributes (applyPolicyDefaults example_policy) ''/cache/k'' node))" by code_simp
  then have "is_ok (fst ?m)" using lists by metis
  then obtain res s' where run: "?m = (Inr res, s')" by (cases ?m) (auto simp: is_ok_iff)
  have sub: "at_submodules module_attributes" "http_auth (gg_environ site_library) = Some (''robot'', ''secret'')"
    "submodule_urls site_library 0 = [''https://evil.example/lib.git'']" by code_simp+
  obtain tr where tr: "from_clone site_library no_ctx (applyPolicyDefaults example_policy) module_attributes (mr_resolved res) tr"
    and all: "\<And>url. url \<in> set (submodule_urls site_library tr) \<Longrightarrow>
      \<exists>opts. Cloned opts \<in> set (sy_log s') \<and> co_url opts = url \<and> co_auth opts = http_auth (gg_environ site_library)"
    using lists run sub(1) by blast
  have "tr = 0" by (rule site_tree [OF tr])
  then show ?thesis using run all [of "''https://evil.example/lib.git''"] sub by simp
qed

text \<open>
  C37. Two ways around the revision policy. A request with a revision kind that mentions a tag has the backend ask for a tag, whatever
  its revision, although a revision that names no tag is judged as a branch, by the rules for branches alone: whether tags are allowed, and
  which, does not matter. And for a tag whose name is \<^verbatim>\<open>HEAD\<close> in any case the backend asks for no reference, so that it
  gets the default branch, although the rules for branches do not matter.
\<close>

theorem revision_kind_bypass:
  assumes "Parse raw = Inr a"
  shows "(is_branch_rev (at_revision a) \<and> Contains (at_revision_kind a) ''tag'' \<and> \<not> EqualFold (mutableRef a) ''HEAD'' \<longrightarrow>
           HasPrefix (clone_reference a) ''refs/tags/''
           \<and> (\<forall>rx rp allow pats. checkRevisionPolicy rx (at_revision a) (rp\<lparr>rp_allow_tags := allow, rp_allowed_tag_regex := pats\<rparr>)
                = checkRevisionPolicy rx (at_revision a) rp))
    \<and> (is_tag_rev (at_revision a) \<and> EqualFold (mutableRef a) ''HEAD'' \<longrightarrow>
           clone_reference a = []
           \<and> (\<forall>rx rp allow pats. checkRevisionPolicy rx (at_revision a) (rp\<lparr>rp_allow_branches := allow, rp_allowed_branch_regex := pats\<rparr>)
                = checkRevisionPolicy rx (at_revision a) rp))"
proof (intro conjI impI allI)
  have some: "mutableRef a \<noteq> []" if "is_branch_rev (at_revision a)"
    using parsed_operands [OF assms] revision_kinds [of "at_revision a"] that by (auto simp: isPinnedCommit_isCommitSHA)
  note kinds = revision_kinds [of "at_revision a"]
  {
    assume b: "is_branch_rev (at_revision a) \<and> Contains (at_revision_kind a) ''tag'' \<and> \<not> EqualFold (mutableRef a) ''HEAD''"
    then show "HasPrefix (clone_reference a) ''refs/tags/''" using some by (simp add: clone_reference_def Let_def is_tag_request_def)
    show "checkRevisionPolicy rx (at_revision a) (rp\<lparr>rp_allow_tags := allow, rp_allowed_tag_regex := pats\<rparr>)
        = checkRevisionPolicy rx (at_revision a) rp" for rx rp allow pats
      using b kinds by (auto simp: checkRevisionPolicy_def Let_def)
  }
  {
    assume t: "is_tag_rev (at_revision a) \<and> EqualFold (mutableRef a) ''HEAD''"
    then show "clone_reference a = []" by (simp add: clone_reference_def Let_def)
    show "checkRevisionPolicy rx (at_revision a) (rp\<lparr>rp_allow_branches := allow, rp_allowed_branch_regex := pats\<rparr>)
        = checkRevisionPolicy rx (at_revision a) rp" for rx rp allow pats
      using t kinds by (auto simp: checkRevisionPolicy_def Let_def)
  }
qed

definition kind_raw :: "string \<Rightarrow> string \<Rightarrow> gomap" where
  "kind_raw revision kind =
     [''repo'' \<mapsto> ''https://github.com/example/site.git'', ''revision'' \<mapsto> revision, ''revisionKind'' \<mapsto> kind]"

theorem revision_kind_bypass_witness:
  "\<exists>a a'. Parse (kind_raw ''v1'' ''tag'') = Inr a \<and> Parse (kind_raw ''refs/tags/HEAD'' []) = Inr a'
     \<and> HasPrefix (clone_reference a) ''refs/tags/'' \<and> clone_reference a' = []
     \<and> checkRevisionPolicy no_regex (at_revision a) (zero_revision_policy\<lparr>rp_allow_branches := True\<rparr>) = Inr ()
     \<and> checkRevisionPolicy no_regex (at_revision a') (zero_revision_policy\<lparr>rp_allow_tags := True\<rparr>) = Inr ()"
proof -
  have ok: "is_ok (Parse (kind_raw ''v1'' ''tag''))" "is_ok (Parse (kind_raw ''refs/tags/HEAD'' []))" by code_simp+
  then obtain a a' where a: "Parse (kind_raw ''v1'' ''tag'') = Inr a" "Parse (kind_raw ''refs/tags/HEAD'' []) = Inr a'"
    by (auto simp: is_ok_iff)
  have "case (Parse (kind_raw ''v1'' ''tag''), Parse (kind_raw ''refs/tags/HEAD'' [])) of
      (Inr a, Inr a') \<Rightarrow> is_branch_rev (at_revision a) \<and> Contains (at_revision_kind a) ''tag'' \<and> \<not> EqualFold (mutableRef a) ''HEAD''
        \<and> is_tag_rev (at_revision a') \<and> EqualFold (mutableRef a') ''HEAD''
        \<and> checkRevisionPolicy no_regex (at_revision a) (zero_revision_policy\<lparr>rp_allow_branches := True\<rparr>) = Inr ()
        \<and> checkRevisionPolicy no_regex (at_revision a') (zero_revision_policy\<lparr>rp_allow_tags := True\<rparr>) = Inr ()
    | _ \<Rightarrow> False" by code_simp
  then show ?thesis using a revision_kind_bypass [OF a(1)] revision_kind_bypass [OF a(2)] by simp
qed

end
