(* ===== verification/Durations.thy ===== *)
theory Durations
  imports Policy
begin

text \<open>
  The timeout of a clone policy: \<^verbatim>\<open>parseDuration\<close> and \<^verbatim>\<open>ClonePolicy.UnmarshalJSON\<close> of \<^verbatim>\<open>pkg/policy/types.go\<close>, with
  \<^verbatim>\<open>time.ParseDuration\<close> written out. A duration is a number of nanoseconds.
\<close>

section \<open>time.ParseDuration\<close>

definition duration_units :: "(string \<times> int) list" where
  "duration_units =
     [(''ns'', 1), (''us'', 1000), ([CHR 0xC2, CHR 0xB5, CHR ''s''], 1000), ([CHR 0xCE, CHR 0xBC, CHR ''s''], 1000),
      (''ms'', 1000000), (''s'', 1000000000), (''m'', 60000000000), (''h'', 3600000000000)]"

text \<open>A run of digits, refused beyond \<open>2 ^ 63\<close>; and digits after the point, ignored beyond it.\<close>

fun leading_int :: "int \<Rightarrow> string \<Rightarrow> (int \<times> string) option" where
  "leading_int x [] = Some (x, [])"
| "leading_int x (c # cs) =
     (if \<not> is_digit c then Some (x, c # cs)
      else if x > 2 ^ 63 div 10 then None
      else if 10 * x + digit_val c > 2 ^ 63 then None
      else leading_int (10 * x + digit_val c) cs)"

fun leading_fraction :: "bool \<Rightarrow> int \<Rightarrow> int \<Rightarrow> string \<Rightarrow> int \<times> int \<times> string" where
  "leading_fraction over x scale [] = (x, scale, [])"
| "leading_fraction over x scale (c # cs) =
     (if \<not> is_digit c then (x, scale, c # cs)
      else if over \<or> x > (2 ^ 63 - 1) div 10 \<or> 10 * x + digit_val c > 2 ^ 63 then leading_fraction True x scale cs
      else leading_fraction over (10 * x + digit_val c) (10 * scale) cs)"

definition invalid_duration :: "string \<Rightarrow> string" where
  "invalid_duration orig = ''time: invalid duration '' @ quoted orig"

text \<open>
  One number with its unit. Go multiplies the fraction in floating point; the model takes the whole part of the
  exact product, which is the same for every fraction that is exact in the unit.
\<close>

definition duration_step :: "string \<Rightarrow> string \<Rightarrow> (int \<times> string) result" where
  "duration_step orig s =
     (if \<not> (HasPrefix s ''.'' \<or> s \<noteq> [] \<and> is_digit (hd s)) then Inl (invalid_duration orig)
      else
        (case leading_int 0 s of
           None \<Rightarrow> Inl (invalid_duration orig)
         | Some (v, s1) \<Rightarrow>
             (let pre = length s \<noteq> length s1;
                  (f, scale, s2) = (if HasPrefix s1 ''.'' then leading_fraction False 0 1 (tl s1) else (0, 1, s1));
                  post = HasPrefix s1 ''.'' \<and> length (tl s1) \<noteq> length s2;
                  u = takeWhile (\<lambda>c. \<not> (c = CHR ''.'' \<or> is_digit c)) s2;
                  rest = dropWhile (\<lambda>c. \<not> (c = CHR ''.'' \<or> is_digit c)) s2
              in if \<not> pre \<and> \<not> post then Inl (invalid_duration orig)
                 else if u = [] then Inl (''time: missing unit in duration '' @ quoted orig)
                 else
                   (case map_of duration_units u of
                      None \<Rightarrow> Inl (''time: unknown unit '' @ quoted u @ '' in duration '' @ quoted orig)
                    | Some unit \<Rightarrow>
                        if v > 2 ^ 63 div unit then Inl (invalid_duration orig)
                        else
                          (let w = v * unit + (if f > 0 then f * unit div scale else 0) in
                           if w > 2 ^ 63 then Inl (invalid_duration orig) else Inr (w, rest))))))"

lemma leading_int_suffix: "leading_int x s = Some (v, s') \<Longrightarrow> length s' \<le> length s"
  by (induction x s rule: leading_int.induct) (auto split: if_splits)

lemma leading_fraction_suffix: "leading_fraction ov x sc s = (f, scale, s') \<Longrightarrow> length s' \<le> length s"
  by (induction ov x sc s rule: leading_fraction.induct) (auto split: if_splits)

lemma duration_step_shorter:
  assumes "duration_step orig s = Inr (w, rest)"
  shows "length rest < length s"
proof -
  obtain v s1 where 1: "leading_int 0 s = Some (v, s1)"
    using assms by (auto simp: duration_step_def split: if_splits option.splits)
  obtain f scale s2 where 2: "(if HasPrefix s1 ''.'' then leading_fraction False 0 1 (tl s1) else (0, 1, s1)) = (f, scale, s2)"
    by (cases "if HasPrefix s1 ''.'' then leading_fraction False 0 1 (tl s1) else (0, 1, s1)") auto
  have len: "length s2 \<le> length s"
    using leading_int_suffix [OF 1] leading_fraction_suffix [of False 0 1 "tl s1" f scale s2] 2 by (auto split: if_splits)
  let ?P = "\<lambda>c. \<not> (c = CHR ''.'' \<or> is_digit c)"
  have "takeWhile ?P s2 \<noteq> [] \<and> rest = dropWhile ?P s2"
    using assms 1 2 by (auto simp: duration_step_def Let_def split: if_splits option.splits)
  then have "length rest < length s2"
    by (metis length_append length_greater_0_conv less_add_same_cancel2 takeWhile_dropWhile_id)
  then show ?thesis using len by simp
qed

function duration_loop :: "string \<Rightarrow> int \<Rightarrow> string \<Rightarrow> int result" where
  "duration_loop orig d s =
     (if s = [] then Inr d
      else
        (case duration_step orig s of
           Inl e \<Rightarrow> Inl e
         | Inr (v, rest) \<Rightarrow>
             if d + v > 2 ^ 63 then Inl (invalid_duration orig) else duration_loop orig (d + v) rest))"
  by pat_completeness auto

termination
  by (relation "measure (\<lambda>(orig, d, s). length s)") (auto simp: duration_step_shorter)

declare duration_loop.simps [simp del]

definition ParseDuration :: "string \<Rightarrow> int result" where
  "ParseDuration orig =
     (let neg = HasPrefix orig ''-'';
          s = (if neg \<or> HasPrefix orig ''+'' then tl orig else orig)
      in if s = ''0'' then Inr 0
         else if s = [] then Inl (invalid_duration orig)
         else
           bindE (duration_loop orig 0 s) (\<lambda>d.
             if neg then Inr (- d)
             else if d > 2 ^ 63 - 1 then Inl (invalid_duration orig)
             else Inr d))"

section \<open>The timeout\<close>

text \<open>
  What \<^verbatim>\<open>encoding/json\<close> stores in an \<^verbatim>\<open>any\<close>, as far as \<^verbatim>\<open>parseDuration\<close> tells values apart. A \<^verbatim>\<open>float64\<close> is given by
  the integer Go converts it to.
\<close>

datatype json_any = JNull | JString string | JFloat int | JNumber string | JOther

definition parseDuration :: "json_any \<Rightarrow> int result" where
  "parseDuration raw =
     (case raw of
        JNull \<Rightarrow> Inr 0
      | JString v \<Rightarrow>
          if v = [] then Inr 0
          else
            (case ParseDuration v of
               Inl e \<Rightarrow> Inl (''parse clone timeout '' @ quoted v @ '': '' @ e)
             | Inr d \<Rightarrow> Inr d)
      | JFloat n \<Rightarrow> Inr n
      | JNumber v \<Rightarrow>
          (case Atoi v of
             None \<Rightarrow> Inl (''parse clone timeout '' @ quoted v @ '': strconv.ParseInt: parsing '' @ quoted v)
           | Some n \<Rightarrow> Inr n)
      | JOther \<Rightarrow> Inl ''clone timeout must be a duration string or integer nanoseconds'')"

text \<open>The JSON library is an argument: the policy without its timeout and the timeout as it stands.\<close>

definition UnmarshalJSON :: "(string \<Rightarrow> (clone_policy \<times> json_any) result) \<Rightarrow> string \<Rightarrow> clone_policy result" where
  "UnmarshalJSON unmarshal data =
     bindE (unmarshal data) (\<lambda>(c, raw).
     bindE (parseDuration raw) (\<lambda>timeout. Inr (c\<lparr>cp_timeout := timeout\<rparr>)))"

section \<open>Durations as they are written\<close>

lemma leading_int_digits:
  "0 \<le> n \<Longrightarrow> n \<le> 2 ^ 63 \<Longrightarrow> leading_int 0 (pos_digits n @ r) = leading_int n r"
proof (induction n arbitrary: r rule: pos_digits.induct)
  case (1 n)
  show ?case
  proof (cases "n < 10")
    case True
    then show ?thesis using digit_char [of n] 1(2,3) by (subst pos_digits.simps) simp
  next
    case False
    have m: "0 \<le> n mod 10" "n mod 10 < 10" by simp_all
    have d: "0 \<le> n div 10" "n div 10 \<le> 2 ^ 63" "\<not> n div 10 > 2 ^ 63 div 10" "10 * (n div 10) + n mod 10 = n"
      using 1(3) False by auto
    have "leading_int 0 (pos_digits n @ r) = leading_int 0 (pos_digits (n div 10) @ (char_of (n mod 10 + 48) # r))"
      using False by (subst pos_digits.simps) simp
    also have "\<dots> = leading_int (n div 10) (char_of (n mod 10 + 48) # r)" by (rule 1(1) [OF False d(1,2)])
    also have "\<dots> = leading_int n r" using digit_char [OF m] d(3,4) 1(3) by simp
    finally show ?thesis .
  qed
qed

lemma leading_int_big: "2 ^ 63 < n \<Longrightarrow> leading_int 0 (pos_digits n @ r) = None"
proof (induction n arbitrary: r rule: pos_digits.induct)
  case (1 n)
  have big: "\<not> n < 10" using 1(2) by simp
  have m: "0 \<le> n mod 10" "n mod 10 < 10" "0 \<le> n div 10" "10 * (n div 10) + n mod 10 = n" using big by auto
  let ?c = "char_of (n mod 10 + 48)"
  have split: "leading_int 0 (pos_digits n @ r) = leading_int 0 (pos_digits (n div 10) @ (?c # r))"
    using big by (subst pos_digits.simps) simp
  show ?case
  proof (cases "2 ^ 63 < n div 10")
    case True
    then show ?thesis using 1(1) [OF big] split by simp
  next
    case False
    then have "leading_int 0 (pos_digits n @ r) = leading_int (n div 10) (?c # r)"
      using leading_int_digits [OF m(3)] split by simp
    then show ?thesis using digit_char [OF m(1,2)] m(4) 1(2) by simp
  qed
qed

lemma unit_facts:
  assumes "(u, k) \<in> set duration_units"
  shows "u \<noteq> []" and "\<not> is_digit (hd u)" and "\<not> HasPrefix u ''.''" and "takeWhile (\<lambda>c. \<not> (c = CHR ''.'' \<or> is_digit c)) u = u"
    and "map_of duration_units u = Some k" and "0 < k"
proof -
  have "list_all (\<lambda>(u, k). u \<noteq> [] \<and> \<not> is_digit (hd u) \<and> \<not> HasPrefix u ''.'' \<and>
      takeWhile (\<lambda>c. \<not> (c = CHR ''.'' \<or> is_digit c)) u = u \<and> map_of duration_units u = Some k \<and> 0 < k) duration_units"
    by code_simp
  then show "u \<noteq> []" "\<not> is_digit (hd u)" "\<not> HasPrefix u ''.''" "takeWhile (\<lambda>c. \<not> (c = CHR ''.'' \<or> is_digit c)) u = u"
    "map_of duration_units u = Some k" "0 < k"
    using assms by (auto simp: list_all_iff)
qed

lemma div_bound:
  assumes "0 < (k :: int)"
  shows "n > b div k \<longleftrightarrow> n * k > b"
proof -
  have "b = b div k * k + b mod k" "b mod k < k" "0 \<le> b mod k" using assms by simp_all
  then have low: "b div k * k \<le> b" and high: "b < (b div k + 1) * k" unfolding distrib_right by linarith+
  show ?thesis
  proof
    assume "n > b div k"
    then have "(b div k + 1) * k \<le> n * k" using assms by (intro mult_right_mono) simp_all
    then show "n * k > b" using high by simp
  next
    assume "n * k > b"
    then have "b div k * k < n * k" using low by simp
    then show "n > b div k" using assms mult_less_cancel_right_pos [of k "b div k" n] by simp
  qed
qed

lemma duration_step_unit:
  assumes "0 \<le> n" and u: "(u, k) \<in> set duration_units"
  shows "duration_step orig (pos_digits n @ u) = (if n * k \<le> 2 ^ 63 then Inr (n * k, []) else Inl (invalid_duration orig))"
proof -
  note uf = unit_facts [OF u]
  have hd: "pos_digits n \<noteq> []" "is_digit (hd (pos_digits n @ u))" using pos_digits_hd [OF assms(1)] by simp_all
  have drop: "dropWhile (\<lambda>c. \<not> (c = CHR ''.'' \<or> is_digit c)) u = []"
    using uf(4) by (metis append.right_neutral append_same_eq dropWhile_eq_Nil_conv set_takeWhileD)
  show ?thesis
  proof (cases "n \<le> 2 ^ 63")
    case True
    have "leading_int 0 (pos_digits n @ u) = Some (n, u)"
      using leading_int_digits [OF assms(1) True, of u] uf(1,2) by (cases u) simp_all
    moreover have "n > 2 ^ 63 div k \<longleftrightarrow> n * k > 2 ^ 63"
      by (rule div_bound [OF uf(6)])
    ultimately show ?thesis
      using hd uf drop by (simp add: duration_step_def Let_def del: takeWhile_eq_all_conv dropWhile_eq_Nil_conv)
  next
    case False
    have "n * 1 \<le> n * k" using uf(6) assms(1) by (intro mult_left_mono) simp_all
    then have "n * k > 2 ^ 63" using False by linarith
    then show ?thesis using leading_int_big [of n u] False hd by (simp add: duration_step_def)
  qed
qed

text \<open>
  C38. A duration written as a number and a unit is read back as it was meant, for every unit and every number
  of them that fits; and one that does not fit in 63 bits is refused, not wrapped around.
\<close>

theorem parseDuration_roundtrip:
  assumes "0 \<le> n" and "(u, k) \<in> set duration_units"
  shows "if n * k < 2 ^ 63 then parseDuration (JString (Itoa n @ u)) = Inr (n * k)
    else \<exists>e. parseDuration (JString (Itoa n @ u)) = Inl e"
proof -
  note uf = unit_facts [OF assms(2)]
  have digits: "pos_digits n \<noteq> []" "is_digit (hd (pos_digits n))" using pos_digits_hd [OF assms(1)] by simp_all
  define s where "s = pos_digits n @ u"
  have s: "Itoa n @ u = s" using assms(1) by (simp add: Itoa_def s_def)
  have sign: "\<not> is_digit CHR ''-''" "\<not> is_digit CHR ''+''" by code_simp+
  have hd: "s \<noteq> []" "is_digit (hd s)" "length s > 1" using digits uf(1) by (cases "pos_digits n"; cases u; simp add: s_def)+
  then have plain: "\<not> HasPrefix s ''-''" "\<not> HasPrefix s ''+''" "s \<noteq> ''0''" using sign by (cases s; auto)+
  have loop: "duration_loop s 0 s = (if n * k \<le> 2 ^ 63 then Inr (n * k) else Inl (invalid_duration s))"
    using duration_step_unit [OF assms, of s] hd(1)
    by (subst duration_loop.simps) (simp add: s_def [symmetric] duration_loop.simps [of s _ "[]"])
  show ?thesis
    unfolding s using plain hd(1) loop by (auto simp: parseDuration_def ParseDuration_def Let_def)
qed

theorem parseDuration_roundtrip_witness:
  "parseDuration (JString ''30s'') = Inr 30000000000"
proof -
  have "(''s'', 1000000000) \<in> set duration_units" by (simp add: duration_units_def)
  moreover have "Itoa 30 @ ''s'' = ''30s''" by code_simp
  ultimately show ?thesis using parseDuration_roundtrip [of 30 "''s''" 1000000000] by simp
qed

end
