(* ===== verification/Webhook.thy ===== *)
theory Webhook
  imports NodeGate
begin

text \<open>
  \<^verbatim>\<open>cmd/admission-webhook/main.go\<close>: the validating webhook that sees a pod before it is scheduled. It applies the
  same policies to the same attributes as the node plugin does when it mounts the pod's volumes; the two
  theorems say what it decides, and that its decision is the node's. Decoding JSON is an argument.
\<close>

section \<open>Data\<close>

record csi_volume =
  cv_driver :: string
  cv_read_only :: bool
  cv_attributes :: gomap

text \<open>The volumes of a pod, in order; those that are not CSI volumes carry nothing.\<close>

type_synonym pod = "csi_volume option list"

record admission_request =
  ar_uid :: string
  ar_namespace :: string
  ar_object :: string

record admission_response =
  as_uid :: string
  as_allowed :: bool
  as_message :: string

record evaluator =
  ev_regex :: regex_engine
  ev_policies :: "git_content_policy list"

section \<open>The handler\<close>

definition admission_getenv :: "string list \<Rightarrow> string \<Rightarrow> string \<Rightarrow> string" where
  "admission_getenv environ name fallback = (let v = Getenv environ name in if v = [] then fallback else v)"

definition allow :: "string \<Rightarrow> admission_response" where
  "allow uid = \<lparr>as_uid = uid, as_allowed = True, as_message = []\<rparr>"

definition deny :: "string \<Rightarrow> string \<Rightarrow> admission_response" where
  "deny uid msg = \<lparr>as_uid = uid, as_allowed = False, as_message = msg\<rparr>"

definition webhook_driver :: string where
  "webhook_driver = ''gitcontent.csi.example.io''"

text \<open>One volume of the driver: the message it is denied with, if it is.\<close>

definition check_volume :: "evaluator \<Rightarrow> string \<Rightarrow> csi_volume \<Rightarrow> string option" where
  "check_volume ev namespace v =
     (if \<not> cv_read_only v then Some ''git content volume must be readOnly''
      else
        (case Parse (cv_attributes v) of
           Inl e \<Rightarrow> Some e
         | Inr attrs \<Rightarrow>
             (let res = fst (Evaluate (ev_regex ev) (ev_policies ev)
                          \<lparr>rq_namespace = namespace, rq_repo = at_repo attrs, rq_revision = at_revision attrs,
                           rq_path = at_path attrs, rq_depth = at_depth attrs, rq_submodules = at_submodules attrs,
                           rq_lfs = at_lfs attrs, rq_credential_profile = at_credential_profile attrs\<rparr>
                          (at_policy attrs))
              in if \<not> res_allowed res then Some (res_denial_reason res) else None)))"

fun check_volumes :: "evaluator \<Rightarrow> string \<Rightarrow> pod \<Rightarrow> string option" where
  "check_volumes ev namespace [] = None"
| "check_volumes ev namespace (None # vs) = check_volumes ev namespace vs"
| "check_volumes ev namespace (Some v # vs) =
     (if cv_driver v \<noteq> webhook_driver then check_volumes ev namespace vs
      else
        (case check_volume ev namespace v of
           Some msg \<Rightarrow> Some msg
         | None \<Rightarrow> check_volumes ev namespace vs))"

definition validate ::
  "(string \<Rightarrow> admission_request option result) \<Rightarrow> (string \<Rightarrow> pod result) \<Rightarrow> evaluator \<Rightarrow> string
     \<Rightarrow> admission_response" where
  "validate decode unmarshal ev body =
     (case decode body of
        Inl e \<Rightarrow> deny [] ''invalid admission review''
      | Inr None \<Rightarrow> deny [] ''missing request''
      | Inr (Some req) \<Rightarrow>
          (case unmarshal (ar_object req) of
             Inl e \<Rightarrow> deny (ar_uid req) ''invalid pod object''
           | Inr pod \<Rightarrow>
               (case check_volumes ev (ar_namespace req) pod of
                  Some msg \<Rightarrow> deny (ar_uid req) msg
                | None \<Rightarrow> allow (ar_uid req))))"

text \<open>What \<^verbatim>\<open>main\<close> sets up before it listens; an error is a panic.\<close>

definition start_webhook ::
  "(string \<Rightarrow> string result) \<Rightarrow> (string \<Rightarrow> git_content_policy list result) \<Rightarrow> regex_engine \<Rightarrow> string list
     \<Rightarrow> (string \<times> evaluator) result" where
  "start_webhook read_file unmarshal regex environ =
     (let policyPath = admission_getenv environ ''GITCONTENT_POLICY_FILE'' ''./examples/policies.yaml'';
          addr = admission_getenv environ ''GITCONTENT_ADMISSION_ADDR'' '':8443''
      in bindE (LoadPolicies read_file unmarshal policyPath) (\<lambda>policies.
           Inr (addr, \<lparr>ev_regex = regex, ev_policies = policies\<rparr>)))"

section \<open>What the webhook decides\<close>

text \<open>A volume the policies of an evaluator allow in a namespace.\<close>

definition allowed_attributes :: "regex_engine \<Rightarrow> git_content_policy list \<Rightarrow> string \<Rightarrow> gomap \<Rightarrow> bool" where
  "allowed_attributes rx ps namespace raw \<longleftrightarrow>
     (case Parse raw of
        Inl e \<Rightarrow> False
      | Inr a \<Rightarrow> res_allowed (fst (Evaluate rx ps (mount_request namespace a) (at_policy a))))"

lemma check_volume_None:
  "check_volume ev ns v = None \<longleftrightarrow>
     cv_read_only v \<and> allowed_attributes (ev_regex ev) (ev_policies ev) ns (cv_attributes v)"
  by (simp add: check_volume_def allowed_attributes_def mount_request_def Let_def split: sum.split)

definition driver_volumes :: "pod \<Rightarrow> csi_volume list" where
  "driver_volumes pod = filter (\<lambda>v. cv_driver v = driverName) (List.map_filter id pod)"

lemma webhook_driver_name: "webhook_driver = driverName"
  by (simp add: webhook_driver_def driverName_def)

lemma driver_volumes_simps [simp]:
  "driver_volumes [] = []" "driver_volumes (None # vs) = driver_volumes vs"
  "driver_volumes (Some v # vs) = (if cv_driver v = driverName then v # driver_volumes vs else driver_volumes vs)"
  by (simp_all add: driver_volumes_def map_filter_simps)

text \<open>The loop stops at the first volume of the driver that is denied.\<close>

lemma check_volumes_first:
  "check_volumes ev ns pod =
     (case filter (\<lambda>v. check_volume ev ns v \<noteq> None) (driver_volumes pod) of
        [] \<Rightarrow> None
      | v # vs \<Rightarrow> check_volume ev ns v)"
  by (induction ev ns pod rule: check_volumes.induct) (auto simp: webhook_driver_name split: option.split)

lemma check_volumes_None:
  "check_volumes ev ns pod = None \<longleftrightarrow> (\<forall>v \<in> set (driver_volumes pod). check_volume ev ns v = None)"
  by (induction ev ns pod rule: check_volumes.induct) (auto simp: webhook_driver_name split: option.split)

text \<open>
  C20. What the webhook decides. A review that cannot be read is denied. Otherwise the answer carries the UID of the
  request, and the pod is admitted exactly when each of its volumes of this driver is read-only, has
  attributes that parse, and is allowed by the policies in the pod's namespace; a denial gives the reason of
  the first volume that is not.
\<close>

theorem validate_decision:
  "validate decode unmarshal ev body =
     (case decode body of
        Inr (Some req) \<Rightarrow>
          (case unmarshal (ar_object req) of
             Inr pod \<Rightarrow>
               (case filter (\<lambda>v. \<not> (cv_read_only v
                     \<and> allowed_attributes (ev_regex ev) (ev_policies ev) (ar_namespace req) (cv_attributes v)))
                   (driver_volumes pod) of
                  [] \<Rightarrow> allow (ar_uid req)
                | v # vs \<Rightarrow> deny (ar_uid req) (the (check_volume ev (ar_namespace req) v)))
           | Inl e \<Rightarrow> deny (ar_uid req) ''invalid pod object'')
      | Inr None \<Rightarrow> deny [] ''missing request''
      | Inl e \<Rightarrow> deny [] ''invalid admission review'')"
proof -
  have "(case check_volumes ev ns pod of Some msg \<Rightarrow> deny uid msg | None \<Rightarrow> allow uid) =
      (case filter (\<lambda>v. check_volume ev ns v \<noteq> None) (driver_volumes pod) of
         [] \<Rightarrow> allow uid | v # vs \<Rightarrow> deny uid (the (check_volume ev ns v)))" for ns pod uid
    by (auto simp: check_volumes_first split: list.split dest: filter_eq_ConsD)
  then show ?thesis
    by (simp add: validate_def check_volume_None [symmetric] split: sum.split option.split)
qed

section \<open>The webhook and the node agree\<close>

text \<open>A publication of a volume: a request the node accepts as well-formed, whose context has the attributes of
  the volume, with the keys the kubelet adds, and names the pod's namespace.\<close>

definition publishes :: "string \<Rightarrow> csi_volume \<Rightarrow> publish_request \<Rightarrow> bool" where
  "publishes ns v req \<longleftrightarrow>
     publish_well_formed req \<and> pod_namespace (pv_context req) = ns
     \<and> pv_context req |` attribute_keys = cv_attributes v |` attribute_keys"

definition node_refuses :: "pipeline \<Rightarrow> ctx \<Rightarrow> publish_request \<Rightarrow> sys \<Rightarrow> bool" where
  "node_refuses pl ctx req s \<longleftrightarrow>
     (case fst (NodePublishVolume pl ctx req s) of
        Inl (code, msg) \<Rightarrow> code = InvalidArgument \<or> code = PermissionDenied
      | Inr _ \<Rightarrow> False)"

lemma node_refuses_iff:
  assumes "publish_well_formed req"
  shows "node_refuses pl ctx req s \<longleftrightarrow>
    \<not> allowed_attributes (pl_regex pl) (pl_policies pl) (pod_namespace (pv_context req)) (pv_context req)"
proof -
  let ?m = "materialize pl ctx (pod_namespace (pv_context req)) [] (pv_context req) s"
  have run: "NodePublishVolume pl ctx req s =
    (case ?m of
       (Inl e, s1) \<Rightarrow> (Inl (csiError e), s1)
     | (Inr res, s1) \<Rightarrow>
         (case onW (publishReadOnly (mo_source res) (pv_target_path req)) s1 of
            (Inl e, s2) \<Rightarrow> (Inl (Internal, ''publish readonly bind mount: '' @ err_text e), s2)
          | (Inr _, s2) \<Rightarrow> (Inr (), s2)))"
    using assms by (simp add: NodePublishVolume_def publish_well_formed_def)
  obtain r s1 where m: "?m = (r, s1)" by fastforce
  show ?thesis
  proof (cases r)
    case (Inl e)
    have "node_refuses pl ctx req s \<longleftrightarrow> fst (csiError e) = InvalidArgument \<or> fst (csiError e) = PermissionDenied"
      using run m Inl by (simp add: node_refuses_def split: prod.split)
    then show ?thesis
      using materialize_error [OF m [unfolded Inl]]
      by (auto simp: csiError_def badRequest_def forbidden_def allowed_attributes_def decision_def)
  next
    case (Inr res)
    then have "\<not> node_refuses pl ctx req s"
      using run m by (auto simp: node_refuses_def split: prod.split sum.split)
    moreover have "allowed_attributes (pl_regex pl) (pl_policies pl) (pod_namespace (pv_context req)) (pv_context req)"
      using mount_allowed [OF m] Inr by (auto simp: allowed_attributes_def decision_def)
    ultimately show ?thesis by simp
  qed
qed

lemma publishes_refused:
  assumes "publishes ns v req"
  shows "node_refuses pl ctx req s \<longleftrightarrow> \<not> allowed_attributes (pl_regex pl) (pl_policies pl) ns (cv_attributes v)"
proof -
  have "Parse (pv_context req) = Parse (cv_attributes v)"
    using assms Parse_keys unfolding publishes_def by metis
  then show ?thesis
    using assms node_refuses_iff [of req pl ctx s] by (simp add: publishes_def allowed_attributes_def)
qed

lemma publication_exists:
  assumes "ns \<noteq> []"
  shows "\<exists>req. publishes ns v req"
proof -
  let ?key = "''csi.storage.k8s.io/pod.namespace''"
  let ?req = "\<lparr>pv_volume_id = ''v'', pv_target_path = ''/t'', pv_mount_capability = True, pv_readonly = True,
      pv_context = (cv_attributes v)(?key \<mapsto> ns)\<rparr>"
  have "?key \<notin> attribute_keys" by (simp add: attribute_keys_def)
  then have "publishes ns v ?req"
    using assms by (simp add: publishes_def publish_well_formed_def pod_namespace_def mget_def)
  then show ?thesis by blast
qed

text \<open>
  C21. The webhook and the node agree. With the same policies, a pod is admitted exactly when all its volumes of this
  driver are read-only and the node refuses none of their publications, whatever its state: an admitted
  volume never fails at the node as invalid or not permitted, and a read-only volume that the webhook denies
  could not have been mounted either.
\<close>

theorem admission_agrees_with_node:
  assumes "decode body = Inr (Some req)" and "unmarshal (ar_object req) = Inr pod" and "ar_namespace req \<noteq> []"
    and "pl_policies pl = ev_policies ev" and "pl_regex pl = ev_regex ev"
  shows "as_allowed (validate decode unmarshal ev body) =
    (\<forall>v \<in> set (driver_volumes pod). cv_read_only v
       \<and> (\<forall>pub ctx s. publishes (ar_namespace req) v pub \<longrightarrow> \<not> node_refuses pl ctx pub s))"
proof -
  have "as_allowed (validate decode unmarshal ev body) = (check_volumes ev (ar_namespace req) pod = None)"
    using assms(1,2) by (simp add: validate_def allow_def deny_def split: option.split)
  also have "\<dots> = (\<forall>v \<in> set (driver_volumes pod). cv_read_only v
      \<and> allowed_attributes (ev_regex ev) (ev_policies ev) (ar_namespace req) (cv_attributes v))"
    by (simp add: check_volumes_None check_volume_None)
  finally have admitted: "as_allowed (validate decode unmarshal ev body) = \<dots>" .
  have "allowed_attributes (ev_regex ev) (ev_policies ev) (ar_namespace req) (cv_attributes v)
      = (\<forall>pub ctx s. publishes (ar_namespace req) v pub \<longrightarrow> \<not> node_refuses pl ctx pub s)" for v
    using publishes_refused [of "ar_namespace req" v _ pl] publication_exists [OF assms(3), of v] assms(4,5) by metis
  then show ?thesis by (simp add: admitted)
qed

text \<open>A pod of the namespace \<^verbatim>\<open>web\<close> with a volume of another kind and one of this driver.\<close>

definition example_pod :: pod where
  "example_pod = [None, Some \<lparr>cv_driver = driverName, cv_read_only = True, cv_attributes = example_raw\<rparr>]"

definition example_evaluator :: evaluator where
  "example_evaluator = \<lparr>ev_regex = no_regex, ev_policies = [applyPolicyDefaults example_policy]\<rparr>"

definition example_review :: "string \<Rightarrow> admission_request option result" where
  "example_review body = Inr (Some \<lparr>ar_uid = ''1'', ar_namespace = ''web'', ar_object = body\<rparr>)"

theorem admission_agrees_with_node_witness:
  "validate example_review (\<lambda>_. Inr example_pod) example_evaluator [] = allow ''1''
   \<and> (\<exists>pub. publishes ''web'' \<lparr>cv_driver = driverName, cv_read_only = True, cv_attributes = example_raw\<rparr> pub
        \<and> \<not> node_refuses (example_pipeline offline) no_ctx pub node)"
proof -
  let ?v = "\<lparr>cv_driver = driverName, cv_read_only = True, cv_attributes = example_raw\<rparr>"
  have "res_allowed (fst (Evaluate no_regex [applyPolicyDefaults example_policy] (mount_request ''web'' example_attributes)
      (at_policy example_attributes)))"
    using example_decision [of offline] by (simp add: decision_def example_pipeline_def)
  then have "check_volume example_evaluator ''web'' ?v = None"
    by (simp add: check_volume_None allowed_attributes_def Parse_example example_evaluator_def)
  then have ok: "validate example_review (\<lambda>_. Inr example_pod) example_evaluator [] = allow ''1''"
    by (simp add: validate_def example_review_def example_pod_def webhook_driver_name)
  have "pl_policies (example_pipeline offline) = ev_policies example_evaluator"
    "pl_regex (example_pipeline offline) = ev_regex example_evaluator"
    by (simp_all add: example_pipeline_def example_evaluator_def)
  note agree = admission_agrees_with_node [where decode = example_review and unmarshal = "\<lambda>_. Inr example_pod" and body = "[]"
      and ev = example_evaluator and pl = "example_pipeline offline", OF _ refl _ this]
  have "publishes ''web'' ?v pub \<longrightarrow> \<not> node_refuses (example_pipeline offline) no_ctx pub node" for pub
    using agree [of "\<lparr>ar_uid = ''1'', ar_namespace = ''web'', ar_object = []\<rparr>"] ok
    by (simp add: example_review_def allow_def example_pod_def)
  then show ?thesis using ok publication_exists [of "''web''" ?v] by blast
qed

end
