(* ===== verification/Walks.thy ===== *)
theory Walks
  imports GoGitSpec Publish Eviction
begin

text \<open>
  The five traversals of the driver: copying, counting, measuring, changing modes and changing owners. Each is an
  interpretation of \<open>walker\<close>; here are the last one and what they have in common, that they end.
\<close>

section \<open>How a walk ends\<close>

context walker
begin

lemma WalkDir_ends:
  assumes "inv {} s" and "look (wd s) root \<noteq> None"
  obtains s' where "WalkDir wd f (abs_path root) s = (WOk, s')" and "inv (visited root) s'"
  | e s' where "WalkDir wd f (abs_path root) s = (WErr e, s')" and "bad e s'"
  using WalkDir_outcome [OF assms] that
  by (cases "WalkDir wd f (abs_path root) s") (auto simp: outcome_def split: walk_result.splits)

end

section \<open>Changing owners\<close>

definition chown_inv :: "world \<Rightarrow> int \<Rightarrow> int \<Rightarrow> string list set \<Rightarrow> world \<Rightarrow> bool" where
  "chown_inv w0 uid gid X w \<longleftrightarrow>
     wf_world w0 \<and> w = w0\<lparr>w_owner := \<lambda>x. if x \<in> X then (uid, gid) else w_owner w0 x\<rparr>"

lemma look_owner [simp]: "look (w\<lparr>w_owner := f\<rparr>) = look w"
  by (simp add: fun_eq_iff look_def)

lemma wf_owner [simp]: "wf_world (w\<lparr>w_owner := f\<rparr>) = wf_world w"
  by (rule same_files(2)) simp

lemma Lchown_abs:
  "wf_world w \<Longrightarrow> look w p = Some e \<Longrightarrow> Lchown (abs_path p) uid gid w = (Inr (), w\<lparr>w_owner := (w_owner w)(p := (uid, gid))\<rparr>)"
  using resolve_abs [of w p False] wf_reach [of w p] by (simp add: Lchown_def)

lemma chown_visit_step:
  assumes inv: "chown_inv w0 uid gid X w" and p: "shape_of w0 p = Some d" "p \<notin> X"
  shows "\<exists>w'. chown_visit uid gid (abs_path p) (Some d) None w = (WOk, w') \<and> chown_inv w0 uid gid (insert p X) w'"
proof -
  obtain e where e: "look w p = Some e" using p(1) inv by (auto simp: shape_of_def chown_inv_def)
  have wf: "wf_world w" using inv by (simp add: chown_inv_def)
  have "chown_inv w0 uid gid (insert p X) (w\<lparr>w_owner := (w_owner w)(p := (uid, gid))\<rparr>)"
    using inv by (simp add: chown_inv_def fun_upd_def) (simp add: fun_eq_iff)
  then show ?thesis using Lchown_abs [OF wf e] by (simp add: chown_visit_def to_walk_def)
qed

interpretation chown: walker id "chown_visit uid gid" S "shape_of w0" "\<lambda>_. False" "chown_inv w0 uid gid" "\<lambda>_ _. False"
  for S w0 uid gid
proof (unfold_locales, goal_cases)
  case (2 X w p)
  then show ?case by (simp add: chown_inv_def shape_of_def)
next
  case (3 X s p d s')
  then show ?case using chown_visit_step [OF 3(1,3,4)] by auto
next
  case (4 X s p d s')
  then show ?case using chown_visit_step [OF 4(1,3,4)] by auto
next
  case (5 X s p d e s')
  then show ?case using chown_visit_step [OF 5(1,3,4)] by auto
next
  case (6 p d s s')
  show ?case by (simp add: chown_visit_def)
qed (auto simp: chown_inv_def)

text \<open>
  Changing the owner of a tree succeeds when its root exists: every entry at or below the root has the new owner,
  every other entry keeps its own, and nothing else of the file system is different.
\<close>

theorem chownTree_spec:
  assumes "wf_world w" and "look w S \<noteq> None"
  shows "chownTree (abs_path S) uid gid w =
    (Inr (), w\<lparr>w_owner := \<lambda>x. if prefix S x \<and> look w x \<noteq> None then (uid, gid) else w_owner w x\<rparr>)"
proof -
  have "chown_inv w uid gid {} w" using assms(1) by (simp add: chown_inv_def)
  then obtain w' where run: "WalkDir id (chown_visit uid gid) (abs_path S) w = (WOk, w')" and inv: "chown_inv w uid gid (chown.visited w S) w'"
    using chown.WalkDir_ends [of w uid gid w S] assms(2) by auto
  have "x \<in> chown.visited w S \<longleftrightarrow> prefix S x \<and> look w x \<noteq> None" for x by (simp add: chown.visited_def shape_of_def)
  then show ?thesis using run inv by (simp add: chownTree_def walk_action_def chown_inv_def)
qed

section \<open>The traversals end\<close>

text \<open>
  C40. The traversals of the driver end. From an entry of a well-formed file system the walks that count, measure, and change modes
  and owners return without an error and never run out of steps. A copy, which reads directories while it makes
  others, returns as well and fails only for a link it refuses, provided that it starts as both its callers start it
  (\<open>copy_ready\<close>): they have removed the destination, it lies below a directory, and neither tree contains the other. A copy into its own source
  would not end.
\<close>

theorem traversals_end:
  assumes "wf_world w" and "look w S \<noteq> None"
  shows "(\<exists>s. WalkDir fst count_visit (abs_path S) (w, 0, 0) = (WOk, s))
    \<and> (\<exists>s. WalkDir fst info_visit (abs_path S) (w, \<lparr>it_path = path, it_size = 0, it_mod = t\<rparr>) = (WOk, s))
    \<and> (\<exists>w'. WalkDir id chmod_visit (abs_path S) w = (WOk, w'))
    \<and> (\<exists>w'. WalkDir id (chown_visit uid gid) (abs_path S) w = (WOk, w'))
    \<and> (copy_ready w S D \<longrightarrow> (\<exists>w'. WalkDir id (copy_visit (abs_path S) (abs_path D)) (abs_path S) w = (WOk, w'))
         \<or> (\<exists>e w'. WalkDir id (copy_visit (abs_path S) (abs_path D)) (abs_path S) w = (WErr e, w') \<and> \<not> links_ok w S))"
proof (intro conjI impI)
  have inv: "count_inv w {} (w, 0, 0)" "info_inv w t path {} (w, \<lparr>it_path = path, it_size = 0, it_mod = t\<rparr>)"
    "chmod_inv w {} w" "chown_inv w uid gid {} w"
    using assms(1) by (simp_all add: count_inv_def info_inv_def chmod_inv_def chown_inv_def total_size_def)
  show "\<exists>s. WalkDir fst count_visit (abs_path S) (w, 0, 0) = (WOk, s)"
    by (rule count.WalkDir_ends [OF inv(1)]) (use assms(2) in auto)
  show "\<exists>s. WalkDir fst info_visit (abs_path S) (w, \<lparr>it_path = path, it_size = 0, it_mod = t\<rparr>) = (WOk, s)"
    by (rule info.WalkDir_ends [OF inv(2)]) (use assms(2) in auto)
  show "\<exists>w'. WalkDir id chmod_visit (abs_path S) w = (WOk, w')"
    by (rule chmod.WalkDir_ends [OF inv(3)]) (use assms(2) in auto)
  show "\<exists>w'. WalkDir id (chown_visit uid gid) (abs_path S) w = (WOk, w')"
    by (rule chown.WalkDir_ends [OF inv(4)]) (use assms(2) in auto)
  assume "copy_ready w S D"
  note start = copy_inv_start [OF this]
  show "(\<exists>w'. WalkDir id (copy_visit (abs_path S) (abs_path D)) (abs_path S) w = (WOk, w'))
         \<or> (\<exists>e w'. WalkDir id (copy_visit (abs_path S) (abs_path D)) (abs_path S) w = (WErr e, w') \<and> \<not> links_ok w S)"
    by (rule copy.WalkDir_ends [OF start]) (use assms(2) in \<open>auto simp: copy_bad_def\<close>)
qed

text \<open>The example tree and its copy.\<close>

theorem traversals_end_witness:
  "(\<exists>s. WalkDir fst count_visit ''/w/repo'' (example_world, 0, 0) = (WOk, s))
   \<and> (\<exists>w'. WalkDir id (chown_visit 10 20) ''/w/repo'' example_world = (WOk, w'))"
proof -
  have "wf_world example_world" "look example_world [''w'', ''repo''] \<noteq> None"
    using example_ready by (auto simp: copy_ready_def is_dir_iff)
  moreover have "abs_path [''w'', ''repo''] = ''/w/repo''" by code_simp
  ultimately show ?thesis using traversals_end [of example_world "[''w'', ''repo'']" "[]" 0 10 20 "[]"] by simp
qed

theorem chownTree_spec_witness:
  "fst (chownTree ''/w/repo'' 10 20 example_world) = Inr ()
   \<and> w_owner (snd (chownTree ''/w/repo'' 10 20 example_world)) [''w'', ''repo'', ''run.sh''] = (10, 20)"
proof -
  have "wf_world example_world" "look example_world [''w'', ''repo''] \<noteq> None"
    using example_ready by (auto simp: copy_ready_def is_dir_iff)
  moreover have "abs_path [''w'', ''repo''] = ''/w/repo''" "look example_world [''w'', ''repo'', ''run.sh''] \<noteq> None" by code_simp+
  ultimately show ?thesis using chownTree_spec [of example_world "[''w'', ''repo'']" 10 20] by simp
qed

end
