(* ===== verification/NodeMount.thy ===== *)
theory NodeMount
  imports GoGitSpec NodeGate
begin

text \<open>
  A mount from end to end: the pipeline over a backend that keeps the contract \<open>backend\<close>, with the metadata,
  the eviction and the publication that follow. The lemmas are proved once in the locale, for both backends.
\<close>

section \<open>The cache directory\<close>

abbreviation cache_root :: "config \<Rightarrow> string list" where
  "cache_root cfg \<equiv> clean_comps (c_root cfg)"

text \<open>A cache root that is a directory, with nothing but directories in it.\<close>

definition cache_ok :: "config \<Rightarrow> world \<Rightarrow> bool" where
  "cache_ok cfg w \<longleftrightarrow>
     wf_world w \<and> IsAbs (c_root cfg) \<and> Clean (c_root cfg) = c_root cfg \<and> is_dir w (cache_root cfg)
     \<and> (\<forall>n. look w (cache_root cfg @ [n]) \<noteq> None \<longrightarrow> is_dir w (cache_root cfg @ [n]))"

text \<open>What may have changed inside the cache only.\<close>

definition only_cache :: "config \<Rightarrow> world \<Rightarrow> world \<Rightarrow> bool" where
  "only_cache cfg w w' \<longleftrightarrow>
     cache_ok cfg w' \<and> w_umask w' = w_umask w \<and> (\<forall>x. \<not> strict_prefix (cache_root cfg) x \<longrightarrow> look w' x = look w x)"

lemma only_cache_refl: "cache_ok cfg w \<Longrightarrow> only_cache cfg w w"
  by (simp add: only_cache_def)

lemma only_cache_trans: "only_cache cfg w w1 \<Longrightarrow> only_cache cfg w1 w2 \<Longrightarrow> only_cache cfg w w2"
  by (simp add: only_cache_def)

definition entry_key :: "attributes \<Rightarrow> string \<Rightarrow> string" where
  "entry_key a profile = Key (mount_parts (at_repo a) (at_revision a) (at_path a) (at_submodules a) (at_lfs a) profile)"

definition entry_dir :: "config \<Rightarrow> attributes \<Rightarrow> string \<Rightarrow> string list" where
  "entry_dir cfg a profile = cache_root cfg @ [entry_key a profile]"

lemma entry_key_ok: "name_ok (entry_key a profile)"
  by (simp add: entry_key_def Key_name_ok)

lemma cache_path_abs:
  assumes "cache_ok cfg w"
  shows "list_all name_ok (entry_dir cfg a profile)" and "cache_path cfg a profile = abs_path (entry_dir cfg a profile)"
    and "clean_comps (cache_path cfg a profile) = entry_dir cfg a profile"
proof -
  have R: "list_all name_ok (cache_root cfg)" "c_root cfg = abs_path (cache_root cfg)"
    using assms wf_names [of w "cache_root cfg"] Clean_abs_path [of "c_root cfg"] by (auto simp: cache_ok_def is_dir_iff)
  then show names: "list_all name_ok (entry_dir cfg a profile)" by (simp add: entry_dir_def entry_key_ok)
  show path: "cache_path cfg a profile = abs_path (entry_dir cfg a profile)"
    using Join_abs [of "cache_root cfg" "entry_key a profile"] names R(2)
    by (simp add: cache_path_def PathForKey_def entry_dir_def entry_key_def)
  show "clean_comps (cache_path cfg a profile) = entry_dir cfg a profile" using clean_comps_abs [OF names] path by simp
qed

lemma cache_work_ready:
  assumes "cache_ok cfg w"
  shows "work_ready w (cache_path cfg a profile)"
proof -
  note p = cache_path_abs [OF assms, of a profile]
  have "Clean (abs_path (entry_dir cfg a profile)) = abs_path (entry_dir cfg a profile)" by (rule Clean_abs [OF p(1)])
  then show ?thesis
    using assms p clean_comps_abs [OF p(1)] by (auto simp: work_ready_def cache_ok_def entry_dir_def)
qed

lemma content_of_cache:
  "cache_ok cfg w \<Longrightarrow> content_dir (cache_path cfg a profile) = entry_dir cfg a profile @ [''content'']"
  using cache_path_abs(3) by (simp add: content_dir_def)

text \<open>A backend working in the directory of an entry stays in the cache, and so does an eviction.\<close>

lemma changed_only_cache:
  assumes "cache_ok cfg (sy_world s)" and "changed_below (cache_path cfg a profile) s s'"
  shows "only_cache cfg (sy_world s) (sy_world s')"
proof -
  let ?E = "entry_dir cfg a profile"
  have frame: "look (sy_world s') x = look (sy_world s) x" if "\<not> prefix ?E x" for x
    using assms that by (simp add: changed_below_def cache_path_abs(3))
  have E: "is_dir (sy_world s') ?E" using assms by (simp add: changed_below_def cache_path_abs(3))
  have "is_dir (sy_world s') (cache_root cfg @ [n])" if "look (sy_world s') (cache_root cfg @ [n]) \<noteq> None" for n
  proof (cases "n = entry_key a profile")
    case True
    then show ?thesis using E by (simp add: entry_dir_def)
  next
    case False
    then have "\<not> prefix ?E (cache_root cfg @ [n])" by (simp add: entry_dir_def)
    then show ?thesis using frame assms(1) that by (simp add: cache_ok_def is_dir_iff)
  qed
  moreover have "\<not> prefix ?E (cache_root cfg)" by (auto simp: entry_dir_def dest: prefix_length_le)
  moreover have "\<not> prefix ?E x" if "\<not> strict_prefix (cache_root cfg) x" for x
    using that prefix_order.le_less_trans [of "cache_root cfg" ?E x]
    by (metis append_prefixD entry_dir_def not_Cons_self2 prefix_def prefix_order.le_less same_append_eq self_append_conv)
  ultimately show ?thesis
    using assms frame by (simp add: only_cache_def cache_ok_def changed_below_def is_dir_iff)
qed

lemma removed_only_cache:
  assumes "cache_ok cfg w" and "removed w (cache_root cfg) G w'"
  shows "only_cache cfg w w'"
proof -
  have frame: "look w' x = look w x" if "\<not> strict_prefix (cache_root cfg) x" for x
  proof -
    have "\<not> prefix (cache_root cfg @ [n]) x" for n using that by (auto simp: prefix_def strict_prefix_def)
    then show ?thesis using assms(2) by (simp add: removed_def)
  qed
  have "look w' (cache_root cfg @ [n]) = (if n \<in> G then None else look w (cache_root cfg @ [n]))" for n
    using assms(2) by (auto simp: removed_def)
  then show ?thesis
    using assms frame by (auto simp: only_cache_def cache_ok_def removed_def is_dir_iff strict_prefix_def split: if_splits)
qed

section \<open>The volume of a mount\<close>

text \<open>Content with the metadata on top, and what the publication makes of it.\<close>

definition overlay :: "perm \<Rightarrow> string \<Rightarrow> inputs \<Rightarrow> (string list \<Rightarrow> entry option) \<Rightarrow> string list \<Rightarrow> entry option" where
  "overlay um stamp inp c q =
     (if q = [''.gitcontent''] then Some (EDir (and meta_dir_perm (not um)))
      else if q \<noteq> [] \<and> butlast q = [''.gitcontent''] \<and> map_of (meta_fields stamp inp) (last q) \<noteq> None
      then map_option (meta_entry um) (map_of (meta_fields stamp inp) (last q))
      else c q)"

definition served :: "perm \<Rightarrow> (string list \<Rightarrow> entry option) \<Rightarrow> string list \<Rightarrow> entry option" where
  "served um c q =
     (if ''.git'' \<in> set q then None else map_option readonly_entry (Option.bind (c q) (copied_entry um)))"

lemma published_served: "published w S = served (w_umask w) (\<lambda>q. look w (S @ q))"
  by (simp add: fun_eq_iff published_def exported_def served_def)

text \<open>The content of the mount whose backend left the world \<open>w\<close>.\<close>

definition volume_of :: "pipeline \<Rightarrow> attributes \<Rightarrow> git_content_policy \<Rightarrow> string \<Rightarrow> mat_result \<Rightarrow> world \<Rightarrow> string list \<Rightarrow> entry option" where
  "volume_of pl a pol profile mr w =
     overlay (w_umask w) (mount_stamp w) (mount_inputs a pol profile mr)
       (\<lambda>q. look w (content_dir (cache_path (pl_cache pl) a profile) @ q))"

definition lawful :: "pipeline \<Rightarrow> bool" where
  "lawful pl \<longleftrightarrow> (\<forall>its. mset (pl_sort pl its) = mset its) \<and> (\<forall>xs. mset (pl_iter pl xs) = mset xs)"

lemma no_butlast:
  assumes "ys \<noteq> []"
  shows "butlast xs \<noteq> xs @ ys"
proof
  assume "butlast xs = xs @ ys"
  then have "length xs - 1 = length xs + length ys" by (metis length_append length_butlast)
  moreover have "0 < length ys" using assms by simp
  ultimately show False by linarith
qed

lemma Write_volume:
  assumes lawful: "lawful pl" and ok: "cache_ok (pl_cache pl) w" and mat: "materialized pol (cache_path (pl_cache pl) a profile) mr w"
    and own: "look w (content_dir (cache_path (pl_cache pl) a profile) @ [''.gitcontent'']) = None"
  obtains w' where "Write (pl_iter pl) (mr_mounted_path mr) (mount_inputs a pol profile mr) w = (Inr (), w')"
    and "only_cache (pl_cache pl) w w'" and "is_dir w' (entry_dir (pl_cache pl) a profile)" and "w_clock w' = w_clock w"
    and "\<And>q. look w' (content_dir (cache_path (pl_cache pl) a profile) @ q) = volume_of pl a pol profile mr w q"
proof -
  let ?cfg = "pl_cache pl" and ?C = "content_dir (cache_path (pl_cache pl) a profile)" and ?inp = "mount_inputs a pol profile mr"
  let ?E = "entry_dir ?cfg a profile"
  have C: "?C = ?E @ [''content'']" by (rule content_of_cache [OF ok])
  have m: "wf_world w" "mr_mounted_path mr = abs_path ?C" "is_dir w ?C" using mat by (simp_all add: materialized_def)
  have "list_all name_ok ?C" using wf_names [OF m(1), of ?C] m(3) by (auto simp: is_dir_iff)
  then have path: "IsAbs (mr_mounted_path mr)" "?C = clean_comps (mr_mounted_path mr)"
    using clean_comps_abs [of ?C] m(2) by simp_all
  obtain w' where w': "Write (pl_iter pl) (mr_mounted_path mr) ?inp w = (Inr (), w')" "wf_world w'" "w_umask w' = w_umask w" "w_clock w' = w_clock w"
    and look': "\<And>x. look w' x =
         (if x = ?C @ [''.gitcontent''] then Some (EDir (and meta_dir_perm (not (w_umask w))))
          else if x \<noteq> [] \<and> butlast x = ?C @ [''.gitcontent''] \<and> map_of (meta_fields (mount_stamp w) ?inp) (last x) \<noteq> None
          then map_option (meta_entry (w_umask w)) (map_of (meta_fields (mount_stamp w) ?inp) (last x)) else look w x)"
    using Write_steps [of "pl_iter pl", OF _ path m(1) m(3) own, of ?inp] lawful unfolding lawful_def by blast
  have vol: "look w' (?C @ q) = volume_of pl a pol profile mr w q" for q
    unfolding look' volume_of_def overlay_def using no_butlast [of "[''.gitcontent'']" ?C] by (cases "q = []") (auto simp: butlast_append)
  have frame: "look w' x = look w x" if "\<not> strict_prefix ?E x" for x
  proof -
    have "strict_prefix ?E x" if "x \<noteq> []" "butlast x = ?C @ [''.gitcontent'']"
    proof -
      have "x = ?E @ ''content'' # [''.gitcontent'', last x]" using append_butlast_last_id [OF that(1)] that(2) by (simp add: C)
      then show ?thesis by (rule strict_prefixI')
    qed
    moreover have "strict_prefix ?E (?C @ [''.gitcontent''])" by (simp add: C strict_prefix_def)
    ultimately have "x \<noteq> ?C @ [''.gitcontent'']" "\<not> (x \<noteq> [] \<and> butlast x = ?C @ [''.gitcontent''])"
      using that by blast+
    then show ?thesis unfolding look' by auto
  qed
  have E: "is_dir w ?E" using wf_parent [OF m(1), of ?C] m(3) by (auto simp: C is_dir_iff)
  then have E': "is_dir w' ?E" using frame [of ?E] by (simp add: is_dir_iff)
  have "\<not> strict_prefix ?E (cache_root ?cfg @ [n])" for n
    using prefix_length_less [of ?E "cache_root ?cfg @ [n]"] by (auto simp: entry_dir_def)
  then have entries: "look w' (cache_root ?cfg @ [n]) = look w (cache_root ?cfg @ [n])" for n using frame by blast
  have root: "\<not> strict_prefix ?E x" if "\<not> strict_prefix (cache_root ?cfg) x" for x
    using that strict_below [of "cache_root ?cfg" ?E x] by (auto simp: entry_dir_def)
  have "only_cache ?cfg w w'"
    using ok w' frame root entries by (simp add: only_cache_def cache_ok_def is_dir_iff)
  then show ?thesis by (rule that [OF w'(1) _ E' w'(4) vol])
qed

lemma cache_ok_ticks [simp]: "cache_ok cfg (w\<lparr>w_ticks := n\<rparr>) = cache_ok cfg w"
  by (simp add: cache_ok_def is_dir_iff)

lemma only_cache_ticks [simp]:
  "only_cache cfg w (w'\<lparr>w_ticks := n\<rparr>) = only_cache cfg w w'" "only_cache cfg (w\<lparr>w_ticks := n\<rparr>) w' = only_cache cfg w w'"
  by (simp_all add: only_cache_def)

lemma tick_world: "sy_world (tick s) = (sy_world s)\<lparr>w_ticks := Suc (w_ticks (sy_world s))\<rparr>"
  by (simp add: tick_def)

text \<open>The cache has room for what the mount leaves in it.\<close>

definition room_after :: "pipeline \<Rightarrow> attributes \<Rightarrow> git_content_policy \<Rightarrow> string \<Rightarrow> mat_result \<Rightarrow> world \<Rightarrow> bool" where
  "room_after pl a pol profile mr w \<longleftrightarrow>
     mono (w_clock w) \<and> 0 \<le> c_max_age (pl_cache pl)
     \<and> cache_roomy (pl_cache pl) (snd (Write (pl_iter pl) (mr_mounted_path mr) (mount_inputs a pol profile mr) w))"

text \<open>The entry holds something older than the maximal age when the mount is done with it.\<close>

definition stale_after :: "pipeline \<Rightarrow> attributes \<Rightarrow> git_content_policy \<Rightarrow> string \<Rightarrow> mat_result \<Rightarrow> world \<Rightarrow> bool" where
  "stale_after pl a pol profile mr w \<longleftrightarrow>
     \<not> fresh (pl_cache pl) (snd (Write (pl_iter pl) (mr_mounted_path mr) (mount_inputs a pol profile mr) w))
         (entry_dir (pl_cache pl) a profile)"

lemma finish_mount_volume:
  assumes "lawful pl" and "cache_ok (pl_cache pl) (sy_world s)"
    and "materialized pol (cache_path (pl_cache pl) a profile) mr (sy_world s)"
    and "look (sy_world s) (content_dir (cache_path (pl_cache pl) a profile) @ [''.gitcontent'']) = None"
    and run: "finish_mount pl ns [] a pol profile start mr s = (r, s')"
  shows "only_cache (pl_cache pl) (sy_world s) (sy_world s')
    \<and> r = Inr \<lparr>mo_resolved = mr_resolved mr, mo_policy = p_name pol, mo_source = mr_mounted_path mr\<rparr>
    \<and> (look (sy_world s') (entry_dir (pl_cache pl) a profile) \<noteq> None \<longrightarrow>
         (\<forall>q. look (sy_world s') (content_dir (cache_path (pl_cache pl) a profile) @ q) = volume_of pl a pol profile mr (sy_world s) q))
    \<and> (room_after pl a pol profile mr (sy_world s) \<longrightarrow> look (sy_world s') (entry_dir (pl_cache pl) a profile) \<noteq> None)
    \<and> (stale_after pl a pol profile mr (sy_world s) \<longrightarrow> look (sy_world s') (entry_dir (pl_cache pl) a profile) = None)"
proof -
  let ?cfg = "pl_cache pl" and ?C = "content_dir (cache_path (pl_cache pl) a profile)" and ?E = "entry_dir (pl_cache pl) a profile"
  obtain w1 where wr: "Write (pl_iter pl) (mr_mounted_path mr) (mount_inputs a pol profile mr) (sy_world s) = (Inr (), w1)"
    and c1: "only_cache ?cfg (sy_world s) w1" and dirE: "is_dir w1 ?E" and clk: "w_clock w1 = w_clock (sy_world s)"
    and vol: "\<And>q. look w1 (?C @ q) = volume_of pl a pol profile mr (sy_world s) q"
    by (rule Write_volume [OF assms(1-4)]) (rule that)
  have ok1: "cache_ok ?cfg w1" using c1 by (simp add: only_cache_def)
  have ev: "wf_world w1" "IsAbs (c_root ?cfg)" "Clean (c_root ?cfg) = c_root ?cfg" "is_dir w1 (cache_root ?cfg)"
    "\<And>its. mset (pl_sort pl its) = mset its"
    using ok1 assms(1) by (simp_all add: cache_ok_def lawful_def)
  obtain w2 G where ev2: "Evict (pl_sort pl) ?cfg w1 = (Inr (), w2)" and rem: "removed w1 (cache_root ?cfg) G w2"
    and old: "{n \<in> cache_dirs w1 (cache_root ?cfg). \<not> fresh ?cfg w1 (cache_root ?cfg @ [n])} \<subseteq> G"
    by (rule Evict_removes [OF ev]) (rule that)
  have c2: "only_cache ?cfg w1 w2" by (rule removed_only_cache [OF ok1 rem])
  have fin: "r = Inr \<lparr>mo_resolved = mr_resolved mr, mo_policy = p_name pol, mo_source = mr_mounted_path mr\<rparr>
      \<and> (\<exists>n. sy_world s' = w2\<lparr>w_ticks := n\<rparr>)"
    using run wr ev2
    by (auto simp: finish_mount_def bindW_def plainly_def meter_eq onW_def link_target_def ret_def ignoring_def
        observe_mount_eq tick_world)
  have "look w2 (?C @ q) = look w1 (?C @ q)" if "look w2 ?E \<noteq> None" for q
  proof (rule removed_keeps(1) [OF rem])
    show "entry_key a profile \<notin> G" using that rem by (auto simp: removed_def entry_dir_def)
    show "prefix (cache_root ?cfg @ [entry_key a profile]) (?C @ q)"
      using content_of_cache [OF assms(2), of a profile] by (simp add: entry_dir_def)
  qed
  moreover have "look w2 ?E \<noteq> None" if "room_after pl a pol profile mr (sy_world s)"
  proof -
    have "mono (w_clock w1)" "0 \<le> c_max_age ?cfg" "cache_roomy ?cfg w1" using that wr clk by (simp_all add: room_after_def)
    from Evict_idle [OF ev this ev2] show ?thesis using dirE by (auto simp: is_dir_iff)
  qed
  moreover have "look w2 ?E = None" if "stale_after pl a pol profile mr (sy_world s)"
  proof -
    have "entry_key a profile \<in> G" using that wr old dirE by (auto simp: stale_after_def entry_dir_def cache_dirs_def)
    then show ?thesis using rem by (auto simp: removed_def entry_dir_def)
  qed
  ultimately show ?thesis using fin vol only_cache_trans [OF c1 c2] by auto
qed

section \<open>The pipeline over a backend\<close>

definition entry_run :: "pipeline \<Rightarrow> ctx \<Rightarrow> attributes \<Rightarrow> git_content_policy \<Rightarrow> string \<Rightarrow> sys \<Rightarrow> (err + mat_result) \<times> sys" where
  "entry_run pl ctx a pol profile s =
     pl_mat pl (mount_ctx ctx pol (tick s)) a pol (cache_path (pl_cache pl) a profile) (looked_up pl a profile (tick s))"

text \<open>
  A request the backend is ready for: should it be allowed, the conditions of the backend hold, and the content
  has no entry of its own where the metadata goes.
\<close>

definition mount_ready ::
  "pipeline \<Rightarrow> (attributes \<Rightarrow> string \<Rightarrow> world \<Rightarrow> bool) \<Rightarrow> ctx \<Rightarrow> string \<Rightarrow> gomap \<Rightarrow> sys \<Rightarrow> bool" where
  "mount_ready pl ok ctx ns raw s \<longleftrightarrow>
     (\<forall>a res pol. Parse raw = Inr a \<longrightarrow> decision pl ns a = (res, pol) \<longrightarrow> res_allowed res \<longrightarrow>
        ok a (cache_path (pl_cache pl) a (res_resolved_profile res)) (sy_world (tick (tick s)))
        \<and> (\<forall>mr s1. entry_run pl ctx a pol (res_resolved_profile res) s = (Inr mr, s1) \<longrightarrow>
             look (sy_world s1) (content_dir (cache_path (pl_cache pl) a (res_resolved_profile res)) @ [''.gitcontent'']) = None))"

text \<open>What a successful mount stands for: the request was allowed, the backend delivered its content, and if the entry
  is still there, the content directory holds the content with the metadata.\<close>

definition mounted :: "pipeline \<Rightarrow> ctx \<Rightarrow> string \<Rightarrow> gomap \<Rightarrow> sys \<Rightarrow> attributes \<Rightarrow> git_content_policy \<Rightarrow> string \<Rightarrow> mat_result \<Rightarrow> sys \<Rightarrow> bool" where
  "mounted pl ctx ns raw s a pol profile mr s1 \<longleftrightarrow>
     Parse raw = Inr a \<and> (\<exists>res. decision pl ns a = (res, pol) \<and> res_allowed res \<and> profile = res_resolved_profile res)
     \<and> entry_run pl ctx a pol profile s = (Inr mr, s1)
     \<and> materialized pol (cache_path (pl_cache pl) a profile) mr (sy_world s1)"

lemma failed_mount_world:
  "failed_mount c ns pol start e s = (r, s') \<Longrightarrow> \<exists>n. sy_world s' = (sy_world s)\<lparr>w_ticks := n\<rparr> \<and> (\<exists>e. r = Inl e)"
  by (auto simp: failed_mount_def bindW_def plainly_def now_eq observe_mount_eq fail_def tick_world split: if_splits)

context backend
begin

text \<open>A request either fails before anything but the cache has changed, or is mounted and finished.\<close>

lemma materialize_cases:
  assumes pl: "pl_mat pl = mat e" and ok: "cache_ok (pl_cache pl) (sy_world s)"
    and ready: "mount_ready pl (env_ok e) ctx ns raw s" and run: "materialize pl ctx ns tgt raw s = (r, s')"
  obtains (failed) err where "r = Inl err" and "only_cache (pl_cache pl) (sy_world s) (sy_world s')"
      and "\<And>a pol profile mr s1. \<not> mounted pl ctx ns raw s a pol profile mr s1"
  | (finished) a pol profile mr s1 where "mounted pl ctx ns raw s a pol profile mr s1"
      and "only_cache (pl_cache pl) (sy_world s) (sy_world s1)"
      and "look (sy_world s1) (content_dir (cache_path (pl_cache pl) a profile) @ [''.gitcontent'']) = None"
      and "finish_mount pl ns tgt a pol profile (clock s) mr s1 = (r, s')"
proof (cases "Parse raw")
  case (Inl t)
  show ?thesis
  proof (rule failed)
    show "r = Inl (badRequest (Plain t))" "only_cache (pl_cache pl) (sy_world s) (sy_world s')"
      using run ok Inl by (auto simp: materialize_parse_error tick_world only_cache_refl)
    show "\<not> mounted pl ctx ns raw s a pol profile mr s1" for a pol profile mr s1 using Inl by (simp add: mounted_def)
  qed
next
  case (Inr a)
  note Inr' = this
  obtain res pol where d: "decision pl ns a = (res, pol)" by fastforce
  show ?thesis
  proof (cases "res_allowed res")
    case False
    have run2: "(Inl (forbidden (Plain (res_denial_reason res))), denied_state ns pol res s) = (r, s')" using run materialize_denied [OF Inr d False] by simp
    show ?thesis
    proof (rule failed)
      show "r = Inl (forbidden (Plain (res_denial_reason res)))" "only_cache (pl_cache pl) (sy_world s) (sy_world s')"
        using run2 ok by (auto simp: denied_state_def tick_world only_cache_refl)
      show "\<not> mounted pl ctx ns raw s a' pol' profile mr s1" for a' pol' profile mr s1
        using Inr d False by (auto simp: mounted_def)
    qed
  next
    case True
    let ?pr = "res_resolved_profile res" and ?cfg = "pl_cache pl"
    let ?W = "cache_path ?cfg a ?pr" and ?s0 = "looked_up pl a ?pr (tick s)"
    have run2: "run_mount pl ctx ns tgt a pol ?pr (clock s) (tick s) = (r, s')"
      using run unfolding materialize_allowed [OF Inr d True] .
    have w0: "sy_world ?s0 = sy_world (tick (tick s))" by simp
    then have ok0: "cache_ok ?cfg (sy_world ?s0)" using ok by (simp add: tick_world)
    have env: "env_ok e a ?W (sy_world ?s0)" using ready Inr d True unfolding mount_ready_def w0 by blast
    obtain r1 s1 where er: "entry_run pl ctx a pol ?pr s = (r1, s1)" by fastforce
    then have mt: "mat e (mount_ctx ctx pol (tick s)) a pol ?W ?s0 = (r1, s1)" by (simp add: entry_run_def pl)
    have only1: "only_cache ?cfg (sy_world s) (sy_world s1)"
      using changed_only_cache [OF ok0 mat_changes [OF env cache_work_ready [OF ok0] mt]] unfolding w0 by (simp add: tick_world)
    show ?thesis
    proof (cases r1)
      case (Inl err)
      then have "failed_mount (mount_ctx ctx pol (tick s)) ns pol (clock s) err s1 = (r, s')"
        using run2 mt by (simp add: run_mount_eq pl)
      from failed_mount_world [OF this] obtain n err' where fin: "sy_world s' = (sy_world s1)\<lparr>w_ticks := n\<rparr>" "r = Inl err'" by blast
      show ?thesis
      proof (rule failed [OF fin(2)])
        show "only_cache ?cfg (sy_world s) (sy_world s')" using only1 fin(1) by simp
        show "\<not> mounted pl ctx ns raw s a' pol' profile mr s2" for a' pol' profile mr s2
          using er Inl Inr' d by (auto simp: mounted_def)
      qed
    next
      case r1: (Inr mr)
      have content: "materialized pol ?W mr (sy_world s1)"
        by (rule mat_content [OF env cache_work_ready [OF ok0] mt [unfolded r1]])
      have own: "look (sy_world s1) (content_dir ?W @ [''.gitcontent'']) = None"
        using ready Inr d True er r1 unfolding mount_ready_def by blast
      have "finish_mount pl ns tgt a pol ?pr (clock s) mr s1 = (r, s')" using run2 mt r1 by (simp add: run_mount_eq pl)
      moreover have "mounted pl ctx ns raw s a pol ?pr mr s1" using Inr d True er r1 content by (auto simp: mounted_def)
      ultimately show ?thesis using finished only1 own by blast
    qed
  qed
qed

lemma materialize_volume:
  assumes pl: "pl_mat pl = mat e" "lawful pl" and ok: "cache_ok (pl_cache pl) (sy_world s)"
    and ready: "mount_ready pl (env_ok e) ctx ns raw s" and run: "materialize pl ctx ns [] raw s = (r, s')"
  shows "only_cache (pl_cache pl) (sy_world s) (sy_world s')
    \<and> ((\<exists>err. r = Inl err) \<and> (\<forall>a pol profile mr s1. \<not> mounted pl ctx ns raw s a pol profile mr s1)
       \<or> (\<exists>res a pol profile mr s1. r = Inr res \<and> mounted pl ctx ns raw s a pol profile mr s1
            \<and> mo_source res = abs_path (content_dir (cache_path (pl_cache pl) a profile))
            \<and> look (sy_world s1) (content_dir (cache_path (pl_cache pl) a profile) @ [''.gitcontent'']) = None
            \<and> (look (sy_world s') (entry_dir (pl_cache pl) a profile) \<noteq> None \<longrightarrow>
                 (\<forall>q. look (sy_world s') (content_dir (cache_path (pl_cache pl) a profile) @ q)
                    = volume_of pl a pol profile mr (sy_world s1) q))
            \<and> (room_after pl a pol profile mr (sy_world s1) \<longrightarrow> look (sy_world s') (entry_dir (pl_cache pl) a profile) \<noteq> None)
            \<and> (stale_after pl a pol profile mr (sy_world s1) \<longrightarrow> look (sy_world s') (entry_dir (pl_cache pl) a profile) = None)))"
proof (cases rule: materialize_cases [OF pl(1) ok ready run])
  case (1 err)
  then show ?thesis by blast
next
  case (2 a pol profile mr s1)
  have content: "materialized pol (cache_path (pl_cache pl) a profile) mr (sy_world s1)" using 2(1) by (simp add: mounted_def)
  have ok1: "cache_ok (pl_cache pl) (sy_world s1)" using 2(2) by (simp add: only_cache_def)
  note out = finish_mount_volume [OF pl(2) ok1 content 2(3,4)]
  moreover have "mr_mounted_path mr = abs_path (content_dir (cache_path (pl_cache pl) a profile))" using content by (simp add: materialized_def)
  ultimately show ?thesis using 2(1,3) only_cache_trans [OF 2(2)] by fastforce
qed

end

section \<open>Publishing the volume\<close>

text \<open>A target the kubelet names: an absolute clean path away from the cache whose parent is a directory.\<close>

definition target_ok :: "config \<Rightarrow> world \<Rightarrow> string \<Rightarrow> bool" where
  "target_ok cfg w target \<longleftrightarrow>
     IsAbs target \<and> Clean target = target \<and> clean_comps target \<noteq> [] \<and> list_all name_ok (clean_comps target)
     \<and> is_dir w (butlast (clean_comps target)) \<and> apart (clean_comps target) (cache_root cfg)"

lemma target_stays:
  assumes "target_ok cfg w target" and "only_cache cfg w w'"
  shows "target_ok cfg w' target"
proof -
  let ?T = "clean_comps target"
  have "\<not> strict_prefix (cache_root cfg) (butlast ?T)"
    using assms(1) prefixeq_butlast [of ?T] by (auto simp: target_ok_def apart_def strict_prefix_def dest: prefix_order.trans)
  then show ?thesis using assms by (simp add: target_ok_def only_cache_def is_dir_iff)
qed

lemma target_not_cache: "target_ok cfg w target \<Longrightarrow> prefix (clean_comps target) x \<Longrightarrow> \<not> prefix (cache_root cfg) x"
  using prefix_same_cases by (auto simp: target_ok_def apart_def)

text \<open>A source that was evicted cannot be published; the target is gone then.\<close>

lemma Lstat_stuck:
  assumes "wf_world w" and "open_path w p" and "look w p = None"
  shows "\<exists>e. Lstat (abs_path p) w = Inl e"
proof -
  have p: "list_all name_ok p" using assms(2) by (simp add: open_path_def)
  then have "path_elems (abs_path p) = p" "IsAbs (abs_path p)"
    using clean_comps_abs [OF p] name_ok_elems [OF p] by (simp_all add: path_elems_path_string)
  then have "resolve False (abs_path p) w \<noteq> Found q e" for q e
    using namei_stuck [OF assms(1), of "[]" p False max_symlinks q e] assms(2,3) wf_root [OF assms(1)]
    by (simp add: resolve_def)
  then show ?thesis by (cases "resolve False (abs_path p) w") (auto simp: Lstat_def)
qed

lemma publish_evicted:
  assumes "wf_world w" and "open_path w S" and "look w S = None" and "\<not> prefix (clean_comps target) S"
    and target: "IsAbs target" "Clean target = target" "reach w (clean_comps target)" "clean_comps target \<noteq> []"
    and run: "publishReadOnly (abs_path S) target w = (r, w')"
  shows "(\<exists>e. r = Inl e) \<and> wf_world w' \<and> w_umask w' = w_umask w
    \<and> (\<forall>x. look w' x = (if prefix (clean_comps target) x then None else look w x))"
proof -
  let ?T = "clean_comps target"
  have abs: "target = abs_path ?T" using Clean_abs_path [OF target(1)] target(2) by simp
  obtain w1 where rm: "RemoveAll target w = (Inr (), w1)" and w1: "wf_world w1" "w_umask w1 = w_umask w"
    and look1: "\<And>x. look w1 x = (if prefix ?T x then None else look w x)"
    using RemoveAll_abs [OF assms(1) target(3,4)] abs by metis
  have "open_path w1 S" using assms(2) look1 by (auto simp: open_path_def is_dir_iff)
  moreover have "look w1 S = None" using assms(3) look1 by simp
  ultimately obtain e where e: "Lstat (abs_path S) w1 = Inl e" using Lstat_stuck [OF w1(1)] by blast
  have S: "Clean (abs_path S) = abs_path S" using assms(2) by (intro Clean_abs) (simp add: open_path_def)
  have "CopyContentTree (abs_path S) target w1 = (Inl e, w1)"
    by (simp add: CopyContentTree_def WalkDir_def S e copy_visit_def walk_action_def)
  then have "r = Inl e \<and> w' = w1" using run rm by (simp add: publishReadOnly_def bindW_def)
  then show ?thesis using w1 look1 by simp
qed

lemma served_nodes: "served um c q = Some e \<Longrightarrow> \<not> writable e \<and> ''.git'' \<notin> set q \<and> kind_of e \<noteq> KSpecial"
proof -
  assume s: "served um c q = Some e"
  have dir: "and readonly_bits 146 = (0 :: perm)" using readonly_mask [of "-1"] by simp
  obtain e0 e1 where e: "c q = Some e0" "copied_entry um e0 = Some e1" "e = readonly_entry e1" "''.git'' \<notin> set q"
    using s by (auto simp: served_def bind_eq_Some_conv split: if_splits)
  then show ?thesis by (cases e0) (auto simp: writable_def readonly_mask dir)
qed

text \<open>The publication of what a mount left at its entry.\<close>

lemma publish_entry:
  assumes ok: "cache_ok cfg w" and target: "target_ok cfg w target"
    and content: "look w (entry_dir cfg a profile) \<noteq> None \<Longrightarrow> is_dir w (content_dir (cache_path cfg a profile))"
    and run: "publishReadOnly (abs_path (content_dir (cache_path cfg a profile))) target w = (r, w')"
  shows "cache_ok cfg w' \<and> w_umask w' = w_umask w
    \<and> (\<forall>x. \<not> prefix (clean_comps target) x \<longrightarrow> look w' x = look w x)
    \<and> (r = Inr () \<longleftrightarrow> look w (entry_dir cfg a profile) \<noteq> None \<and> links_ok w (content_dir (cache_path cfg a profile)))
    \<and> (r = Inr () \<longrightarrow> (\<forall>q. look w' (clean_comps target @ q)
         = served (w_umask w) (\<lambda>q. look w (content_dir (cache_path cfg a profile) @ q)) q))"
proof -
  let ?T = "clean_comps target" and ?R = "cache_root cfg" and ?E = "entry_dir cfg a profile"
  let ?C = "content_dir (cache_path cfg a profile)"
  have C: "?C = ?E @ [''content'']" "?E = ?R @ [entry_key a profile]" by (simp_all add: content_of_cache [OF ok] entry_dir_def)
  have w: "wf_world w" "is_dir w ?R" using ok by (simp_all add: cache_ok_def)
  have t: "IsAbs target" "Clean target = target" "?T \<noteq> []" "list_all name_ok ?T" "is_dir w (butlast ?T)"
    using target by (simp_all add: target_ok_def)
  have "prefix ?R ?C" by (simp add: C)
  then have apart: "\<not> prefix ?T ?C" "\<not> prefix ?C ?T"
    using target_not_cache [OF target] target prefix_order.trans by (auto simp: target_ok_def apart_def)
  have names: "list_all name_ok ?C" using cache_path_abs(1) [OF ok] content_dir_name by (simp add: C(1))
  then have source: "IsAbs (abs_path ?C)" "clean_comps (abs_path ?C) = ?C" using clean_comps_abs by simp_all
  have cache: "cache_ok cfg w'" if "wf_world w'" "\<And>x. \<not> prefix ?T x \<Longrightarrow> look w' x = look w x"
  proof -
    have "look w' x = look w x" if "prefix ?R x" for x using that target_not_cache [OF target] \<open>\<And>x. \<not> prefix ?T x \<Longrightarrow> _\<close> by blast
    then show ?thesis using ok that(1) by (simp add: cache_ok_def is_dir_iff)
  qed
  show ?thesis
  proof (cases "look w ?E = None")
    case False
    then have "publish_ready w ?C ?T" using content t w apart by (simp add: publish_ready_def)
    from publishReadOnly_steps [OF source(1) t(1,2) _ run, unfolded source(2), OF this] show ?thesis
      using False cache by (simp add: published_served)
  next
    case True
    have none: "look w (?R @ r) = None" if "r \<noteq> []" "prefix r [entry_key a profile, ''content'']" for r
      using that True wf_missing [OF w(1) True, of "[''content'']"] by (auto simp: C(2) prefix_Cons)
    have "open_path w (?R @ [entry_key a profile, ''content''])"
      by (rule open_below [OF w]) (use none names C in auto)
    then have "open_path w ?C" "look w ?C = None" using none [of "[entry_key a profile, ''content'']"] by (simp_all add: C)
    moreover have "reach w ?T" using t by (simp add: reach_def)
    ultimately show ?thesis
      using publish_evicted [OF w(1) _ _ apart(1) t(1,2) _ t(3) run] True cache by auto
  qed
qed

lemma mounted_unique:
  "mounted pl ctx ns raw s a pol profile mr s1 \<Longrightarrow> mounted pl ctx ns raw s a' pol' profile' mr' s1' \<Longrightarrow>
     a' = a \<and> pol' = pol \<and> profile' = profile \<and> mr' = mr \<and> s1' = s1"
  by (auto simp: mounted_def)

text \<open>The metadata adds no links.\<close>

lemma volume_links:
  assumes "wf_world w" and "C = content_dir (cache_path (pl_cache pl) a profile)" and "look w (C @ [''.gitcontent'']) = None"
    and "\<And>q. look w' (C @ q) = volume_of pl a pol profile mr w q"
  shows "links_ok w' C = links_ok w C"
proof -
  have "volume_of pl a pol profile mr w q = Some (ELink t) \<longleftrightarrow> look w (C @ q) = Some (ELink t)" for q t
  proof (cases "prefix [''.gitcontent''] q")
    case True
    then obtain r where "q = ''.gitcontent'' # r" by (auto simp: prefix_def)
    then have "look w (C @ q) = None" using wf_missing [OF assms(1,3), of r] by simp
    then show ?thesis by (auto simp: volume_of_def overlay_def assms(2) meta_entry_def)
  next
    case False
    then have "\<not> (q \<noteq> [] \<and> butlast q = [''.gitcontent''])" "q \<noteq> [''.gitcontent'']" using prefixeq_butlast [of q] by auto
    then show ?thesis by (auto simp: volume_of_def overlay_def assms(2))
  qed
  then show ?thesis using assms(4) by (simp add: links_ok_def)
qed

context backend
begin

lemma publish_volume:
  assumes pl: "pl_mat pl = mat e" "lawful pl" and ok: "cache_ok (pl_cache pl) (sy_world s)"
    and target: "target_ok (pl_cache pl) (sy_world s) (pv_target_path req)"
    and ready: "mount_ready pl (env_ok e) ctx (pod_namespace (pv_context req)) (pv_context req) s"
    and run: "NodePublishVolume pl ctx req s = (r, s')"
  shows "cache_ok (pl_cache pl) (sy_world s') \<and> w_umask (sy_world s') = w_umask (sy_world s)
    \<and> (\<forall>x. \<not> strict_prefix (cache_root (pl_cache pl)) x \<longrightarrow> \<not> prefix (clean_comps (pv_target_path req)) x \<longrightarrow>
         look (sy_world s') x = look (sy_world s) x)
    \<and> (r = Inr () \<longrightarrow> (\<exists>a pol profile mr s1.
         mounted pl ctx (pod_namespace (pv_context req)) (pv_context req) s a pol profile mr s1
         \<and> (\<forall>q. look (sy_world s') (clean_comps (pv_target_path req) @ q)
              = served (w_umask (sy_world s)) (volume_of pl a pol profile mr (sy_world s1)) q)))
    \<and> (\<forall>a pol profile mr s1. mounted pl ctx (pod_namespace (pv_context req)) (pv_context req) s a pol profile mr s1 \<longrightarrow>
         publish_well_formed req \<longrightarrow>
         (r = Inr ()) = (look (sy_world s') (entry_dir (pl_cache pl) a profile) \<noteq> None
            \<and> links_ok (sy_world s1) (content_dir (cache_path (pl_cache pl) a profile)))
         \<and> (room_after pl a pol profile mr (sy_world s1) \<longrightarrow> look (sy_world s') (entry_dir (pl_cache pl) a profile) \<noteq> None)
         \<and> (stale_after pl a pol profile mr (sy_world s1) \<longrightarrow> look (sy_world s') (entry_dir (pl_cache pl) a profile) = None)
         \<and> (r = Inr () \<or> (\<exists>msg. r = Inl (Internal, msg))))"
proof (cases "publish_well_formed req")
  case False
  then have "s' = s \<and> r \<noteq> Inr ()" using run by (auto simp: NodePublishVolume_def publish_well_formed_def split: if_splits)
  then show ?thesis using ok False by simp
next
  case True
  let ?ns = "pod_namespace (pv_context req)" and ?raw = "pv_context req" and ?cfg = "pl_cache pl"
  let ?T = "clean_comps (pv_target_path req)"
  obtain r1 s1 where m: "materialize pl ctx ?ns [] ?raw s = (r1, s1)" by fastforce
  have call: "(r, s') = (case r1 of
       Inl err \<Rightarrow> (Inl (csiError err), s1)
     | Inr res \<Rightarrow>
         (case onW (publishReadOnly (mo_source res) (pv_target_path req)) s1 of
            (Inl err, s2) \<Rightarrow> (Inl (Internal, ''publish readonly bind mount: '' @ err_text err), s2)
          | (Inr _, s2) \<Rightarrow> (Inr (), s2)))"
    unfolding run [symmetric] using True m by (cases r1) (simp_all add: NodePublishVolume_def publish_well_formed_def)
  note mat = materialize_volume [OF pl ok ready m]
  have only: "only_cache ?cfg (sy_world s) (sy_world s1)" using mat by blast
  show ?thesis
  proof (cases r1)
    case (Inl err)
    then have none: "\<not> mounted pl ctx ?ns ?raw s a pol profile mr s2" for a pol profile mr s2 using mat by auto
    show ?thesis using call Inl only none by (simp add: only_cache_def)
  next
    case (Inr res)
    obtain a pol profile mr s0 where mo: "mounted pl ctx ?ns ?raw s a pol profile mr s0"
      and src: "mo_source res = abs_path (content_dir (cache_path ?cfg a profile))"
      and own: "look (sy_world s0) (content_dir (cache_path ?cfg a profile) @ [''.gitcontent'']) = None"
      and vol': "look (sy_world s1) (entry_dir ?cfg a profile) \<noteq> None \<longrightarrow> (\<forall>q.
        look (sy_world s1) (content_dir (cache_path ?cfg a profile) @ q) = volume_of pl a pol profile mr (sy_world s0) q)"
      and room: "room_after pl a pol profile mr (sy_world s0) \<longrightarrow> look (sy_world s1) (entry_dir ?cfg a profile) \<noteq> None"
      and stale: "stale_after pl a pol profile mr (sy_world s0) \<longrightarrow> look (sy_world s1) (entry_dir ?cfg a profile) = None"
      using mat Inr by blast
    note vol = vol' [rule_format]
    let ?C = "content_dir (cache_path ?cfg a profile)" and ?E = "entry_dir ?cfg a profile"
    have content: "wf_world (sy_world s0)" "is_dir (sy_world s0) ?C" using mo by (simp_all add: mounted_def materialized_def)
    have ok1: "cache_ok ?cfg (sy_world s1)" using only by (simp add: only_cache_def)
    have dir: "is_dir (sy_world s1) ?C" if "look (sy_world s1) ?E \<noteq> None"
      using vol [OF that, of "[]"] content(2) by (simp add: volume_of_def overlay_def is_dir_iff)
    obtain r2 w2 where pub: "publishReadOnly (abs_path ?C) (pv_target_path req) (sy_world s1) = (r2, w2)" by fastforce
    have t1: "target_ok ?cfg (sy_world s1) (pv_target_path req)" by (rule target_stays [OF target only])
    note out = publish_entry [OF ok1 t1 dir pub]
    have fin: "sy_world s' = w2" "(r = Inr ()) = (r2 = Inr ())" "r = Inr () \<or> (\<exists>msg. r = Inl (Internal, msg))"
      using call Inr src pub by (auto simp: onW_def split: sum.splits)
    have "\<not> prefix ?T ?E" using target_not_cache [OF t1, of ?E] by (auto simp: entry_dir_def)
    then have entry: "look w2 ?E = look (sy_world s1) ?E" using out by blast
    have links: "links_ok (sy_world s1) ?C = links_ok (sy_world s0) ?C" if "look (sy_world s1) ?E \<noteq> None"
      by (rule volume_links [OF content(1) refl own vol [OF that]])
    have frame: "look w2 x = look (sy_world s) x" if "\<not> strict_prefix (cache_root ?cfg) x" "\<not> prefix ?T x" for x
      using that out only by (simp add: only_cache_def)
    have um: "w_umask w2 = w_umask (sy_world s)" "w_umask (sy_world s1) = w_umask (sy_world s)" using out only by (simp_all add: only_cache_def)
    have live: "(r = Inr ()) = (look (sy_world s') ?E \<noteq> None \<and> links_ok (sy_world s0) ?C)"
      using out fin entry links by auto
    have content: "look (sy_world s') (?T @ q) = served (w_umask (sy_world s)) (volume_of pl a pol profile mr (sy_world s0)) q"
      if "r = Inr ()" for q
    proof -
      have "look (sy_world s1) ?E \<noteq> None" using that live entry fin by simp
      then have "(\<lambda>q. look (sy_world s1) (?C @ q)) = volume_of pl a pol profile mr (sy_world s0)" using vol by blast
      then show ?thesis using out that fin um by simp
    qed
    have unique: "(r = Inr ()) = (look (sy_world s') (entry_dir ?cfg a' profile') \<noteq> None
        \<and> links_ok (sy_world s2) (content_dir (cache_path ?cfg a' profile')))"
      "room_after pl a' pol' profile' mr' (sy_world s2) \<Longrightarrow> look (sy_world s') (entry_dir ?cfg a' profile') \<noteq> None"
      "stale_after pl a' pol' profile' mr' (sy_world s2) \<Longrightarrow> look (sy_world s') (entry_dir ?cfg a' profile') = None"
      if "mounted pl ctx ?ns ?raw s a' pol' profile' mr' s2" for a' pol' profile' mr' s2
      using live room stale entry mounted_unique [OF mo that] unfolding fin(1) by simp_all
    have kept: "cache_ok ?cfg (sy_world s')" "w_umask (sy_world s') = w_umask (sy_world s)"
      "\<And>x. \<not> strict_prefix (cache_root ?cfg) x \<Longrightarrow> \<not> prefix ?T x \<Longrightarrow> look (sy_world s') x = look (sy_world s) x"
      using out um frame unfolding fin(1) by blast+
    show ?thesis
    proof (intro conjI allI impI)
      assume "r = Inr ()"
      then show "\<exists>a pol profile mr s1. mounted pl ctx ?ns ?raw s a pol profile mr s1
          \<and> (\<forall>q. look (sy_world s') (?T @ q) = served (w_umask (sy_world s)) (volume_of pl a pol profile mr (sy_world s1)) q)"
        using mo content by blast
    qed (use kept unique fin(3) in blast)+
  qed
qed

lemmas publish_kept = publish_volume [THEN conjunct1]
lemmas publish_frame = publish_volume [THEN conjunct2, THEN conjunct2, THEN conjunct1, rule_format]
lemmas publish_content = publish_volume [THEN conjunct2, THEN conjunct2, THEN conjunct2, THEN conjunct1, rule_format]
lemmas publish_outcome = publish_volume [THEN conjunct2, THEN conjunct2, THEN conjunct2, THEN conjunct2, rule_format]

end

end
