(* ===== verification/Startup.thy ===== *)
theory Startup
  imports NodeMount
begin

text \<open>
  What \<^verbatim>\<open>cmd/nodeplugin/main.go\<close> does before it serves: the settings, the policies, the cache, the choice of the
  backend and the socket. The chosen backend keeps the contract \<open>backend\<close> whichever it is.
\<close>

section \<open>The choice of the backend\<close>

text \<open>What the process finds around it: the environment, the host name, the files, the programs and the libraries.\<close>

record ('r, 't) host =
  ho_environ :: "string list"
  ho_hostname :: "string result"
  ho_read_file :: "string \<Rightarrow> string result"
  ho_unmarshal :: "string \<Rightarrow> git_content_policy list result"
  ho_look_path :: "string \<Rightarrow> string result"
  ho_euid :: int
  ho_git :: "ctx \<Rightarrow> command \<Rightarrow> world \<Rightarrow> proc_result \<times> world"
  ho_library :: "('r, 't) gogit"
  ho_regex :: regex_engine
  ho_sort :: "item list \<Rightarrow> item list"
  ho_iter :: iteration

text \<open>The dynamic types of a \<^verbatim>\<open>materializer.Backend\<close>, and the method that runs.\<close>

datatype ('r, 't) backend_impl = Git_binary git_env | Go_git gogit_backend "('r, 't) gogit"

fun backend_mat :: "('r, 't) backend_impl \<Rightarrow> materializer" where
  "backend_mat (Git_binary env) = gitMaterialize env"
| "backend_mat (Go_git b g) = goGitMaterialize b g"

definition host_git :: "('r, 't) host \<Rightarrow> string \<Rightarrow> git_env" where
  "host_git h path = \<lparr>ge_path = path, ge_environ = ho_environ h, ge_euid = ho_euid h, ge_git = ho_git h\<rparr>"

definition host_library :: "('r, 't) host \<Rightarrow> ('r, 't) gogit" where
  "host_library h = (ho_library h)\<lparr>gg_environ := ho_environ h\<rparr>"

definition newMaterializer :: "('r, 't) host \<Rightarrow> string \<Rightarrow> ('r, 't) backend_impl result" where
  "newMaterializer h name =
     (if name = ''git'' then bindE (New_git_binary (ho_look_path h)) (\<lambda>p. Inr (Git_binary (host_git h p)))
      else if name = ''go-git'' \<or> name = []
      then bindE (NewGoGit (ho_environ h)) (\<lambda>b. Inr (Go_git b (host_library h)))
      else Inl (''unknown GITCONTENT_BACKEND '' @ quoted name @ '': must be '' @ quoted ''go-git'' @ '' or '' @ quoted ''git''))"

section \<open>The process\<close>

record ('r, 't) plugin =
  pg_server :: server
  pg_backend :: "('r, 't) backend_impl"
  pg_metrics :: metrics
  pg_addr :: string
  pg_endpoint :: string

definition plugin_config :: "string \<Rightarrow> config" where
  "plugin_config cacheDir =
     \<lparr>c_root = cacheDir, c_max_size = 10 * 1024 * 1024 * 1024, c_max_age = 24 * 3600 * 1000000000\<rparr>"

text \<open>\<^verbatim>\<open>main\<close> up to the two servers; an error is a panic.\<close>

definition start_plugin :: "('r, 't) host \<Rightarrow> (world, ('r, 't) plugin) action" where
  "start_plugin h =
     (let policyPath = getenv (ho_environ h) ''GITCONTENT_POLICY_FILE'' ''./examples/policies.yaml'';
          cacheDir = getenv (ho_environ h) ''GITCONTENT_CACHE_DIR'' ''/tmp/gitcontent-cache'';
          httpAddr = getenv (ho_environ h) ''GITCONTENT_ADDR'' '':8080'';
          endpoint = getenv (ho_environ h) ''CSI_ENDPOINT'' ''unix:///csi/csi.sock'';
          nodeID = getenv (ho_environ h) ''NODE_ID'' (hostname (ho_hostname h));
          targetRoot = getenv (ho_environ h) ''GITCONTENT_TARGET_ROOT'' ''/var/lib/kubelet''
      in bindW (liftW (LoadPolicies (ho_read_file h) (ho_unmarshal h) policyPath)) (\<lambda>policies.
         bindW (New (plugin_config cacheDir)) (\<lambda>cacheMgr.
         bindW (liftW (newMaterializer h (getenv (ho_environ h) ''GITCONTENT_BACKEND'' ''go-git''))) (\<lambda>mat.
           ret \<lparr>pg_server = \<lparr>sv_node_id = nodeID,
                  sv_pipeline = \<lparr>pl_regex = ho_regex h, pl_policies = policies, pl_mat = backend_mat mat,
                    pl_cache = cacheMgr, pl_target_root = targetRoot, pl_sort = ho_sort h, pl_iter = ho_iter h\<rparr>\<rparr>,
                pg_backend = mat, pg_metrics = Register NewMetrics, pg_addr = httpAddr, pg_endpoint = endpoint\<rparr>))))"

text \<open>\<^verbatim>\<open>os.Remove\<close> with its error dropped: a directory goes only when it is empty.\<close>

definition remove_quietly :: "string \<Rightarrow> world \<Rightarrow> world" where
  "remove_quietly path w =
     (case resolve False path w of
        Found p (EDir _) \<Rightarrow> if p = [] \<or> names (w_fs w) p \<noteq> [] then w else remove_tree p w
      | Found p _ \<Rightarrow> remove_tree p w
      | _ \<Rightarrow> w)"

definition private_socket_perm :: perm where "private_socket_perm = 488"

text \<open>\<^verbatim>\<open>serveCSI\<close> up to \<^verbatim>\<open>net.Listen\<close>: what is listened on, with the way to a socket cleared.\<close>

definition prepare_endpoint :: "string \<Rightarrow> (world, string \<times> string) action" where
  "prepare_endpoint endpoint =
     bindW (liftW (parseEndpoint endpoint)) (\<lambda>(network, address).
       if network = ''unix''
       then bindW (MkdirAll (Dir address) private_socket_perm) (\<lambda>_ w. (Inr (network, address), remove_quietly address w))
       else ret (network, address))"

section \<open>What holds when the servers start\<close>

fun backend_env_ok :: "('r, 't) backend_impl \<Rightarrow> attributes \<Rightarrow> string \<Rightarrow> world \<Rightarrow> bool" where
  "backend_env_ok (Git_binary env) a W w = git_env_ok env a W w"
| "backend_env_ok (Go_git b g) a W w = plain_library g"

interpretation driver: backend backend_mat backend_env_ok
proof
  fix e :: "('r, 't) backend_impl" and a W s ctx p res s'
  assume e: "backend_env_ok e a W (sy_world s)" and W: "work_ready (sy_world s) W" and run: "backend_mat e ctx a p W s = (res, s')"
  show "changed_below W s s'"
  proof (cases e)
    case (Git_binary env)
    then show ?thesis using git.mat_changes [of env] e W run by simp
  next
    case (Go_git b g)
    then show ?thesis using gogit.mat_changes [of "(b, g)"] e W run by (simp add: gogit_materializer_def)
  qed
next
  fix e :: "('r, 't) backend_impl" and a W s ctx p r s'
  assume e: "backend_env_ok e a W (sy_world s)" and W: "work_ready (sy_world s) W" and run: "backend_mat e ctx a p W s = (Inr r, s')"
  show "materialized p W r (sy_world s')"
  proof (cases e)
    case (Git_binary env)
    then show ?thesis using git.mat_content [of env] e W run by simp
  next
    case (Go_git b g)
    then show ?thesis using gogit.mat_content [of "(b, g)"] e W run by (simp add: gogit_materializer_def)
  qed
qed

lemma getenv_nonempty: "fallback \<noteq> [] \<Longrightarrow> getenv env name fallback \<noteq> []"
  by (simp add: getenv_def Let_def)

lemma hostname_nonempty: "hostname x \<noteq> []"
  by (auto simp: hostname_def split: sum.split)

definition host_cache_dir :: "('r, 't) host \<Rightarrow> string" where
  "host_cache_dir h = getenv (ho_environ h) ''GITCONTENT_CACHE_DIR'' ''/tmp/gitcontent-cache''"

lemma start_plugin_result:
  assumes "start_plugin h w = (Inr pg, w')"
  obtains policies mat where
      "LoadPolicies (ho_read_file h) (ho_unmarshal h) (getenv (ho_environ h) ''GITCONTENT_POLICY_FILE'' ''./examples/policies.yaml'') = Inr policies"
    and "newMaterializer h (getenv (ho_environ h) ''GITCONTENT_BACKEND'' ''go-git'') = Inr mat"
    and "MkdirAll (host_cache_dir h) privateDirPerm w = (Inr (), w')"
    and "pg_backend pg = mat" and "pl_mat (sv_pipeline (pg_server pg)) = backend_mat mat"
    and "pl_policies (sv_pipeline (pg_server pg)) = policies"
    and "pl_cache (sv_pipeline (pg_server pg)) = plugin_config (host_cache_dir h)"
    and "pl_sort (sv_pipeline (pg_server pg)) = ho_sort h" and "pl_iter (sv_pipeline (pg_server pg)) = ho_iter h"
    and "pl_target_root (sv_pipeline (pg_server pg)) = getenv (ho_environ h) ''GITCONTENT_TARGET_ROOT'' ''/var/lib/kubelet''"
    and "sv_node_id (pg_server pg) = getenv (ho_environ h) ''NODE_ID'' (hostname (ho_hostname h))"
    and "pg_metrics pg = Register NewMetrics"
proof -
  have "host_cache_dir h \<noteq> []" by (simp add: host_cache_dir_def getenv_nonempty)
  then show ?thesis
    using assms that
    by (auto simp: start_plugin_def Let_def bindW_Inr ret_Inr liftW_def New_def plugin_config_def host_cache_dir_def [symmetric]
        split: sum.splits prod.splits)
qed

end
