(* ===== verification/Driver.thy ===== *)
theory Driver
  imports Startup
begin

text \<open>
  The node plugin as a whole: the volumes it serves against the abstract state a kubelet thinks of, a map from
  target paths to read-only volumes, and the calls that lead from one state to the next.
\<close>

section \<open>Served volumes\<close>

type_synonym volume = "string list \<Rightarrow> entry option"
type_synonym volumes = "string list \<rightharpoonup> volume"

definition volume_at :: "world \<Rightarrow> string list \<Rightarrow> volume" where
  "volume_at w T q = look w (T @ q)"

definition read_only :: "volume \<Rightarrow> bool" where
  "read_only vol \<longleftrightarrow> (\<forall>q e. vol q = Some e \<longrightarrow> \<not> writable e \<and> ''.git'' \<notin> set q \<and> kind_of e \<noteq> KSpecial)"

text \<open>The world holds the volumes: each stands at its target, away from the cache and from the others.\<close>

definition holds :: "config \<Rightarrow> volumes \<Rightarrow> world \<Rightarrow> bool" where
  "holds cfg v w \<longleftrightarrow>
     cache_ok cfg w
     \<and> (\<forall>T vol. v T = Some vol \<longrightarrow> apart T (cache_root cfg) \<and> volume_at w T = vol \<and> read_only vol)
     \<and> (\<forall>T \<in> dom v. \<forall>T' \<in> dom v. T \<noteq> T' \<longrightarrow> apart T T')"

text \<open>A target that is not inside another volume, nor around one.\<close>

definition target_free :: "volumes \<Rightarrow> string list \<Rightarrow> bool" where
  "target_free v T \<longleftrightarrow> (\<forall>T' \<in> dom v. T' \<noteq> T \<longrightarrow> apart T' T)"

lemma apart_sym: "apart p q \<longleftrightarrow> apart q p"
  by (auto simp: apart_def)

lemma apart_below: "apart p q \<Longrightarrow> \<not> prefix q (p @ r)"
  by (auto simp: apart_def dest: prefix_same_cases [OF prefixI [OF refl]])

lemma holds_frame:
  assumes "holds cfg v w" and "cache_ok cfg w'" and "target_free v T"
    and frame: "\<And>x. \<not> strict_prefix (cache_root cfg) x \<Longrightarrow> \<not> prefix T x \<Longrightarrow> look w' x = look w x"
  shows "holds cfg (v(T := None)) w'"
proof -
  have same: "volume_at w' T' = volume_at w T'" if "T' \<in> dom v" "T' \<noteq> T" for T'
  proof -
    have "apart T' (cache_root cfg)" "apart T' T" using that assms(1,3) by (auto simp: holds_def target_free_def)
    then have "\<not> strict_prefix (cache_root cfg) (T' @ q)" "\<not> prefix T (T' @ q)" for q
      using apart_below by (auto simp: strict_prefix_def)
    then show ?thesis using frame by (simp add: volume_at_def fun_eq_iff)
  qed
  then have "volume_at w' T' = vol" if "v T' = Some vol" "T' \<noteq> T" for T' vol
    using that assms(1) by (metis domI holds_def)
  then show ?thesis using assms(1,2) by (simp add: holds_def)
qed

lemma holds_new:
  assumes "holds cfg v w" and "cache_ok cfg w'" and "target_free v T"
    and "\<And>x. \<not> strict_prefix (cache_root cfg) x \<Longrightarrow> \<not> prefix T x \<Longrightarrow> look w' x = look w x"
    and "apart T (cache_root cfg)" and "volume_at w' T = vol" and "read_only vol"
  shows "holds cfg (v(T \<mapsto> vol)) w'"
proof -
  have old: "holds cfg (v(T := None)) w'" by (rule holds_frame [OF assms(1-4)])
  then have each: "apart T' (cache_root cfg) \<and> volume_at w' T' = u \<and> read_only u" if "(v(T \<mapsto> vol)) T' = Some u" for T' u
    using that assms(5-7) unfolding holds_def by (metis fun_upd_apply option.inject)
  have "apart T' T''" if "T' \<in> dom (v(T \<mapsto> vol))" "T'' \<in> dom (v(T \<mapsto> vol))" "T' \<noteq> T''" for T' T''
  proof -
    have "T' = T \<or> T' \<in> dom v" "T'' = T \<or> T'' \<in> dom v" using that(1,2) by auto
    then show ?thesis using that(3) assms(1,3) unfolding holds_def target_free_def by (metis apart_sym)
  qed
  then show ?thesis using each assms(2) by (simp add: holds_def)
qed

lemma read_only_served: "read_only (served um c)"
  by (simp add: read_only_def served_nodes)

lemma holds_volume: "holds cfg v w \<Longrightarrow> v T = Some vol \<Longrightarrow> (\<forall>q. look w (T @ q) = vol q) \<and> read_only vol"
  by (metis holds_def volume_at_def)

section \<open>Publishing against the abstract state\<close>

context backend
begin

lemma publish_holds:
  assumes pl: "pl_mat pl = mat e" "lawful pl" and v: "holds (pl_cache pl) v (sy_world s)"
    and target: "target_ok (pl_cache pl) (sy_world s) (pv_target_path req)" "target_free v (clean_comps (pv_target_path req))"
    and ready: "mount_ready pl (env_ok e) ctx (pod_namespace (pv_context req)) (pv_context req) s"
    and run: "NodePublishVolume pl ctx req s = (r, s')"
  shows "r \<noteq> Inr () \<and> holds (pl_cache pl) (v(clean_comps (pv_target_path req) := None)) (sy_world s')
    \<or> r = Inr () \<and> (\<exists>a pol profile mr s1.
         mounted pl ctx (pod_namespace (pv_context req)) (pv_context req) s a pol profile mr s1
         \<and> holds (pl_cache pl) (v(clean_comps (pv_target_path req) \<mapsto>
               served (w_umask (sy_world s)) (volume_of pl a pol profile mr (sy_world s1)))) (sy_world s'))"
proof -
  let ?T = "clean_comps (pv_target_path req)" and ?cfg = "pl_cache pl"
  have ok: "cache_ok ?cfg (sy_world s)" using v by (simp add: holds_def)
  have ok': "cache_ok ?cfg (sy_world s')" by (rule publish_kept [OF pl ok target(1) ready run])
  have frame: "look (sy_world s') x = look (sy_world s) x" if "\<not> strict_prefix (cache_root ?cfg) x" "\<not> prefix ?T x" for x
    by (rule publish_frame [OF pl ok target(1) ready run that])
  show ?thesis
  proof (cases "r = Inr ()")
    case False
    then show ?thesis using holds_frame [OF v ok' target(2) frame] by blast
  next
    case True
    then obtain a pol profile mr s1 where
      m: "mounted pl ctx (pod_namespace (pv_context req)) (pv_context req) s a pol profile mr s1"
      and content: "\<And>q. look (sy_world s') (?T @ q) = served (w_umask (sy_world s)) (volume_of pl a pol profile mr (sy_world s1)) q"
      using publish_content [OF pl ok target(1) ready run True] by blast
    have "volume_at (sy_world s') ?T = served (w_umask (sy_world s)) (volume_of pl a pol profile mr (sy_world s1))"
      using content by (simp add: volume_at_def fun_eq_iff)
    moreover have "apart ?T (cache_root ?cfg)" using target(1) by (simp add: target_ok_def)
    ultimately show ?thesis using True m holds_new [OF v ok' target(2) frame _ _ read_only_served] by blast
  qed
qed

end

lemma unpublish_holds:
  assumes "holds cfg v (sy_world s)" and "target_ok cfg (sy_world s) target" and "target_free v (clean_comps target)"
    and run: "NodeUnpublishVolume target s = (r, s')"
  shows "r = Inr () \<and> holds cfg (v(clean_comps target := None)) (sy_world s')
    \<and> look (sy_world s') (clean_comps target) = None"
proof -
  let ?T = "clean_comps target" and ?w = "sy_world s"
  have t: "IsAbs target" "Clean target = target" "?T \<noteq> []" "reach ?w ?T" "apart ?T (cache_root cfg)"
    using assms(2) by (simp_all add: target_ok_def reach_def)
  have wf: "wf_world ?w" using assms(1) by (simp add: holds_def cache_ok_def)
  have "target = abs_path ?T" using Clean_abs_path [OF t(1)] t(2) by simp
  then obtain w' where rm: "RemoveAll target ?w = (Inr (), w')" and wf': "wf_world w'"
    and look': "\<And>x. look w' x = (if prefix ?T x then None else look ?w x)"
    using RemoveAll_abs [OF wf t(4,3)] by metis
  have "target \<noteq> []" using t(1) by (auto simp: IsAbs_def)
  then have fin: "r = Inr ()" "sy_world s' = w'" using run rm by (auto simp: NodeUnpublishVolume_def unpublish_def onW_def)
  have "cache_ok cfg w'"
  proof -
    have "look w' x = look ?w x" if "prefix (cache_root cfg) x" for x
      using that look' target_not_cache [OF assms(2), of x] by auto
    then show ?thesis using assms(1) wf' by (simp add: holds_def cache_ok_def is_dir_iff)
  qed
  then have "holds cfg (v(?T := None)) w'" by (intro holds_frame [OF assms(1) _ assms(3)]) (simp_all add: look')
  then show ?thesis using fin look' by simp
qed

section \<open>When a publication succeeds\<close>

context backend
begin

lemma publish_live:
  assumes pl: "pl_mat pl = mat e" "lawful pl" and ok: "cache_ok (pl_cache pl) (sy_world s)"
    and target: "target_ok (pl_cache pl) (sy_world s) (pv_target_path req)" and form: "publish_well_formed req"
    and allowed: "Parse (pv_context req) = Inr a" "decision pl (pod_namespace (pv_context req)) a = (res, pol)" "res_allowed res"
    and env: "env_ok e a (cache_path (pl_cache pl) a (res_resolved_profile res)) (sy_world (tick (tick s)))"
    and content: "entry_run pl ctx a pol (res_resolved_profile res) s = (Inr mr, s1)"
      "look (sy_world s1) (content_dir (cache_path (pl_cache pl) a (res_resolved_profile res)) @ [''.gitcontent'']) = None"
      "links_ok (sy_world s1) (content_dir (cache_path (pl_cache pl) a (res_resolved_profile res)))"
    and room: "room_after pl a pol (res_resolved_profile res) mr (sy_world s1)"
  obtains s' where "NodePublishVolume pl ctx req s = (Inr (), s')"
    and "\<And>q. look (sy_world s') (clean_comps (pv_target_path req) @ q)
           = served (w_umask (sy_world s)) (volume_of pl a pol (res_resolved_profile res) mr (sy_world s1)) q"
proof -
  let ?ns = "pod_namespace (pv_context req)" and ?raw = "pv_context req" and ?pr = "res_resolved_profile res"
  let ?W = "cache_path (pl_cache pl) a ?pr"
  obtain r s' where run: "NodePublishVolume pl ctx req s = (r, s')" by fastforce
  have ready: "mount_ready pl (env_ok e) ctx ?ns ?raw s"
    using allowed env content by (auto simp: mount_ready_def)
  have W: "work_ready (sy_world (looked_up pl a ?pr (tick s))) ?W"
    using cache_work_ready [of "pl_cache pl" "sy_world (tick (tick s))"] ok by (simp add: tick_world)
  have "materialized pol ?W mr (sy_world s1)"
    using mat_content [OF _ W, of e a "mount_ctx ctx pol (tick s)" pol mr s1] env content(1) by (simp add: entry_run_def pl)
  then have m: "mounted pl ctx ?ns ?raw s a pol ?pr mr s1" using allowed content(1) by (auto simp: mounted_def)
  have r: "r = Inr ()" using publish_outcome [OF pl ok target ready run m form] room content(3) by blast
  then obtain a' pol' profile mr' s2 where m': "mounted pl ctx ?ns ?raw s a' pol' profile mr' s2"
    and vol: "\<And>q. look (sy_world s') (clean_comps (pv_target_path req) @ q)
        = served (w_umask (sy_world s)) (volume_of pl a' pol' profile mr' (sy_world s2)) q"
    using publish_content [OF pl ok target ready run r] by blast
  then show ?thesis using that [of s'] run r mounted_unique [OF m m'] by simp
qed

end

text \<open>The go-git backend checks links where they end up, so without submodules all of them pass again.\<close>

lemma gogit_links:
  assumes "gogit_result g ctx p a W res w" and "\<not> at_submodules a"
  shows "links_ok w (content_dir W)"
proof -
  obtain tr where wr: "wrote_content g p a tr (content_dir W) (mr_file_count res) (mr_size_bytes res) w"
    using assms(1) by (auto simp: gogit_result_def)
  let ?fs = "fst (gg_files g tr)"
  have fine: "tree_fine g (content_dir W) ?fs" and root: "is_dir w (content_dir W)"
    and tree: "\<And>q. q \<noteq> [] \<Longrightarrow> look w (content_dir W @ q) = tree_content g (w_umask w) ?fs q"
    using wr assms(2) by (simp_all add: wrote_content_def)
  have "link_ok (content_dir W) q t" if link: "look w (content_dir W @ q) = Some (ELink t)" for q t
  proof -
    have "q \<noteq> []" using link root by (auto simp: is_dir_iff)
    then have "tree_content g (w_umask w) ?fs q = Some (ELink t)" using link tree by simp
    then show ?thesis
    proof (cases rule: tree_content_cases)
      case (leaf f)
      then have "gf_mode f = mode_symlink" "Contents f = Inr t"
        by (auto simp: file_entry_def split: if_splits sum.splits)
      moreover have "file_fine g (content_dir W) f" using fine leaf(1,2) by (auto simp: tree_fine_def list_all_iff)
      ultimately show ?thesis using leaf(3) by (simp add: file_fine_def)
    qed simp
  qed
  then show ?thesis by (simp add: links_ok_def)
qed

text \<open>What the backend writes for a tree.\<close>

definition tree_volume :: "('r, 't) gogit \<Rightarrow> perm \<Rightarrow> 't \<Rightarrow> volume" where
  "tree_volume g um tr q =
     (if q = [] then Some (EDir (and publicDirPerm (not um))) else tree_content g um (fst (gg_files g tr)) q)"

text \<open>
  C4. An allowed volume is mounted. With the go-git backend, a well-formed request that parses and is allowed, without submodules,
  whose tree the backend could write and does not bring a \<^verbatim>\<open>.gitcontent\<close> of its own, is published whenever the cache has room
  for it: the call returns no error, and at the target stands the tree of the commit with the metadata, read-only.
\<close>

theorem gogit_volume_published:
  assumes "pl_mat pl = goGitMaterialize b g" and "lawful pl" and "plain_library g" and "cache_ok (pl_cache pl) (sy_world s)"
    and "target_ok (pl_cache pl) (sy_world s) (pv_target_path req)" and "publish_well_formed req"
    and "Parse (pv_context req) = Inr a" and "decision pl (pod_namespace (pv_context req)) a = (res, pol)" and "res_allowed res"
    and "\<not> at_submodules a"
    and "entry_run pl ctx a pol (res_resolved_profile res) s = (Inr mr, s1)"
    and "look (sy_world s1) (content_dir (cache_path (pl_cache pl) a (res_resolved_profile res)) @ [''.gitcontent'']) = None"
    and "room_after pl a pol (res_resolved_profile res) mr (sy_world s1)"
  shows "\<exists>s' tr. NodePublishVolume pl ctx req s = (Inr (), s')
    \<and> from_clone g (mount_ctx ctx pol (tick s)) pol a (mr_resolved mr) tr
    \<and> (\<forall>q. look (sy_world s') (clean_comps (pv_target_path req) @ q) = served (w_umask (sy_world s))
         (overlay (w_umask (sy_world s)) (mount_stamp (sy_world s1)) (mount_inputs a pol (res_resolved_profile res) mr)
           (tree_volume g (w_umask (sy_world s)) tr)) q)"
proof -
  let ?pr = "res_resolved_profile res"
  let ?W = "cache_path (pl_cache pl) a ?pr"
  have mat: "pl_mat pl = backend_mat (Go_git b g)" using assms(1) by simp
  have W: "work_ready (sy_world (looked_up pl a ?pr (tick s))) ?W"
    using cache_work_ready [of "pl_cache pl" "sy_world (tick (tick s))"] assms(4) by (simp add: tick_world)
  have "goGitMaterialize b g (mount_ctx ctx pol (tick s)) a pol ?W (looked_up pl a ?pr (tick s)) = (Inr mr, s1)"
    using assms(11) by (simp add: entry_run_def assms(1))
  note steps = goGitMaterialize_steps [OF assms(3) W this]
  then have res: "gogit_result g (mount_ctx ctx pol (tick s)) pol a ?W mr (sy_world s1)" by blast
  have um: "w_umask (sy_world s1) = w_umask (sy_world s)" using steps by (simp add: changed_below_def tick_world)
  obtain tr where tr: "from_clone g (mount_ctx ctx pol (tick s)) pol a (mr_resolved mr) tr"
    and wr: "wrote_content g pol a tr (content_dir ?W) (mr_file_count mr) (mr_size_bytes mr) (sy_world s1)"
    using res by (auto simp: gogit_result_def)
  have "(\<lambda>q. look (sy_world s1) (content_dir ?W @ q)) = tree_volume g (w_umask (sy_world s)) tr"
    using wr assms(10) um by (simp add: wrote_content_def tree_volume_def fun_eq_iff)
  then have vol: "volume_of pl a pol ?pr mr (sy_world s1) = overlay (w_umask (sy_world s)) (mount_stamp (sy_world s1))
      (mount_inputs a pol ?pr mr) (tree_volume g (w_umask (sy_world s)) tr)"
    by (simp add: volume_of_def um)
  have env: "backend_env_ok (Go_git b g) a ?W (sy_world (tick (tick s)))" using assms(3) by simp
  obtain s' where run: "NodePublishVolume pl ctx req s = (Inr (), s')"
    and content: "\<And>q. look (sy_world s') (clean_comps (pv_target_path req) @ q)
        = served (w_umask (sy_world s)) (volume_of pl a pol ?pr mr (sy_world s1)) q"
    by (rule driver.publish_live [OF mat assms(2,4-9) env assms(11,12) gogit_links [OF res assms(10)] assms(13)]) (rule that)
  show ?thesis using run content tr unfolding vol by blast
qed

end
