(* ===== verification/NodeExample.thy ===== *)
theory NodeExample
  imports Driver Backends
begin

text \<open>
  One volume from the start of the plugin to its publication, evaluated: the witness that the conditions of the
  properties of the node plugin can hold together.
\<close>

section \<open>The cache key of the volume\<close>

lemma example_block1: "compress initial_state
    [0x68747470, 0x733a2f2f, 0x67697468, 0x75622e63, 0x6f6d2f65, 0x78616d70, 0x6c652f73, 0x6974652e, 0x6769740a, 0x72656673, 0x2f746167, 0x732f7631, 0x2e302e30, 0x0a707562, 0x6c69632f, 0x61737365]
  = (0x6434acae, 0xaad0a980, 0x59b17b98, 0xa5cca600, 0xb559d1d5, 0xb17f8c05, 0x6a5960d3, 0x714637d4)"
  by code_simp

lemma example_block2: "compress (0x6434acae, 0xaad0a980, 0x59b17b98, 0xa5cca600, 0xb559d1d5, 0xb17f8c05, 0x6a5960d3, 0x714637d4)
    [0x74730a73, 0x75626d6f, 0x64756c65, 0x733d6661, 0x6c73650a, 0x6c66733d, 0x66616c73, 0x650a7265, 0x61646572, 0x0a800000, 0x00000000, 0x00000000, 0x00000000, 0x00000000, 0x00000000, 0x00000328]
  = (0xaaff1e24, 0x4081be96, 0x52436505, 0x34268a2b, 0xb425db0e, 0xc2ab79fd, 0x4ede9abf, 0xe44d3692)"
  by code_simp

lemma example_words: "words_be (padded_message (key_bytes (mount_parts ''https://github.com/example/site.git'' ''refs/tags/v1.0.0''
     ''public/assets'' False False ''reader''))) =
    [0x68747470, 0x733a2f2f, 0x67697468, 0x75622e63, 0x6f6d2f65, 0x78616d70, 0x6c652f73, 0x6974652e, 0x6769740a, 0x72656673, 0x2f746167, 0x732f7631, 0x2e302e30, 0x0a707562, 0x6c69632f, 0x61737365,
     0x74730a73, 0x75626d6f, 0x64756c65, 0x733d6661, 0x6c73650a, 0x6c66733d, 0x66616c73, 0x650a7265, 0x61646572, 0x0a800000, 0x00000000, 0x00000000, 0x00000000, 0x00000000, 0x00000000, 0x00000328]"
  by code_simp

lemma example_key: "entry_key example_attributes ''reader'' = ''aaff1e244081be965243650534268a2bb425db0ec2ab79fd4ede9abfe44d3692''"
proof -
  have "blocks initial_state (words_be (padded_message (key_bytes (mount_parts ''https://github.com/example/site.git'' ''refs/tags/v1.0.0''
     ''public/assets'' False False ''reader'')))) = (0xaaff1e24, 0x4081be96, 0x52436505, 0x34268a2b, 0xb425db0e, 0xc2ab79fd, 0x4ede9abf, 0xe44d3692)"
    unfolding example_words
    by (subst blocks.simps, simp only: list.size, simp add: example_block1)
       (subst blocks.simps, simp add: example_block2 blocks.simps [of _ "[]"])
  moreover have "hex_string [0xaaff1e24, 0x4081be96, 0x52436505, 0x34268a2b, 0xb425db0e, 0xc2ab79fd, 0x4ede9abf, 0xe44d3692] = ''aaff1e244081be965243650534268a2bb425db0ec2ab79fd4ede9abfe44d3692''"
    by code_simp
  ultimately show ?thesis by (simp add: entry_key_def Key_def sha256_def example_attributes_def)
qed

section \<open>The plugin on a node\<close>

text \<open>The node of the other examples, with a directory for the volumes of a pod.\<close>

definition pods_world :: world where
  "pods_world = node_world\<lparr>w_fs := w_fs node_world @ [([''pods''], EDir 493), ([''pods'', ''p''], EDir 493)]\<rparr>"

text \<open>A host that starts the plugin on the site of the other examples, with the go-git backend.\<close>

definition example_host :: "(string, nat) host" where
  "example_host =
     \<lparr>ho_environ = [''GITCONTENT_CACHE_DIR=/cache'', ''GITCONTENT_HTTP_USERNAME=robot''],
      ho_hostname = Inr ''node-1'', ho_read_file = (\<lambda>path. Inr ''policies''), ho_unmarshal = (\<lambda>raw. Inr [example_policy]),
      ho_look_path = (\<lambda>name. Inl ''not found''), ho_euid = 0, ho_git = (\<lambda>ctx c w. (\<lparr>pr_error = None, pr_stdout = [], pr_combined = []\<rparr>, w)),
      ho_library = site_library, ho_regex = no_regex, ho_sort = sort_key it_mod, ho_iter = id\<rparr>"

definition example_library :: "(string, nat) gogit" where
  "example_library = host_library example_host"

lemma example_plain: "plain_library example_library"
  using site_plain by (simp add: example_library_def host_library_def plain_library_def example_host_def)

lemma example_cache_dir: "host_cache_dir example_host = ''/cache''"
  by code_simp

lemma example_new: "newMaterializer example_host (getenv (ho_environ example_host) ''GITCONTENT_BACKEND'' ''go-git'') = Inr (Go_git None example_library)"
proof -
  have "getenv (ho_environ example_host) ''GITCONTENT_BACKEND'' ''go-git'' = ''go-git''" "NewGoGit (ho_environ example_host) = Inr None"
    by code_simp+
  then show ?thesis by (simp add: newMaterializer_def bindE_def example_library_def)
qed

lemma pods_facts: "wf_world pods_world" "is_dir pods_world [''cache'']" "is_dir pods_world [''pods'', ''p'']" "work_ready pods_world ''/cache''"
proof -
  show w: "wf_world pods_world" unfolding wf_world_code by code_simp
  show d: "is_dir pods_world [''cache'']" "is_dir pods_world [''pods'', ''p'']" by code_simp+
  have "IsAbs ''/cache''" "Clean ''/cache'' = ''/cache''" "clean_comps ''/cache'' = [''cache'']" "is_dir pods_world []" "name_ok ''cache''" by code_simp+
  then show "work_ready pods_world ''/cache''" using w d by (simp add: work_ready_def)
qed

definition example_plugin :: "(string, nat) plugin" where
  "example_plugin =
     \<lparr>pg_server = \<lparr>sv_node_id = ''node-1'', sv_pipeline = example_pipeline (backend_mat (Go_git None example_library))\<rparr>,
      pg_backend = Go_git None example_library, pg_metrics = Register NewMetrics, pg_addr = '':8080'',
      pg_endpoint = ''unix:///csi/csi.sock''\<rparr>"

lemma example_start: "start_plugin example_host pods_world = (Inr example_plugin, pods_world)"
proof -
  have env: "getenv (ho_environ example_host) ''GITCONTENT_CACHE_DIR'' ''/tmp/gitcontent-cache'' = ''/cache''"
    "getenv (ho_environ example_host) ''GITCONTENT_ADDR'' '':8080'' = '':8080''"
    "getenv (ho_environ example_host) ''CSI_ENDPOINT'' ''unix:///csi/csi.sock'' = ''unix:///csi/csi.sock''"
    "getenv (ho_environ example_host) ''NODE_ID'' (hostname (ho_hostname example_host)) = ''node-1''"
    "getenv (ho_environ example_host) ''GITCONTENT_TARGET_ROOT'' ''/var/lib/kubelet'' = ''/var/lib/kubelet''" by code_simp+
  have load: "LoadPolicies (ho_read_file example_host) (ho_unmarshal example_host) path = Inr [applyPolicyDefaults example_policy]" for path
    by (simp add: LoadPolicies_def example_host_def)
  have "abs_path [''cache''] = ''/cache''" by code_simp
  then have mk: "MkdirAll ''/cache'' m pods_world = (Inr (), pods_world)" for m
    using MkdirAll_is_dir [OF pods_facts(1,2)] by simp
  show ?thesis
    unfolding start_plugin_def Let_def env load example_new
    by (simp add: bindW_def ret_def liftW_def New_def plugin_config_def mk example_plugin_def example_pipeline_def example_host_def seconds_def)
qed

section \<open>The publication\<close>

abbreviation example_pl :: pipeline where
  "example_pl \<equiv> sv_pipeline (pg_server example_plugin)"

definition started_node :: sys where
  "started_node = \<lparr>sy_world = pods_world, sy_log = [], sy_metrics = Register NewMetrics\<rparr>"

definition pod_request :: publish_request where
  "pod_request =
     \<lparr>pv_volume_id = ''csi-1'', pv_target_path = ''/pods/p/mount'', pv_mount_capability = True, pv_readonly = True,
      pv_context = example_raw(''csi.storage.k8s.io/pod.namespace'' \<mapsto> ''web'')\<rparr>"

abbreviation "site_entry \<equiv> ''aaff1e244081be965243650534268a2bb425db0ec2ab79fd4ede9abfe44d3692''"

abbreviation "site_policy \<equiv> applyPolicyDefaults example_policy"

definition site_result :: mat_result where
  "site_result =
     \<lparr>mr_resolved = ''0123456789abcdef0123456789abcdef01234567'', mr_repo_path = [],
      mr_mounted_path = ''/cache/'' @ site_entry @ ''/content'', mr_file_count = 1, mr_size_bytes = 4, mr_cache_hit = False\<rparr>"

definition example_at :: "metrics \<Rightarrow> sys" where
  "example_at m = \<lparr>sy_world = pods_world\<lparr>w_ticks := Suc (Suc (w_ticks pods_world))\<rparr>, sy_log = [], sy_metrics = m\<rparr>"

definition site_run :: "ctx \<Rightarrow> metrics \<Rightarrow> (err + mat_result) \<times> sys" where
  "site_run c m =
     goGitMaterialize None example_library c example_attributes site_policy (''/cache/'' @ site_entry) (example_at m)"

lemma site_run_result: "fst (site_run c m) = Inr site_result"
  by code_simp

lemma site_run_content:
  "look (sy_world (snd (site_run c m))) [''cache'', site_entry, ''content'', ''a.css''] = Some (EFile ''body'' 292)"
  by code_simp

lemma site_run_own: "look (sy_world (snd (site_run c m))) [''cache'', site_entry, ''content'', ''.gitcontent''] = None"
  by code_simp

lemma site_run_clock: "w_clock (sy_world (snd (site_run c m))) n = int n"
  by code_simp

text \<open>
  What the mount leaves has room in the cache of the plugin; with a maximal age of a nanosecond it is out of date at
  once. Both are read off the world after the metadata was written, which is evaluated once.
\<close>

definition hasty_config :: config where
  "hasty_config = (plugin_config ''/cache'')\<lparr>c_max_age := 1\<rparr>"

definition roomy_and_old :: "world \<Rightarrow> bool" where
  "roomy_and_old w \<longleftrightarrow> cache_roomy (plugin_config ''/cache'') w \<and> \<not> fresh hasty_config w [''cache'', site_entry]"

definition site_written :: "ctx \<Rightarrow> metrics \<Rightarrow> world" where
  "site_written c m =
     snd (Write id (mr_mounted_path site_result) (mount_inputs example_attributes site_policy ''reader'' site_result)
       (sy_world (snd (site_run c m))))"

lemma site_checked: "roomy_and_old (site_written c m)"
  by code_simp

lemma site_roomy: "cache_roomy (plugin_config ''/cache'') (site_written c m)"
  and site_stale: "\<not> fresh hasty_config (site_written c m) [''cache'', site_entry]"
  using site_checked by (simp_all add: roomy_and_old_def)

lemma example_pl_simps [simp]:
  "pl_cache example_pl = plugin_config ''/cache''" "pl_iter example_pl = id"
  "pl_mat example_pl = goGitMaterialize None example_library"
  by (simp_all add: example_plugin_def example_pipeline_def plugin_config_def seconds_def)

lemma pl_policies_example: "decision example_pl ''web'' example_attributes =
     (\<lparr>res_allowed = True, res_resolved_profile = ''reader'', res_denial_reason_code = [], res_denial_reason = []\<rparr>, site_policy)"
  using example_decision by (simp add: example_plugin_def)

lemma pod_request_parses: "Parse (pv_context pod_request) = Inr example_attributes" "pod_namespace (pv_context pod_request) = ''web''"
  by code_simp+

lemma example_lawful: "lawful example_pl"
  by (simp add: lawful_def example_plugin_def example_pipeline_def)

lemma example_cache_ok: "cache_ok (plugin_config ''/cache'') (sy_world started_node)"
proof -
  have "clean_comps ''/cache'' = [''cache'']" "IsAbs ''/cache''" "Clean ''/cache'' = ''/cache''" by code_simp+
  moreover have "look pods_world [''cache'', n] = None" for n
    by (simp add: pods_world_def node_world_def look_def)
  ultimately show ?thesis using pods_facts by (simp add: cache_ok_def plugin_config_def started_node_def)
qed

lemma example_target: "target_ok (plugin_config ''/cache'') (sy_world started_node) (pv_target_path pod_request)"
  by code_simp

lemma site_path: "cache_path (plugin_config ''/cache'') example_attributes ''reader'' = ''/cache/'' @ site_entry"
  "content_dir (''/cache/'' @ site_entry) = [''cache'', site_entry, ''content'']"
proof -
  have root: "cache_root (plugin_config ''/cache'') = [''cache'']" by code_simp
  have "abs_path [''cache'', site_entry] = ''/cache/'' @ site_entry" by code_simp
  then show "cache_path (plugin_config ''/cache'') example_attributes ''reader'' = ''/cache/'' @ site_entry"
    using cache_path_abs(2) [OF example_cache_ok, of example_attributes "''reader''"] by (simp add: entry_dir_def root example_key)
  show "content_dir (''/cache/'' @ site_entry) = [''cache'', site_entry, ''content'']" by code_simp
qed

lemma example_entry:
  obtains c m where "entry_run example_pl no_ctx example_attributes site_policy ''reader'' started_node = site_run c m"
proof -
  have "looked_up example_pl example_attributes ''reader'' (tick started_node)
      = example_at (sy_metrics (looked_up example_pl example_attributes ''reader'' (tick started_node)))"
    by (simp add: looked_up_def example_at_def started_node_def tick_def Let_def)
  then show ?thesis using that by (metis entry_run_def example_pl_simps(1,3) site_path(1) site_run_def)
qed

text \<open>The request is published, and this is what the pod sees.\<close>

lemma example_conditions:
  obtains s1 where "entry_run example_pl no_ctx example_attributes site_policy ''reader'' started_node = (Inr site_result, s1)"
    and "look (sy_world s1) [''cache'', site_entry, ''content'', ''a.css''] = Some (EFile ''body'' 292)"
    and "look (sy_world s1) (content_dir (cache_path (pl_cache example_pl) example_attributes ''reader'') @ [''.gitcontent'']) = None"
    and "room_after example_pl example_attributes site_policy ''reader'' site_result (sy_world s1)"
proof -
  obtain c m where run: "entry_run example_pl no_ctx example_attributes site_policy ''reader'' started_node = site_run c m"
    by (rule example_entry)
  let ?s1 = "snd (site_run c m)"
  have "site_run c m = (Inr site_result, ?s1)" using site_run_result [of c m] by (simp add: prod_eq_iff)
  moreover have "room_after example_pl example_attributes site_policy ''reader'' site_result (sy_world ?s1)"
    using site_roomy [of c m] site_run_clock [of c m]
    by (simp add: room_after_def mono_def plugin_config_def site_written_def)
  moreover have "look (sy_world ?s1) (content_dir (cache_path (pl_cache example_pl) example_attributes ''reader'') @ [''.gitcontent'']) = None"
    unfolding example_pl_simps site_path using site_run_own [of c m] by (simp only: append_Cons append_Nil)
  ultimately show ?thesis using that [of ?s1] run site_run_content [of c m] by simp
qed

theorem gogit_volume_published_witness:
  "\<exists>s'. NodePublishVolume example_pl no_ctx pod_request started_node = (Inr (), s')
     \<and> look (sy_world s') [''pods'', ''p'', ''mount''] \<noteq> None"
proof -
  obtain s1 where run: "entry_run example_pl no_ctx example_attributes site_policy ''reader'' started_node = (Inr site_result, s1)"
    and own: "look (sy_world s1) (content_dir (cache_path (pl_cache example_pl) example_attributes ''reader'') @ [''.gitcontent'']) = None"
    and room: "room_after example_pl example_attributes site_policy ''reader'' site_result (sy_world s1)"
    by (rule example_conditions) (rule that)
  have "publish_well_formed pod_request" "\<not> at_submodules example_attributes" "clean_comps (pv_target_path pod_request) = [''pods'', ''p'', ''mount'']"
    by code_simp+
  then obtain s' tr where s': "NodePublishVolume example_pl no_ctx pod_request started_node = (Inr (), s')"
    and vol: "\<And>q. look (sy_world s') ([''pods'', ''p'', ''mount''] @ q) = served (w_umask (sy_world started_node))
         (overlay (w_umask (sy_world started_node)) (mount_stamp (sy_world s1)) (mount_inputs example_attributes site_policy ''reader'' site_result)
           (tree_volume example_library (w_umask (sy_world started_node)) tr)) q"
    using gogit_volume_published [OF example_pl_simps(3) example_lawful example_plain, of started_node pod_request example_attributes
        "\<lparr>res_allowed = True, res_resolved_profile = ''reader'', res_denial_reason_code = [], res_denial_reason = []\<rparr>" site_policy no_ctx site_result s1]
      example_cache_ok example_target pod_request_parses pl_policies_example run own room by auto
  have "look (sy_world s') [''pods'', ''p'', ''mount''] \<noteq> None" using vol [of "[]"] by (simp add: served_def overlay_def tree_volume_def)
  then show ?thesis using s' by blast
qed

text \<open>The same publication, for the properties of runs.\<close>

lemma site_published:
  obtains s' where "NodePublishVolume example_pl no_ctx pod_request started_node = (Inr (), s')"
    and "mount_ready example_pl (backend_env_ok (Go_git None example_library)) no_ctx ''web'' (pv_context pod_request) started_node"
    and "look (sy_world s') [''pods'', ''p'', ''mount'', ''a.css''] = Some (EFile ''body'' 292)"
proof -
  obtain s1 where run: "entry_run example_pl no_ctx example_attributes site_policy ''reader'' started_node = (Inr site_result, s1)"
    and css: "look (sy_world s1) [''cache'', site_entry, ''content'', ''a.css''] = Some (EFile ''body'' 292)"
    and own: "look (sy_world s1) (content_dir (cache_path (pl_cache example_pl) example_attributes ''reader'') @ [''.gitcontent'']) = None"
    and room: "room_after example_pl example_attributes site_policy ''reader'' site_result (sy_world s1)"
    by (rule example_conditions) (rule that)
  let ?W = "cache_path (pl_cache example_pl) example_attributes ''reader''"
  let ?res = "\<lparr>res_allowed = True, res_resolved_profile = ''reader'', res_denial_reason_code = [], res_denial_reason = []\<rparr>"
  have form: "publish_well_formed pod_request" "\<not> at_submodules example_attributes" "clean_comps (pv_target_path pod_request) = [''pods'', ''p'', ''mount'']"
    by code_simp+
  have W: "work_ready (sy_world (looked_up example_pl example_attributes ''reader'' (tick started_node))) ?W"
    using cache_work_ready [of "pl_cache example_pl" "sy_world (tick (tick started_node))"] example_cache_ok by (simp add: tick_world)
  have "goGitMaterialize None example_library (mount_ctx no_ctx site_policy (tick started_node)) example_attributes site_policy ?W
      (looked_up example_pl example_attributes ''reader'' (tick started_node)) = (Inr site_result, s1)"
    using run by (simp add: entry_run_def)
  from goGitMaterialize_steps [OF example_plain W this]
  have links: "links_ok (sy_world s1) (content_dir ?W)" using gogit_links form(2) by blast
  have mat: "pl_mat example_pl = backend_mat (Go_git None example_library)" by simp
  have ok: "cache_ok (pl_cache example_pl) (sy_world started_node)" "target_ok (pl_cache example_pl) (sy_world started_node) (pv_target_path pod_request)"
    using example_cache_ok example_target by simp_all
  have dec: "decision example_pl (pod_namespace (pv_context pod_request)) example_attributes = (?res, site_policy)" "res_allowed ?res"
    using pl_policies_example pod_request_parses(2) by simp_all
  have env: "backend_env_ok (Go_git None example_library) example_attributes (cache_path (pl_cache example_pl) example_attributes (res_resolved_profile ?res))
      (sy_world (tick (tick started_node)))" using example_plain by simp
  obtain s' where pub: "NodePublishVolume example_pl no_ctx pod_request started_node = (Inr (), s')"
    and vol: "\<And>q. look (sy_world s') (clean_comps (pv_target_path pod_request) @ q)
           = served (w_umask (sy_world started_node)) (volume_of example_pl example_attributes site_policy ''reader'' site_result (sy_world s1)) q"
    by (rule driver.publish_live [OF mat example_lawful ok form(1) pod_request_parses(1) dec env, unfolded eval_result.select_convs, OF run own links room])
      (rule that)
  have "served 18 c [''a.css''] = Some (EFile ''body'' 292)" if "c [''a.css''] = Some (EFile ''body'' 292)" for c
  proof -
    have "copied_entry 18 (EFile ''body'' 292) = Some (EFile ''body'' 292)" "readonly_entry (EFile ''body'' 292) = EFile ''body'' 292" by code_simp+
    then show ?thesis using that by (simp add: served_def)
  qed
  moreover have "volume_of example_pl example_attributes site_policy ''reader'' site_result (sy_world s1) [''a.css''] = Some (EFile ''body'' 292)"
    using css unfolding volume_of_def overlay_def example_pl_simps site_path by simp
  moreover have "w_umask (sy_world started_node) = 18" by code_simp
  ultimately have "look (sy_world s') [''pods'', ''p'', ''mount'', ''a.css''] = Some (EFile ''body'' 292)"
    using vol [of "[''a.css'']"] form(3) by simp
  moreover have "mount_ready example_pl (backend_env_ok (Go_git None example_library)) no_ctx ''web'' (pv_context pod_request) started_node"
    using pl_policies_example pod_request_parses(1) run own example_plain by (simp add: mount_ready_def)
  ultimately show ?thesis using pub that by blast
qed

end
