(* ===== verification/HttpMount.thy ===== *)
theory HttpMount
  imports NodeExample
begin

text \<open>
  A mount over HTTP with a target: the pipeline ends in a symbolic link from the target to the content in the
  cache. The lemmas are proved for every backend that keeps its contract.
\<close>

section \<open>The link\<close>

text \<open>
  Where a link can go: the components are names, what exists of the directories above is directories and
  not links or files, and the place is neither in the cache nor around it.
\<close>

definition link_place :: "config \<Rightarrow> world \<Rightarrow> string list \<Rightarrow> bool" where
  "link_place cfg w T \<longleftrightarrow> list_all name_ok T \<and> open_path w (butlast T) \<and> apart T (cache_root cfg)"

text \<open>The node with a link: the missing directories above it are made with mode 0750, and what was at the place is gone.\<close>

definition linked :: "world \<Rightarrow> string list \<Rightarrow> string \<Rightarrow> string list \<Rightarrow> entry option" where
  "linked w T old x =
     (if x = T then Some (ELink old)
      else if prefix T x then None
      else if strict_prefix x T \<and> look w x = None then Some (EDir (and 488 (not (w_umask w))))
      else look w x)"

lemma safe_target: "safeTargetPath root c = Inr t \<Longrightarrow> IsAbs t \<and> Clean t = t \<and> clean_comps t \<noteq> []"
proof -
  assume safe: "safeTargetPath root c = Inr t"
  then have "IsAbs root" by (auto simp: safeTargetPath_def split: if_splits)
  then have "IsAbs c" "strict_prefix (clean_comps root) (clean_comps c)" "t = Clean c"
    using safe safeTargetPath_spec by blast+
  then show ?thesis by auto
qed

lemma place_not_cache: "apart T R \<Longrightarrow> prefix T x \<or> strict_prefix x T \<Longrightarrow> \<not> prefix R x"
  using prefix_same_cases [of T x R] by (auto simp: apart_def strict_prefix_def dest: prefix_order.trans)

lemma linked_cache:
  assumes "apart T (cache_root cfg)" and "prefix (cache_root cfg) x"
  shows "linked w T old x = look w x"
  using place_not_cache [OF assms(1), of x] assms(2) by (auto simp: linked_def)

lemma link_place_stays:
  assumes "link_place cfg w T" and "only_cache cfg w w'"
  shows "link_place cfg w' T"
proof -
  have "\<not> strict_prefix (cache_root cfg) q" if "prefix q (butlast T)" for q
    using assms(1) prefixeq_butlast [of T] that by (auto simp: link_place_def apart_def strict_prefix_def dest: prefix_order.trans)
  then show ?thesis using assms by (auto simp: link_place_def only_cache_def is_dir_iff open_path_def)
qed

lemma link_target_run:
  assumes safe: "safeTargetPath (pl_target_root pl) tgt = Inr safe" and place: "link_place (pl_cache pl) (sy_world s) (clean_comps safe)"
    and wf: "wf_world (sy_world s)" and old: "list_all name_ok M"
  obtains w' where "link_target pl tgt (abs_path M) s = (Inr (), s\<lparr>sy_world := w'\<rparr>)" and "wf_world w'"
    and "w_umask w' = w_umask (sy_world s)" and "\<And>x. look w' x = linked (sy_world s) (clean_comps safe) (abs_path M) x"
proof -
  let ?T = "clean_comps safe" and ?w = "sy_world s"
  have t: "IsAbs safe" "Clean safe = safe" "?T \<noteq> []" using safe_target [OF safe] by simp_all
  have names: "list_all name_ok ?T" and up: "open_path ?w (butlast ?T)" using place by (simp_all add: link_place_def)
  have path: "safe = abs_path ?T" using Clean_abs_path [OF t(1)] t(2) by simp
  then have dir: "Dir safe = abs_path (butlast ?T)" using Dir_abs [OF names t(3)] by simp
  have "tgt \<noteq> []" using safe by (auto simp: safeTargetPath_def IsAbs_def split: if_splits)
  obtain w0 where mk: "MkdirAll (abs_path (butlast ?T)) private_target_perm ?w = (Inr (), w0)"
    and made: "made ?w (butlast ?T) private_target_perm w0"
    using MkdirAll_open [OF wf up] by blast
  have w0: "wf_world w0" "w_umask w0 = w_umask ?w"
    and look0: "\<And>x. look w0 x = (if prefix x (butlast ?T) \<and> look ?w x = None then Some (EDir (and 488 (not (w_umask ?w)))) else look ?w x)"
    using made by (simp_all add: made_def private_target_perm_def)
  have up0: "is_dir w0 (butlast ?T)" using look0 [of "butlast ?T"] up by (auto simp: open_path_def is_dir_iff)
  obtain w1 where rm: "RemoveAll (abs_path ?T) w0 = (Inr (), w1)" and w1: "wf_world w1" "w_umask w1 = w_umask w0"
    and look1: "\<And>x. look w1 x = (if prefix ?T x then None else look w0 x)"
    using RemoveAll_abs [OF w0(1) _ t(3)] names up0 by (metis reach_def)
  have up1: "is_dir w1 (butlast ?T)" using up0 look1 prefix_butlast_not [OF t(3)] by (simp add: is_dir_iff)
  then have reach: "reach w1 ?T" using names by (simp add: reach_def)
  have bytes: "abs_path M \<noteq> []" "CHR 0x00 \<notin> set (abs_path M)"
    using no_nul_abs_path [OF old] path_string_not_Nil [of M True] name_ok_elems [OF old] by blast+
  let ?w2 = "put ?T (ELink (abs_path M)) w1"
  have sym: "Symlink (abs_path M) (abs_path ?T) w1 = (Inr (), ?w2)"
    using Symlink_abs [OF w1(1) reach _ bytes] look1 by simp
  have "\<not> is_dir w1 ?T" using look1 by (simp add: is_dir_iff)
  then have "wf_world ?w2"
    using names up1 bytes last_in_set [OF t(3)] by (intro wf_put [OF w1(1) t(3)]) (auto simp: entry_ok_def list_all_iff)
  moreover have "link_target pl tgt (abs_path M) s = (Inr (), s\<lparr>sy_world := ?w2\<rparr>)"
    using safe \<open>tgt \<noteq> []\<close> rm sym mk path dir
    by (simp add: link_target_def bindW_def plainly_def liftE_def onW_def ignoring_def)
  moreover have "strict_prefix x ?T \<longleftrightarrow> prefix x (butlast ?T)" for x
    using t(3) by (cases ?T rule: rev_cases) (auto simp: strict_prefix_def)
  then have "look ?w2 x = linked ?w ?T (abs_path M) x" for x
    using look1 look0 by (simp add: linked_def)
  moreover have "w_umask ?w2 = w_umask ?w" using w1 w0 by simp
  ultimately show ?thesis using that by blast
qed

lemma finish_mount_linked:
  assumes "lawful pl" and "cache_ok (pl_cache pl) (sy_world s)"
    and "materialized pol (cache_path (pl_cache pl) a profile) mr (sy_world s)"
    and "look (sy_world s) (content_dir (cache_path (pl_cache pl) a profile) @ [''.gitcontent'']) = None"
    and safe: "safeTargetPath (pl_target_root pl) tgt = Inr safe" and place: "link_place (pl_cache pl) (sy_world s) (clean_comps safe)"
    and run: "finish_mount pl ns tgt a pol profile start mr s = (r, s')"
  shows "r = Inr \<lparr>mo_resolved = mr_resolved mr, mo_policy = p_name pol, mo_source = mr_mounted_path mr\<rparr>
    \<and> cache_ok (pl_cache pl) (sy_world s')
    \<and> (\<forall>x. \<not> strict_prefix (cache_root (pl_cache pl)) x \<longrightarrow>
         look (sy_world s') x = linked (sy_world s) (clean_comps safe) (mr_mounted_path mr) x)"
proof -
  let ?cfg = "pl_cache pl" and ?C = "content_dir (cache_path (pl_cache pl) a profile)" and ?T = "clean_comps safe"
  obtain w1 where wr: "Write (pl_iter pl) (mr_mounted_path mr) (mount_inputs a pol profile mr) (sy_world s) = (Inr (), w1)"
    and c1: "only_cache ?cfg (sy_world s) w1"
    by (rule Write_volume [OF assms(1-4)]) (rule that)
  let ?s1 = "s\<lparr>sy_metrics := (sy_metrics s)
      \<lparr>m_repository_size := Set_gauge [policyHost (at_repo a)] (mr_size_bytes mr) (m_repository_size (sy_metrics s)),
       m_repository_files := Set_gauge [policyHost (at_repo a)] (mr_file_count mr) (m_repository_files (sy_metrics s))\<rparr>,
      sy_world := w1\<rparr>"
  have C: "mr_mounted_path mr = abs_path ?C" "is_dir (sy_world s) ?C" "wf_world (sy_world s)"
    using assms(3) by (simp_all add: materialized_def)
  then have names: "list_all name_ok ?C" using wf_names [OF C(3), of ?C] by (auto simp: is_dir_iff)
  have t1: "link_place ?cfg (sy_world ?s1) ?T" using link_place_stays [OF place c1] by simp
  have apart: "apart ?T (cache_root ?cfg)" using place by (simp add: link_place_def)
  have ok1: "cache_ok ?cfg w1" using c1 by (simp add: only_cache_def)
  then have wf1: "wf_world (sy_world ?s1)" by (simp add: cache_ok_def)
  obtain w2 where ln: "link_target pl tgt (mr_mounted_path mr) ?s1 = (Inr (), ?s1\<lparr>sy_world := w2\<rparr>)" and wf2: "wf_world w2"
    and look2: "\<And>x. look w2 x = linked w1 ?T (mr_mounted_path mr) x"
    unfolding C(1) by (rule link_target_run [OF safe t1 wf1 names]) (simp add: that)
  have ok2: "cache_ok ?cfg w2"
    using ok1 wf2 look2 linked_cache [OF apart] by (simp add: cache_ok_def is_dir_iff)
  have ev: "IsAbs (c_root ?cfg)" "Clean (c_root ?cfg) = c_root ?cfg" "is_dir w2 (cache_root ?cfg)"
    "\<And>its. mset (pl_sort pl its) = mset its"
    using ok2 assms(1) by (simp_all add: cache_ok_def lawful_def)
  obtain w3 G where ev3: "Evict (pl_sort pl) ?cfg w2 = (Inr (), w3)" and rem: "removed w2 (cache_root ?cfg) G w3"
    by (rule Evict_removes [OF wf2 ev]) (rule that)
  have c3: "only_cache ?cfg w2 w3" by (rule removed_only_cache [OF ok2 rem])
  have fin: "r = Inr \<lparr>mo_resolved = mr_resolved mr, mo_policy = p_name pol, mo_source = mr_mounted_path mr\<rparr>
      \<and> (\<exists>n. sy_world s' = w3\<lparr>w_ticks := n\<rparr>)"
    using run wr ln ev3
    by (auto simp: finish_mount_def bindW_def plainly_def meter_eq onW_def ret_def ignoring_def observe_mount_eq tick_world)
  have "linked w1 ?T (mr_mounted_path mr) x = linked (sy_world s) ?T (mr_mounted_path mr) x" if "\<not> strict_prefix (cache_root ?cfg) x" for x
    using that c1 by (simp add: linked_def only_cache_def)
  then have "look w3 x = linked (sy_world s) ?T (mr_mounted_path mr) x" if "\<not> strict_prefix (cache_root ?cfg) x" for x
    using that c3 look2 by (simp add: only_cache_def)
  then show ?thesis using fin c3 by (auto simp: only_cache_def)
qed

text \<open>A target that is refused: the metadata is written, and that is all.\<close>

lemma finish_mount_refused:
  assumes "lawful pl" and "cache_ok (pl_cache pl) (sy_world s)"
    and "materialized pol (cache_path (pl_cache pl) a profile) mr (sy_world s)"
    and "look (sy_world s) (content_dir (cache_path (pl_cache pl) a profile) @ [''.gitcontent'']) = None"
    and "tgt \<noteq> []" and "safeTargetPath (pl_target_root pl) tgt = Inl t"
    and run: "finish_mount pl ns tgt a pol profile start mr s = (r, s')"
  shows "r = Inl (OtherError (Plain t)) \<and> only_cache (pl_cache pl) (sy_world s) (sy_world s')"
proof -
  obtain w1 where "Write (pl_iter pl) (mr_mounted_path mr) (mount_inputs a pol profile mr) (sy_world s) = (Inr (), w1)"
    and "only_cache (pl_cache pl) (sy_world s) w1"
    by (rule Write_volume [OF assms(1-4)]) (rule that)
  then show ?thesis
    using run assms(5,6)
    by (auto simp: finish_mount_def link_target_def bindW_def plainly_def liftE_def meter_eq onW_def)
qed

section \<open>The mount\<close>

text \<open>An error of the pipeline never has the status of a success.\<close>

lemma error_status: "materialize pl ctx ns tgt raw s = (Inl e, s') \<Longrightarrow> http_status e \<noteq> 200"
  using materialize_error [of pl ctx ns tgt raw s e s']
  by (auto simp: http_status_def badRequest_def forbidden_def Let_def split: if_splits)

context backend
begin

lemma materialize_linked:
  assumes pl: "pl_mat pl = mat e" "lawful pl" and ok: "cache_ok (pl_cache pl) (sy_world s)"
    and safe: "safeTargetPath (pl_target_root pl) tgt = Inr safe" and place: "link_place (pl_cache pl) (sy_world s) (clean_comps safe)"
    and ready: "mount_ready pl (env_ok e) ctx ns raw s" and run: "materialize pl ctx ns tgt raw s = (r, s')"
  shows "(\<exists>err. r = Inl err) \<and> only_cache (pl_cache pl) (sy_world s) (sy_world s')
         \<and> (\<forall>a pol profile mr s1. \<not> mounted pl ctx ns raw s a pol profile mr s1)
    \<or> (\<exists>res a pol profile mr s1. r = Inr res \<and> mounted pl ctx ns raw s a pol profile mr s1
         \<and> mo_resolved res = mr_resolved mr \<and> mo_policy res = p_name pol \<and> cache_ok (pl_cache pl) (sy_world s')
         \<and> (\<forall>x. \<not> strict_prefix (cache_root (pl_cache pl)) x \<longrightarrow> look (sy_world s') x
              = linked (sy_world s) (clean_comps safe) (abs_path (content_dir (cache_path (pl_cache pl) a profile))) x))"
proof (cases rule: materialize_cases [OF pl(1) ok ready run])
  case (1 err)
  then show ?thesis by blast
next
  case (2 a pol profile mr s1)
  let ?C = "abs_path (content_dir (cache_path (pl_cache pl) a profile))"
  have content: "materialized pol (cache_path (pl_cache pl) a profile) mr (sy_world s1)" using 2(1) by (simp add: mounted_def)
  have ok1: "cache_ok (pl_cache pl) (sy_world s1)" using 2(2) by (simp add: only_cache_def)
  have at: "mr_mounted_path mr = ?C" using content by (simp add: materialized_def)
  note out = finish_mount_linked [OF pl(2) ok1 content 2(3) safe link_place_stays [OF place 2(2)] 2(4), unfolded at]
  have "linked (sy_world s1) (clean_comps safe) ?C x = linked (sy_world s) (clean_comps safe) ?C x"
    if "\<not> strict_prefix (cache_root (pl_cache pl)) x" for x
    using that 2(2) by (simp add: linked_def only_cache_def)
  then show ?thesis using out 2(1) by fastforce
qed

lemma materialize_refused:
  assumes pl: "pl_mat pl = mat e" "lawful pl" and ok: "cache_ok (pl_cache pl) (sy_world s)"
    and "tgt \<noteq> []" and "safeTargetPath (pl_target_root pl) tgt = Inl t"
    and ready: "mount_ready pl (env_ok e) ctx ns raw s" and run: "materialize pl ctx ns tgt raw s = (r, s')"
  shows "(\<exists>err. r = Inl err) \<and> only_cache (pl_cache pl) (sy_world s) (sy_world s')"
proof (cases rule: materialize_cases [OF pl(1) ok ready run])
  case (1 err)
  then show ?thesis by blast
next
  case (2 a pol profile mr s1)
  have content: "materialized pol (cache_path (pl_cache pl) a profile) mr (sy_world s1)" using 2(1) by (simp add: mounted_def)
  have ok1: "cache_ok (pl_cache pl) (sy_world s1)" using 2(2) by (simp add: only_cache_def)
  show ?thesis using finish_mount_refused [OF pl(2) ok1 content 2(3) assms(4,5) 2(4)] only_cache_trans [OF 2(2)] by blast
qed

end

section \<open>The property\<close>

text \<open>
  C5. A mount over HTTP with a target that \<^verbatim>\<open>safeTargetPath\<close> accepts, where each directory above the target is a directory
  or missing, away from the cache: the answer is 200 exactly when the policies allow the request and the backend delivers
  its content, and it names the resolved revision and the policy. The target is then a symbolic link to the content directory of the
  cache entry of the request, whatever was there before is gone, the missing directories above it are made with mode
  0750, and nothing else outside the cache has changed. With any other status nothing outside the cache has changed.
\<close>

theorem http_mount_links:
  assumes "pl_mat pl = backend_mat b" and "lawful pl" and "cache_ok (pl_cache pl) (sy_world s)"
    and "safeTargetPath (pl_target_root pl) (mq_target_path req) = Inr safe" and T: "T = clean_comps safe"
    and "link_place (pl_cache pl) (sy_world s) T"
    and "mount_ready pl (backend_env_ok b) ctx (mq_namespace req) (mq_volume_attributes req) s"
    and run: "handle_mount pl ctx ''POST'' (Inr req) s = ((code, resp), s')"
  shows "if code = 200
    then \<exists>a pol profile mr s1. mounted pl ctx (mq_namespace req) (mq_volume_attributes req) s a pol profile mr s1
         \<and> resp = Some \<lparr>ms_success = True, ms_message = ''mounted'', ms_resolved = mr_resolved mr, ms_policy = p_name pol\<rparr>
         \<and> (\<forall>x. \<not> strict_prefix (cache_root (pl_cache pl)) x \<longrightarrow> look (sy_world s') x =
              (if x = T then Some (ELink (abs_path (content_dir (cache_path (pl_cache pl) a profile))))
               else if prefix T x then None
               else if strict_prefix x T \<and> look (sy_world s) x = None then Some (EDir (and 488 (not (w_umask (sy_world s)))))
               else look (sy_world s) x))
    else (\<forall>x. \<not> strict_prefix (cache_root (pl_cache pl)) x \<longrightarrow> look (sy_world s') x = look (sy_world s) x)
         \<and> (\<forall>a pol profile mr s1. \<not> mounted pl ctx (mq_namespace req) (mq_volume_attributes req) s a pol profile mr s1)"
proof -
  obtain r where mat: "materialize pl ctx (mq_namespace req) (mq_target_path req) (mq_volume_attributes req) s = (r, s')"
    using run by (auto simp: handle_mount_def split: prod.splits sum.splits)
  note out = driver.materialize_linked [OF assms(1-4) assms(6) [unfolded T] assms(7) mat, folded T]
  show ?thesis
  proof (cases r)
    case (Inl err)
    then have "code \<noteq> 200" using run mat error_status by (auto simp: handle_mount_def)
    then show ?thesis using out Inl by (auto simp: only_cache_def)
  next
    case (Inr res)
    then have "code = 200" "resp = Some \<lparr>ms_success = True, ms_message = ''mounted'', ms_resolved = mo_resolved res, ms_policy = mo_policy res\<rparr>"
      using run mat by (simp_all add: handle_mount_def)
    moreover from out Inr obtain a pol profile mr s1
      where m: "mounted pl ctx (mq_namespace req) (mq_volume_attributes req) s a pol profile mr s1"
      and "mo_resolved res = mr_resolved mr \<and> mo_policy res = p_name pol"
      and x: "\<forall>x. \<not> strict_prefix (cache_root (pl_cache pl)) x \<longrightarrow> look (sy_world s') x
              = linked (sy_world s) T (abs_path (content_dir (cache_path (pl_cache pl) a profile))) x" by auto
    ultimately show ?thesis
      unfolding if_P [OF \<open>code = 200\<close>] by (intro exI [of _ a] exI [of _ pol] exI [of _ profile] exI [of _ mr] exI [of _ s1] conjI m x [unfolded linked_def]) simp
  qed
qed

text \<open>The site mounted over HTTP, with the directory of the pods as the root of the targets.\<close>

abbreviation http_pl :: pipeline where
  "http_pl \<equiv> example_pl\<lparr>pl_target_root := ''/pods''\<rparr>"

definition site_body :: mount_body where
  "site_body = \<lparr>mq_namespace = ''web'', mq_target_path = ''/pods/p/links/site'', mq_volume_attributes = pv_context pod_request\<rparr>"

lemma http_pl_same:
  "entry_run http_pl = entry_run example_pl" "decision http_pl = decision example_pl" "lawful http_pl = lawful example_pl"
  by (simp_all add: entry_run_def looked_up_def decision_def lawful_def fun_eq_iff)

theorem http_mount_links_witness:
  "\<exists>s' resp. handle_mount http_pl no_ctx ''POST'' (Inr site_body) started_node = ((200, Some resp), s') \<and> ms_success resp
     \<and> look (sy_world s') [''pods'', ''p'', ''links''] = Some (EDir 488)
     \<and> look (sy_world s') [''pods'', ''p'', ''links'', ''site''] = Some (ELink (''/cache/'' @ site_entry @ ''/content''))"
proof -
  let ?T = "[''pods'', ''p'', ''links'', ''site'']"
  obtain code resp s' where run: "handle_mount http_pl no_ctx ''POST'' (Inr site_body) started_node = ((code, resp), s')"
    by (metis prod_cases3 prod.collapse)
  obtain s1 where entry: "entry_run example_pl no_ctx example_attributes site_policy ''reader'' started_node = (Inr site_result, s1)"
    by (rule example_conditions) (rule that)
  let ?link = "Some (ELink (''/cache/'' @ site_entry @ ''/content''))"
  have ready0: "mount_ready example_pl (backend_env_ok (Go_git None example_library)) no_ctx ''web'' (pv_context pod_request) started_node"
    by (rule site_published)
  have mat: "pl_mat http_pl = backend_mat (Go_git None example_library)" "lawful http_pl" using example_lawful by (simp_all add: http_pl_same)
  have ready: "mount_ready http_pl (backend_env_ok (Go_git None example_library)) no_ctx (mq_namespace site_body) (mq_volume_attributes site_body) started_node"
    using ready0 by (simp add: mount_ready_def http_pl_same site_body_def)
  have safe: "safeTargetPath (pl_target_root http_pl) (mq_target_path site_body) = Inr ''/pods/p/links/site''"
    "?T = clean_comps ''/pods/p/links/site''" "list_all name_ok ?T" "cache_root (plugin_config ''/cache'') = [''cache'']"
    by code_simp+
  have world: "look pods_world [''pods''] = Some (EDir 493)" "look pods_world [''pods'', ''p''] = Some (EDir 493)"
    "look pods_world [''pods'', ''p'', ''links''] = None" "w_umask pods_world = 18" by code_simp+
  have "open_path pods_world ([''pods'', ''p''] @ [''links''])"
    using safe(3) world pods_facts by (intro open_below) (auto simp: is_dir_iff prefix_Cons)
  then have node: "cache_ok (pl_cache http_pl) (sy_world started_node)" "link_place (pl_cache http_pl) (sy_world started_node) ?T"
    using example_cache_ok safe(3,4) by (simp_all add: link_place_def started_node_def apart_def)
  note out = http_mount_links [OF mat node(1) safe(1,2) node(2) ready run]
  have dec: "decision example_pl ''web'' example_attributes
      = (\<lparr>res_allowed = True, res_resolved_profile = ''reader'', res_denial_reason_code = [], res_denial_reason = []\<rparr>, site_policy)"
    by (rule pl_policies_example)
  have parse: "Parse (pv_context pod_request) = Inr example_attributes" by (rule pod_request_parses(1))
  have W: "work_ready (sy_world (looked_up example_pl example_attributes ''reader'' (tick started_node))) (cache_path (pl_cache example_pl) example_attributes ''reader'')"
    using cache_work_ready [of "pl_cache example_pl" "sy_world (tick (tick started_node))"] example_cache_ok by (simp add: tick_world)
  have "backend_mat (Go_git None example_library) (mount_ctx no_ctx site_policy (tick started_node)) example_attributes site_policy
      (cache_path (pl_cache example_pl) example_attributes ''reader'') (looked_up example_pl example_attributes ''reader'' (tick started_node)) = (Inr site_result, s1)"
    using entry by (simp add: entry_run_def)
  from driver.mat_content [OF _ W this] have "mounted http_pl no_ctx ''web'' (pv_context pod_request) started_node example_attributes site_policy ''reader'' site_result s1"
    using example_plain entry dec parse by (simp add: mounted_def http_pl_same)
  then have "code = 200" using out by (auto simp: site_body_def split: if_splits)
  note out = out [unfolded if_P [OF this]]
  then obtain a pol profile mr s2 where m: "mounted http_pl no_ctx ''web'' (pv_context pod_request) started_node a pol profile mr s2"
    and resp: "resp = Some \<lparr>ms_success = True, ms_message = ''mounted'', ms_resolved = mr_resolved mr, ms_policy = p_name pol\<rparr>"
    and link: "\<forall>x. \<not> strict_prefix [''cache''] x \<longrightarrow> look (sy_world s') x =
      linked pods_world ?T (abs_path (content_dir (cache_path (plugin_config ''/cache'') a profile))) x"
    using out safe(4) by (auto simp: site_body_def linked_def started_node_def)
  have "a = example_attributes" "profile = ''reader''" using m dec parse by (auto simp: mounted_def http_pl_same)
  moreover have "abs_path [''cache'', site_entry, ''content''] = ''/cache/'' @ site_entry @ ''/content''" by code_simp
  moreover have "content_dir (cache_path (plugin_config ''/cache'') example_attributes ''reader'') = [''cache'', site_entry, ''content'']"
    unfolding site_path by (rule refl)
  ultimately have "look (sy_world s') x = linked pods_world ?T (''/cache/'' @ site_entry @ ''/content'') x"
    if "\<not> strict_prefix [''cache''] x" for x using link [rule_format, OF that] by (simp only:)
  then have "look (sy_world s') ?T = ?link" "look (sy_world s') [''pods'', ''p'', ''links''] = Some (EDir 488)"
    using world by (simp_all add: linked_def)
  then show ?thesis using run resp \<open>code = 200\<close> by auto
qed

end
