(* ===== verification/Lifecycle.thy ===== *)
theory Lifecycle
  imports HttpMount Walks
begin

text \<open>
  The life of the node plugin: it starts, and then publishes and unpublishes volumes, answers mounts over HTTP
  and shares its file system with others, in any order.
\<close>

section \<open>Publishing refines the abstract state\<close>

text \<open>
  C1. Publishing refines an abstract operation on the map of served volumes. From a state that holds some
  volumes, a call for a target that is not inside one of them nor around one ends in a state that holds the same
  volumes with that target updated: after a success by the read-only volume of the content that an allowed
  request made the backend deliver, and after a failure by none.
\<close>

theorem NodePublishVolume_refines:
  assumes "pl_mat pl = backend_mat e" and "lawful pl" and "holds (pl_cache pl) v (sy_world s)"
    and "target_ok (pl_cache pl) (sy_world s) (pv_target_path req)" and "target_free v (clean_comps (pv_target_path req))"
    and "mount_ready pl (backend_env_ok e) ctx (pod_namespace (pv_context req)) (pv_context req) s"
    and "NodePublishVolume pl ctx req s = (r, s')"
  shows "r \<noteq> Inr () \<and> holds (pl_cache pl) (v(clean_comps (pv_target_path req) := None)) (sy_world s')
    \<or> r = Inr () \<and> (\<exists>a pol profile mr s1.
         mounted pl ctx (pod_namespace (pv_context req)) (pv_context req) s a pol profile mr s1
         \<and> holds (pl_cache pl) (v(clean_comps (pv_target_path req) \<mapsto>
               served (w_umask (sy_world s)) (volume_of pl a pol profile mr (sy_world s1)))) (sy_world s'))"
  by (rule driver.publish_holds [OF assms])

section \<open>Steps of a node\<close>

text \<open>
  A state is the system with the volumes that were published, each as it was when its publication returned, and neither
  unpublished nor replaced since. The steps are whole calls: the kubelet publishes and unpublishes, anyone mounts over HTTP, with a target or
  without, and others do what they like outside the cache and the volumes.

  An HTTP mount replaces what stands at its target. It takes from the state each volume its target is in or around,
  when it answers 200, and no other.
\<close>

type_synonym node_state = "sys \<times> volumes"

definition http_place :: "pipeline \<Rightarrow> mount_body result \<Rightarrow> string list option" where
  "http_place pl body =
     (case body of
        Inl _ \<Rightarrow> None
      | Inr req \<Rightarrow>
          if mq_target_path req = [] then None
          else (case safeTargetPath (pl_target_root pl) (mq_target_path req) of Inl _ \<Rightarrow> None | Inr t \<Rightarrow> Some (clean_comps t)))"

definition after_http :: "pipeline \<Rightarrow> mount_body result \<Rightarrow> int \<Rightarrow> volumes \<Rightarrow> volumes" where
  "after_http pl body code v =
     (case http_place pl body of
        Some T \<Rightarrow> if code = 200 then v |` {T'. apart T' T} else v
      | None \<Rightarrow> v)"

text \<open>
  What the steps assume. For a call that mounts, \<open>mount_ready\<close>: what the backend relies on (\<open>ok\<close>), and that the
  content it delivers has no entry \<^verbatim>\<open>.gitcontent\<close> of its own. For a target of the kubelet, \<open>target_ok\<close>: it is absolute, clean and
  away from the cache, its parent is a directory, and it is not inside another volume or around one. For the target of an HTTP
  mount that is accepted, \<open>link_place\<close>: it is away from the cache, and each directory above it is a directory or missing.
\<close>

inductive node_step :: "pipeline \<Rightarrow> (attributes \<Rightarrow> string \<Rightarrow> world \<Rightarrow> bool) \<Rightarrow> node_state \<Rightarrow> node_state \<Rightarrow> bool"
  for pl ok where
  published: "target_ok (pl_cache pl) (sy_world s) (pv_target_path req) \<Longrightarrow> target_free v (clean_comps (pv_target_path req)) \<Longrightarrow>
     mount_ready pl ok ctx (pod_namespace (pv_context req)) (pv_context req) s \<Longrightarrow>
     NodePublishVolume pl ctx req s = (Inr (), s') \<Longrightarrow> T = clean_comps (pv_target_path req) \<Longrightarrow>
     node_step pl ok (s, v) (s', v(T \<mapsto> volume_at (sy_world s') T))"
| failed: "target_ok (pl_cache pl) (sy_world s) (pv_target_path req) \<Longrightarrow> target_free v (clean_comps (pv_target_path req)) \<Longrightarrow>
     mount_ready pl ok ctx (pod_namespace (pv_context req)) (pv_context req) s \<Longrightarrow>
     NodePublishVolume pl ctx req s = (Inl err, s') \<Longrightarrow>
     node_step pl ok (s, v) (s', v(clean_comps (pv_target_path req) := None))"
| malformed: "\<not> publish_well_formed req \<Longrightarrow> NodePublishVolume pl ctx req s = (r, s') \<Longrightarrow> node_step pl ok (s, v) (s', v)"
| unpublished: "target_ok (pl_cache pl) (sy_world s) target \<Longrightarrow> target_free v (clean_comps target) \<Longrightarrow>
     NodeUnpublishVolume target s = (r, s') \<Longrightarrow> node_step pl ok (s, v) (s', v(clean_comps target := None))"
| http: "handle_mount pl ctx meth body s = ((code, resp), s') \<Longrightarrow>
     (\<And>req. body = Inr req \<Longrightarrow> mount_ready pl ok ctx (mq_namespace req) (mq_volume_attributes req) s) \<Longrightarrow>
     (\<And>T. http_place pl body = Some T \<Longrightarrow> link_place (pl_cache pl) (sy_world s) T) \<Longrightarrow>
     node_step pl ok (s, v) (s', after_http pl body code v)"
| elsewhere: "wf_world w \<Longrightarrow>
     (\<And>x. prefix (cache_root (pl_cache pl)) x \<or> (\<exists>T \<in> dom v. prefix T x) \<Longrightarrow> look w x = look (sy_world s) x) \<Longrightarrow>
     node_step pl ok (s, v) (s\<lparr>sy_world := w\<rparr>, v)"

inductive_cases node_stepE: "node_step pl ok (s, v) (s', v')"

lemma malformed_same: "\<not> publish_well_formed req \<Longrightarrow> NodePublishVolume pl ctx req s = (r, s') \<Longrightarrow> s' = s"
  by (auto simp: NodePublishVolume_def publish_well_formed_def split: if_splits)

lemma only_cache_holds:
  assumes "holds cfg v w" and "only_cache cfg w w'"
  shows "holds cfg v w'"
proof -
  have "volume_at w' T = volume_at w T" if "v T = Some vol" for T vol
  proof -
    have "apart T (cache_root cfg)" using assms(1) that by (auto simp: holds_def)
    then have "\<not> strict_prefix (cache_root cfg) (T @ q)" for q using apart_below by (auto simp: strict_prefix_def)
    then show ?thesis using assms(2) by (simp add: only_cache_def volume_at_def fun_eq_iff)
  qed
  then show ?thesis using assms by (simp add: holds_def only_cache_def)
qed

lemma linked_apart:
  assumes "apart T' T" and "prefix T' x"
  shows "linked w T old x = look w x"
  using place_not_cache [of T T' x] assms apart_sym by (auto simp: linked_def)

lemma linked_holds:
  assumes "holds cfg v w" and "cache_ok cfg w'"
    and "\<And>x. \<not> strict_prefix (cache_root cfg) x \<Longrightarrow> look w' x = linked w T old x"
  shows "holds cfg (v |` {T'. apart T' T}) w'"
proof -
  have "volume_at w' T' = volume_at w T'" if "v T' = Some vol" "apart T' T" for T' vol
  proof -
    have "apart T' (cache_root cfg)" using assms(1) that by (auto simp: holds_def)
    then have "\<not> strict_prefix (cache_root cfg) (T' @ q)" for q using apart_below by (auto simp: strict_prefix_def)
    then show ?thesis using assms(3) linked_apart [OF that(2)] by (simp add: volume_at_def fun_eq_iff)
  qed
  then show ?thesis using assms(1,2) by (auto simp: holds_def restrict_map_def dom_def split: if_splits)
qed

lemma handle_mount_outcome:
  assumes run: "handle_mount pl ctx meth body s = ((code, resp), s')"
  shows "s' = s \<and> code \<noteq> 200
    \<or> (\<exists>req r. body = Inr req \<and> (code = 200) = is_ok r
         \<and> materialize pl ctx (mq_namespace req) (mq_target_path req) (mq_volume_attributes req) s = (r, s'))"
proof (cases body)
  case (Inr req)
  obtain r s1 where m: "materialize pl ctx (mq_namespace req) (mq_target_path req) (mq_volume_attributes req) s = (r, s1)" by fastforce
  show ?thesis
  proof (cases r)
    case (Inl e)
    then show ?thesis using run m Inr error_status [of pl ctx _ _ _ s e s1] by (auto simp: handle_mount_def split: if_splits)
  next
    case r: (Inr res)
    then show ?thesis using run m Inr by (auto simp: handle_mount_def split: if_splits)
  qed
qed (use run in \<open>auto simp: handle_mount_def split: if_splits\<close>)

context backend
begin

lemma http_holds:
  assumes pl: "pl_mat pl = mat e" "lawful pl" and v: "holds (pl_cache pl) v (sy_world s)"
    and run: "handle_mount pl ctx meth body s = ((code, resp), s')"
    and ready: "\<And>req. body = Inr req \<Longrightarrow> mount_ready pl (env_ok e) ctx (mq_namespace req) (mq_volume_attributes req) s"
    and place: "\<And>T. http_place pl body = Some T \<Longrightarrow> link_place (pl_cache pl) (sy_world s) T"
  shows "holds (pl_cache pl) (after_http pl body code v) (sy_world s')"
proof -
  have ok: "cache_ok (pl_cache pl) (sy_world s)" using v by (simp add: holds_def)
  consider "s' = s" "code \<noteq> 200" | req r where "body = Inr req" "(code = 200) = is_ok r"
      "materialize pl ctx (mq_namespace req) (mq_target_path req) (mq_volume_attributes req) s = (r, s')"
    using handle_mount_outcome [OF run] by blast
  then show ?thesis
  proof cases
    case 1
    then show ?thesis using v by (simp add: after_http_def split: option.split)
  next
    case (2 req r)
    note ready = ready [OF 2(1)]
    consider "mq_target_path req = []" | t where "mq_target_path req \<noteq> []" "safeTargetPath (pl_target_root pl) (mq_target_path req) = Inl t"
      | t where "mq_target_path req \<noteq> []" "safeTargetPath (pl_target_root pl) (mq_target_path req) = Inr t"
      by (cases "safeTargetPath (pl_target_root pl) (mq_target_path req)") auto
    then show ?thesis
    proof cases
      case 1
      then have "only_cache (pl_cache pl) (sy_world s) (sy_world s')" using materialize_volume [OF pl ok ready] 2(3) by simp
      then show ?thesis using only_cache_holds [OF v] 1 2(1) by (simp add: after_http_def http_place_def)
    next
      case (2 t)
      then have "only_cache (pl_cache pl) (sy_world s) (sy_world s')"
        using materialize_refused [OF pl ok 2 ready] \<open>materialize pl ctx _ _ _ s = (r, s')\<close> by blast
      then show ?thesis using only_cache_holds [OF v] 2 \<open>body = Inr req\<close> by (simp add: after_http_def http_place_def)
    next
      case (3 t)
      then have at: "http_place pl body = Some (clean_comps t)" using 2(1) by (simp add: http_place_def)
      from materialize_linked [OF pl ok 3(2) place [OF at] ready 2(3)] show ?thesis
        using only_cache_holds [OF v] linked_holds [OF v] 2(2) at by (auto simp: after_http_def)
    qed
  qed
qed

lemma node_step_holds:
  assumes pl: "pl_mat pl = mat e" "lawful pl" and v: "holds (pl_cache pl) v (sy_world s)"
    and step: "node_step pl (env_ok e) (s, v) (s', v')"
  shows "holds (pl_cache pl) v' (sy_world s')"
proof (rule node_stepE [OF step], goal_cases)
  case (1 req ctx)
  let ?T = "clean_comps (pv_target_path req)"
  obtain vol where new: "holds (pl_cache pl) (v(?T \<mapsto> vol)) (sy_world s')"
    using publish_holds [OF pl v 1(2-5)] by blast
  then have "vol = volume_at (sy_world s') ?T" using holds_volume [OF new, of ?T vol] by (simp add: volume_at_def fun_eq_iff)
  then show ?case using new 1(1) by simp
next
  case (2 req ctx err)
  then show ?case using publish_holds [OF pl v 2(2-5)] by simp
next
  case (3 req ctx r)
  then show ?case using malformed_same v by blast
next
  case (4 target r)
  then show ?case using unpublish_holds [OF v] by blast
next
  case (5 ctx meth body code resp)
  then show ?case using http_holds [OF pl v 5(2)] by blast
next
  case (6 w)
  have "volume_at w T = volume_at (sy_world s) T" if "v T = Some vol" for T vol
  proof -
    have "\<exists>T' \<in> dom v. prefix T' (T @ q)" for q using that by (intro bexI [of _ T]) auto
    then show ?thesis using 6(2) by (simp add: volume_at_def fun_eq_iff)
  qed
  moreover have "cache_ok (pl_cache pl) w" using v 6(1,2) by (simp add: holds_def cache_ok_def is_dir_iff)
  ultimately show ?case using v 6(3,4) by (simp add: holds_def)
qed

lemma node_run_holds:
  assumes "pl_mat pl = mat e" and "lawful pl" and "(node_step pl (env_ok e))\<^sup>*\<^sup>* c c'"
    and "holds (pl_cache pl) (snd c) (sy_world (fst c))"
  shows "holds (pl_cache pl) (snd c') (sy_world (fst c'))"
  using assms(3,4)
proof (induction rule: rtranclp_induct)
  case (step c1 c2)
  then show ?case using node_step_holds [OF assms(1,2), of "snd c1" "fst c1" "fst c2" "snd c2"] by simp
qed simp

end

section \<open>From the start\<close>

definition start_state :: "('r, 't) plugin \<Rightarrow> world \<Rightarrow> sys" where
  "start_state pg w = \<lparr>sy_world = w, sy_log = [], sy_metrics = pg_metrics pg\<rparr>"

text \<open>A node the plugin can start on: the cache directory is missing or holds nothing but directories.\<close>

definition node_ready :: "('r, 't) host \<Rightarrow> world \<Rightarrow> bool" where
  "node_ready h w \<longleftrightarrow>
     work_ready w (host_cache_dir h)
     \<and> (\<forall>n. look w (clean_comps (host_cache_dir h) @ [n]) \<noteq> None \<longrightarrow> is_dir w (clean_comps (host_cache_dir h) @ [n]))
     \<and> (\<forall>its. mset (ho_sort h its) = mset its) \<and> (\<forall>xs. mset (ho_iter h xs) = mset xs)"

lemma started:
  assumes "start_plugin h w = (Inr pg, w')" and "node_ready h w"
  shows "lawful (sv_pipeline (pg_server pg))" and "cache_ok (pl_cache (sv_pipeline (pg_server pg))) w'"
    and "pl_mat (sv_pipeline (pg_server pg)) = backend_mat (pg_backend pg)"
proof -
  let ?pl = "sv_pipeline (pg_server pg)" and ?D = "clean_comps (host_cache_dir h)"
  obtain mat where mk: "MkdirAll (host_cache_dir h) privateDirPerm w = (Inr (), w')"
    and pl: "pl_cache ?pl = plugin_config (host_cache_dir h)" "pl_sort ?pl = ho_sort h" "pl_iter ?pl = ho_iter h"
    and mat: "pg_backend pg = mat" "pl_mat ?pl = backend_mat mat"
    by (rule start_plugin_result [OF assms(1)]) (rule that)
  show "lawful ?pl" using pl assms(2) by (simp add: lawful_def node_ready_def)
  show "pl_mat ?pl = backend_mat (pg_backend pg)" using mat by simp
  have work: "work_ready w (host_cache_dir h)" using assms(2) by (simp add: node_ready_def)
  obtain w1 where "MkdirAll (host_cache_dir h) privateDirPerm w = (Inr (), w1)" "work_open w (host_cache_dir h) w1"
    and same: "\<And>x. x \<noteq> ?D \<Longrightarrow> look w1 x = look w x"
    by (rule MkdirAll_work [OF work]) (rule that)
  then have "work_open w (host_cache_dir h) w'" "w1 = w'" using mk by simp_all
  moreover have "look w' (?D @ [n]) = look w (?D @ [n])" for n using same [of "?D @ [n]"] \<open>w1 = w'\<close> by simp
  ultimately show "cache_ok (pl_cache ?pl) w'"
    using assms(2) work unfolding pl(1)
    by (simp add: cache_ok_def plugin_config_def work_open_def work_ready_def node_ready_def is_dir_iff)
qed

text \<open>
  C39. What the plugin starts with. When it starts, its cache is a directory of at most 10 GiB and 24 hours, every policy it loaded
  has its limits in force, the node has a name and HTTP targets a root, and the backend is the git program exactly when the
  environment asks for it, with the user and group checked for the other one.
\<close>

theorem start_plugin_ready:
  assumes "start_plugin h w = (Inr pg, w')" and "node_ready h w"
  shows "cache_ok (pl_cache (sv_pipeline (pg_server pg))) w'
    \<and> c_root (pl_cache (sv_pipeline (pg_server pg))) = host_cache_dir h
    \<and> c_max_size (pl_cache (sv_pipeline (pg_server pg))) = 10 * 1024 ^ 3
    \<and> c_max_age (pl_cache (sv_pipeline (pg_server pg))) = seconds (24 * 3600)
    \<and> list_all limits_set (pl_policies (sv_pipeline (pg_server pg)))
    \<and> sv_node_id (pg_server pg) \<noteq> [] \<and> pl_target_root (sv_pipeline (pg_server pg)) \<noteq> []
    \<and> pl_mat (sv_pipeline (pg_server pg)) = backend_mat (pg_backend pg)
    \<and> (case pg_backend pg of
         Git_binary env \<Rightarrow> Getenv (ho_environ h) ''GITCONTENT_BACKEND'' = ''git'' \<and> ho_look_path h ''git'' = Inr (ge_path env)
       | Go_git b g \<Rightarrow> Getenv (ho_environ h) ''GITCONTENT_BACKEND'' \<in> {[], ''go-git''} \<and> NewGoGit (ho_environ h) = Inr b)"
proof -
  let ?pl = "sv_pipeline (pg_server pg)"
  obtain policies mat where load: "LoadPolicies (ho_read_file h) (ho_unmarshal h)
        (getenv (ho_environ h) ''GITCONTENT_POLICY_FILE'' ''./examples/policies.yaml'') = Inr policies"
    and new: "newMaterializer h (getenv (ho_environ h) ''GITCONTENT_BACKEND'' ''go-git'') = Inr mat"
    and pl: "pg_backend pg = mat" "pl_policies ?pl = policies" "pl_cache ?pl = plugin_config (host_cache_dir h)"
      "pl_target_root ?pl = getenv (ho_environ h) ''GITCONTENT_TARGET_ROOT'' ''/var/lib/kubelet''"
      "sv_node_id (pg_server pg) = getenv (ho_environ h) ''NODE_ID'' (hostname (ho_hostname h))"
    by (rule start_plugin_result [OF assms(1)]) (rule that)
  have limits: "list_all limits_set (pl_policies ?pl)" using LoadPolicies_limits [OF load] pl by (simp add: list_all_iff)
  have mat: "case mat of
         Git_binary env \<Rightarrow> Getenv (ho_environ h) ''GITCONTENT_BACKEND'' = ''git'' \<and> ho_look_path h ''git'' = Inr (ge_path env)
       | Go_git b g \<Rightarrow> Getenv (ho_environ h) ''GITCONTENT_BACKEND'' \<in> {[], ''go-git''} \<and> NewGoGit (ho_environ h) = Inr b"
    using new by (auto simp: newMaterializer_def getenv_def Let_def bindE_def New_git_binary_def host_git_def split: if_splits sum.splits)
  show ?thesis
    using started [OF assms] limits mat pl
    by (simp add: plugin_config_def seconds_def getenv_nonempty hostname_nonempty)
qed

text \<open>
  C2. A served volume stays as it is. Start the plugin, and let the kubelet publish and unpublish, anyone mount over HTTP with a target or
  without, and others change files outside the cache and the volumes, in any order of whole calls that meet the conditions of
  \<open>node_step\<close>: no repository mounted has a \<^verbatim>\<open>.gitcontent\<close> of its own, and targets are away from the cache and not reached
  through links. At every moment each volume that was published, and was neither unpublished nor replaced by an HTTP mount
  whose target is in it or around it, holds exactly what it held when its publication returned, and nothing in it is writable, special or named
  \<^verbatim>\<open>.git\<close>.
\<close>

theorem volumes_stay:
  assumes "start_plugin h w = (Inr pg, w0)" and "node_ready h w"
    and "(node_step (sv_pipeline (pg_server pg)) (backend_env_ok (pg_backend pg)))\<^sup>*\<^sup>* (start_state pg w0, Map.empty) (s, v)"
    and "v T = Some vol"
  shows "look (sy_world s) (T @ q) = vol q
    \<and> (vol q = Some e \<longrightarrow> \<not> writable e \<and> kind_of e \<noteq> KSpecial \<and> ''.git'' \<notin> set q)"
proof -
  let ?pl = "sv_pipeline (pg_server pg)"
  have "holds (pl_cache ?pl) Map.empty w0" using started(2) [OF assms(1,2)] by (simp add: holds_def)
  then have "holds (pl_cache ?pl) v (sy_world s)"
    using driver.node_run_holds [OF started(3,1) [OF assms(1,2)] assms(3)] by (simp add: start_state_def)
  then show ?thesis using holds_volume [of _ v "sy_world s" T vol] assms(4) by (auto simp: read_only_def)
qed

section \<open>A run\<close>

lemma example_node_ready: "node_ready example_host pods_world"
proof -
  have "look pods_world [''cache'', n] = None" for n by (simp add: pods_world_def node_world_def look_def)
  moreover have "clean_comps ''/cache'' = [''cache'']" by code_simp
  moreover have "mset (ho_sort example_host its) = mset its" "mset (ho_iter example_host xs) = mset xs" for its xs
    by (simp_all add: example_host_def)
  ultimately show ?thesis using pods_facts(4) by (simp add: node_ready_def example_cache_dir)
qed

lemma example_start_state: "start_state example_plugin pods_world = started_node"
  by (simp add: start_state_def started_node_def example_plugin_def)

theorem NodePublishVolume_refines_witness:
  "\<exists>s' vol. NodePublishVolume example_pl no_ctx pod_request started_node = (Inr (), s')
     \<and> holds (pl_cache example_pl) [[''pods'', ''p'', ''mount''] \<mapsto> vol] (sy_world s')
     \<and> vol [''a.css''] = Some (EFile ''body'' 292)"
proof -
  obtain s' where run: "NodePublishVolume example_pl no_ctx pod_request started_node = (Inr (), s')"
    and ready: "mount_ready example_pl (backend_env_ok (Go_git None example_library)) no_ctx ''web'' (pv_context pod_request) started_node"
    and css: "look (sy_world s') [''pods'', ''p'', ''mount'', ''a.css''] = Some (EFile ''body'' 292)"
    by (rule site_published) (rule that)
  have target: "clean_comps (pv_target_path pod_request) = [''pods'', ''p'', ''mount'']" by code_simp
  have empty: "holds (pl_cache example_pl) Map.empty (sy_world started_node)" using example_cache_ok by (simp add: holds_def)
  obtain vol where h: "holds (pl_cache example_pl) [[''pods'', ''p'', ''mount''] \<mapsto> vol] (sy_world s')"
    using NodePublishVolume_refines [of example_pl "Go_git None example_library" Map.empty started_node pod_request no_ctx "Inr ()" s']
      example_lawful empty example_target ready run pod_request_parses(2) target by (auto simp: target_free_def)
  then have "vol [''a.css''] = look (sy_world s') ([''pods'', ''p'', ''mount''] @ [''a.css''])"
    using holds_volume [OF h, of "[''pods'', ''p'', ''mount'']" vol] by simp
  then show ?thesis using run h css by auto
qed

theorem start_plugin_ready_witness:
  "\<exists>pg w. start_plugin example_host pods_world = (Inr pg, w) \<and> cache_ok (pl_cache (sv_pipeline (pg_server pg))) w
     \<and> sv_node_id (pg_server pg) = ''node-1'' \<and> length (pl_policies (sv_pipeline (pg_server pg))) = 1"
  using start_plugin_ready [OF example_start example_node_ready] example_start
  by (auto simp: example_plugin_def example_pipeline_def)

theorem volumes_stay_witness:
  "\<exists>s v vol. (node_step example_pl (backend_env_ok (pg_backend example_plugin)))\<^sup>*\<^sup>* (start_state example_plugin pods_world, Map.empty) (s, v)
     \<and> v [''pods'', ''p'', ''mount''] = Some vol \<and> vol [''a.css''] = Some (EFile ''body'' 292)
     \<and> look (sy_world s) [''pods'', ''p'', ''mount'', ''a.css''] = vol [''a.css'']"
proof -
  let ?T = "[''pods'', ''p'', ''mount'']"
  obtain s' where run: "NodePublishVolume example_pl no_ctx pod_request started_node = (Inr (), s')"
    and ready: "mount_ready example_pl (backend_env_ok (Go_git None example_library)) no_ctx ''web'' (pv_context pod_request) started_node"
    and css: "look (sy_world s') [''pods'', ''p'', ''mount'', ''a.css''] = Some (EFile ''body'' 292)"
    by (rule site_published) (rule that)
  have target: "clean_comps (pv_target_path pod_request) = ?T" by code_simp
  have impl: "pg_backend example_plugin = Go_git None example_library" by (simp add: example_plugin_def)
  let ?v = "[?T \<mapsto> volume_at (sy_world s') ?T]"
  have "node_step example_pl (backend_env_ok (pg_backend example_plugin)) (started_node, Map.empty) (s', ?v)"
    by (rule node_step.published [OF _ _ _ run target [symmetric]])
      (use example_target ready pod_request_parses(2) in \<open>simp_all add: target_free_def impl\<close>)
  then have reach: "(node_step example_pl (backend_env_ok (pg_backend example_plugin)))\<^sup>*\<^sup>*
      (start_state example_plugin pods_world, Map.empty) (s', ?v)"
    by (simp add: example_start_state)
  have "look (sy_world s') (?T @ [''a.css'']) = volume_at (sy_world s') ?T [''a.css'']"
    using volumes_stay [OF example_start example_node_ready reach, of ?T "volume_at (sy_world s') ?T" "[''a.css'']"] by simp
  then show ?thesis using reach css by (intro exI [of _ s'] exI [of _ ?v] exI [of _ "volume_at (sy_world s') ?T"]) (simp add: volume_at_def)
qed

section \<open>Entries of the cache\<close>

lemma parsed_line_free: "Parse raw = Inr a \<Longrightarrow> line_free (at_repo a) \<and> line_free (at_revision a)"
  using Parse_spec [of raw a]
  by (auto simp: attributes_spec_def repo_spec_def revision_spec_def blank_bytes_def line_free_def)

definition entry_text :: "attributes \<Rightarrow> string \<Rightarrow> string" where
  "entry_text a profile = key_bytes (mount_parts (at_repo a) (at_revision a) (at_path a) (at_submodules a) (at_lfs a) profile)"

text \<open>
  C16. Two volumes share an entry of the cache exactly when they agree on repository, requested revision, path, submodules,
  LFS and credential profile, unless SHA-256 maps their two different texts to the same value. This is for requests
  that parse, with profiles on one line; depth, revision kind and policy do not separate entries. Nor does the commit the revision
  stands for, which \<^verbatim>\<open>docs/rfc.md\<close> wants in the key: requests for a branch share their entry although the branch has moved between them.
\<close>

theorem cache_entries_separate:
  assumes "Parse raw = Inr a" and "Parse raw' = Inr a'" and "line_free profile" and "line_free profile'" and "cache_ok cfg w"
  shows "cache_path cfg a profile = cache_path cfg a' profile' \<longleftrightarrow>
      at_repo a = at_repo a' \<and> at_revision a = at_revision a' \<and> at_path a = at_path a'
        \<and> at_submodules a = at_submodules a' \<and> at_lfs a = at_lfs a' \<and> profile = profile'
      \<or> entry_text a profile \<noteq> entry_text a' profile' \<and> sha256 (entry_text a profile) = sha256 (entry_text a' profile')"
proof -
  have "cache_path cfg a profile = cache_path cfg a' profile' \<longleftrightarrow> entry_dir cfg a profile = entry_dir cfg a' profile'"
    using cache_path_abs [OF assms(5), of a profile] cache_path_abs [OF assms(5), of a' profile'] by metis
  also have "\<dots> \<longleftrightarrow> sha256 (entry_text a profile) = sha256 (entry_text a' profile')"
    by (simp add: entry_dir_def entry_key_def Key_eq_iff entry_text_def)
  finally have same: "cache_path cfg a profile = cache_path cfg a' profile' \<longleftrightarrow> sha256 (entry_text a profile) = sha256 (entry_text a' profile')" .
  show ?thesis
  proof (cases "entry_text a profile = entry_text a' profile'")
    case True
    then have "at_repo a = at_repo a' \<and> at_revision a = at_revision a' \<and> at_path a = at_path a'
        \<and> at_submodules a = at_submodules a' \<and> at_lfs a = at_lfs a' \<and> profile = profile'"
      using parsed_line_free [OF assms(1)] parsed_line_free [OF assms(2)] assms(3,4) unfolding entry_text_def by (intro key_bytes_mount) simp_all
    then show ?thesis using True same by simp
  next
    case False
    then show ?thesis using same by (auto simp: entry_text_def)
  qed
qed

theorem cache_entries_separate_witness:
  "cache_path (plugin_config ''/cache'') example_attributes ''reader'' = cache_path (plugin_config ''/cache'') (example_attributes\<lparr>at_depth := 7\<rparr>) ''reader''"
proof -
  have "Parse (example_raw(''depth'' \<mapsto> ''7'')) = Inr (example_attributes\<lparr>at_depth := 7\<rparr>)" "line_free ''reader''" by code_simp+
  then show ?thesis
    using cache_entries_separate [OF Parse_example, of _ "example_attributes\<lparr>at_depth := 7\<rparr>" "''reader''" "''reader''", OF _ _ _ example_cache_ok] by simp
qed

section \<open>Entries that do not last\<close>

text \<open>
  C19. A mount can lose what it has just materialised. When the entry of an allowed request holds anything older than
  the maximal age after the backend is done, as the clone of a moving reference does after a day, the eviction at
  the end of the pipeline removes the whole entry, and the publication fails with \<^verbatim>\<open>Internal\<close> although the pipeline reported success.
\<close>

theorem stale_entry_unpublished:
  assumes "pl_mat pl = backend_mat e" and "lawful pl" and "cache_ok (pl_cache pl) (sy_world s)"
    and "target_ok (pl_cache pl) (sy_world s) (pv_target_path req)" and "publish_well_formed req"
    and "mount_ready pl (backend_env_ok e) ctx (pod_namespace (pv_context req)) (pv_context req) s"
    and "mounted pl ctx (pod_namespace (pv_context req)) (pv_context req) s a pol profile mr s1"
    and "stale_after pl a pol profile mr (sy_world s1)" and "NodePublishVolume pl ctx req s = (r, s')"
  shows "(\<exists>msg. r = Inl (Internal, msg)) \<and> look (sy_world s') (entry_dir (pl_cache pl) a profile) = None"
  using driver.publish_outcome [OF assms(1-4,6,9,7,5)] assms(8) by auto

definition hasty_pl :: pipeline where
  "hasty_pl = example_pl\<lparr>pl_cache := hasty_config\<rparr>"

theorem stale_entry_unpublished_witness:
  "\<exists>msg s'. NodePublishVolume hasty_pl no_ctx pod_request started_node = (Inl (Internal, msg), s')
     \<and> look (sy_world s') [''cache'', site_entry] = None"
proof -
  have pl: "pl_mat hasty_pl = goGitMaterialize None example_library" "pl_cache hasty_pl = hasty_config" "pl_iter hasty_pl = id"
    "lawful hasty_pl" "decision hasty_pl = decision example_pl"
    using example_lawful by (simp_all add: hasty_pl_def lawful_def fun_eq_iff decision_def)
  have root: "c_root hasty_config = ''/cache''" "cache_root hasty_config = [''cache'']" by code_simp+
  have comps: "clean_comps ''/cache'' = [''cache'']" by code_simp
  have ok: "cache_ok hasty_config (sy_world started_node)" "target_ok hasty_config (sy_world started_node) (pv_target_path pod_request)"
    using example_cache_ok example_target by (simp_all add: cache_ok_def target_ok_def hasty_config_def plugin_config_def)
  have path: "cache_path hasty_config a profile = cache_path (plugin_config ''/cache'') a profile" for a profile
    by (simp add: cache_path_def PathForKey_def root plugin_config_def)
  then have run_eq: "entry_run hasty_pl ctx a pol profile s = entry_run example_pl ctx a pol profile s" for ctx a pol profile s
    by (simp add: entry_run_def pl looked_up_def)
  obtain c m where run: "entry_run hasty_pl no_ctx example_attributes site_policy ''reader'' started_node = site_run c m"
    unfolding run_eq by (rule example_entry)
  let ?s1 = "snd (site_run c m)" and ?W = "cache_path (pl_cache hasty_pl) example_attributes ''reader''"
  have er: "entry_run hasty_pl no_ctx example_attributes site_policy ''reader'' started_node = (Inr site_result, ?s1)"
    using run site_run_result [of c m] by (simp add: prod_eq_iff)
  have own: "look (sy_world ?s1) (content_dir ?W @ [''.gitcontent'']) = None"
    unfolding pl path site_path using site_run_own [of c m] by (simp only: append_Cons append_Nil)
  have W: "work_ready (sy_world (looked_up hasty_pl example_attributes ''reader'' (tick started_node))) ?W"
    using cache_work_ready [of "pl_cache hasty_pl" "sy_world (tick (tick started_node))"] ok by (simp add: tick_world pl)
  have "materialized site_policy ?W site_result (sy_world ?s1)"
    using driver.mat_content [of "Go_git None example_library", OF _ W] er example_plain by (simp add: entry_run_def pl)
  then have mounted: "mounted hasty_pl no_ctx ''web'' (pv_context pod_request) started_node example_attributes site_policy ''reader'' site_result ?s1"
    using pod_request_parses(1) pl_policies_example er by (simp add: mounted_def pl)
  have ready: "mount_ready hasty_pl (backend_env_ok (Go_git None example_library)) no_ctx ''web'' (pv_context pod_request) started_node"
    using pl_policies_example pod_request_parses(1) er own example_plain by (simp add: mount_ready_def pl)
  have entry: "entry_dir hasty_config example_attributes ''reader'' = [''cache'', site_entry]"
    by (simp add: entry_dir_def root comps example_key)
  have stale: "stale_after hasty_pl example_attributes site_policy ''reader'' site_result (sy_world ?s1)"
    unfolding stale_after_def pl entry using site_stale [of c m] by (simp add: site_written_def)
  have form: "publish_well_formed pod_request" by code_simp
  obtain r s' where "NodePublishVolume hasty_pl no_ctx pod_request started_node = (r, s')" by fastforce
  then show ?thesis
    using stale_entry_unpublished [of hasty_pl "Go_git None example_library" started_node pod_request no_ctx example_attributes site_policy "''reader''" site_result ?s1 r s']
      pl ok form ready mounted stale entry pod_request_parses(2) by auto
qed

end
