(* ===== verification/Gaps.thy ===== *)
theory Gaps
  imports NodeMount
begin

text \<open>
  Runs of the code that show what the properties leave open: links that change their meaning when a tree is copied,
  and HTTP targets inside a published volume.
\<close>

section \<open>Links and the place they are checked at\<close>

definition moved_world :: world where
  "moved_world =
     example_world\<lparr>w_fs :=
       [([], EDir 493), ([''w''], EDir 493), ([''w'', ''repo''], EDir 493),
        ([''w'', ''repo'', ''.git''], EDir 493), ([''w'', ''repo'', ''.git'', ''config''], EFile ''url'' 420),
        ([''w'', ''repo'', ''l''], ELink ''../repo/.git/config''), ([''pods''], EDir 493)]\<rparr>"

text \<open>
  The git backend checks the links of a tree against the work tree it copies from, not against the content directory
  they end up in. A link that names its own work tree is accepted and copied, leads out of the content
  directory to the configuration of the clone, and makes the publication of that content fail.
\<close>

lemma link_checked_elsewhere:
  "fst (CopyContentTree ''/w/repo'' ''/w/content'' moved_world) = Inr ()
   \<and> look (snd (CopyContentTree ''/w/repo'' ''/w/content'' moved_world)) [''w'', ''content'', ''l''] = Some (ELink ''../repo/.git/config'')
   \<and> Stat ''/w/content/l'' (snd (CopyContentTree ''/w/repo'' ''/w/content'' moved_world)) = Inr (EFile ''url'' 420)
   \<and> \<not> is_ok (fst (publishReadOnly ''/w/content'' ''/pods/v'' (snd (CopyContentTree ''/w/repo'' ''/w/content'' moved_world))))"
  by (intro conjI; code_simp)

section \<open>HTTP targets\<close>

definition kubelet_world :: world where
  "kubelet_world =
     example_world\<lparr>w_fs :=
       [([], EDir 493), ([''var''], EDir 493), ([''var'', ''lib''], EDir 493), ([''var'', ''lib'', ''kubelet''], EDir 493),
        ([''var'', ''lib'', ''kubelet'', ''mount''], EDir 365), ([''var'', ''lib'', ''kubelet'', ''mount'', ''a.css''], EFile ''body'' 292)]\<rparr>"

text \<open>
  The target of an HTTP mount may be a published volume: the volume is removed, and a link to the cache, which is writable, takes its place.
\<close>

lemma http_target_replaces_volume:
  "is_ok (fst (link_target (example_pipeline offline) ''/var/lib/kubelet/mount'' ''/cache/k/content'' (node\<lparr>sy_world := kubelet_world\<rparr>)))
   \<and> look (sy_world (snd (link_target (example_pipeline offline) ''/var/lib/kubelet/mount'' ''/cache/k/content'' (node\<lparr>sy_world := kubelet_world\<rparr>))))
       [''var'', ''lib'', ''kubelet'', ''mount''] = Some (ELink ''/cache/k/content'')"
  by (intro conjI; code_simp)

end
