(* ===== verification/Spec2Isabelle.thy ===== *)
theory Spec2Isabelle
  imports PolicyEval RepoHosts Publish Metadata EvictOrder NodeGate Clones Durations Webhook Walks Lifecycle Gaps
begin

text \<open>
  A verification of the Git content CSI driver: the node plugin (\<^verbatim>\<open>src/cmd/nodeplugin\<close>) that mounts a directory
  of a Git repository as a read-only volume, the admission webhook (\<^verbatim>\<open>src/cmd/admission-webhook\<close>) that judges a
  pod before it is scheduled, and the packages below \<^verbatim>\<open>src/pkg\<close> both are built from. Every function of these files
  that takes a decision or changes state is a definition here, with the name it has in the code.

  \<^bold>\<open>The program and how its parts interact.\<close> \<^verbatim>\<open>main\<close> reads its settings, loads the policies, opens the cache,
  chooses a backend and serves one mount pipeline through two front ends, the CSI node calls over gRPC and a mount
  endpoint over HTTP. The pipeline (\<^verbatim>\<open>mountPipeline.materialize\<close>) parses the volume attributes, asks the evaluator,
  computes the cache entry from a SHA-256 key, has the backend fill the entry, adds the provenance files, links the target
  of an HTTP mount, evicts, and counts the outcome. \<^verbatim>\<open>NodePublishVolume\<close> then copies the content to the target and
  takes the write bits away. The webhook applies the same parser and evaluator to the volumes of a pod.

  \<^bold>\<open>Theories, from the bottom up.\<close>
  \<^item> The language. \<open>Prelude\<close>: Go errors as the left side of a sum, the early return as a bind, generic lemmas.
    \<open>GoStrings\<close>, \<open>GoUrl\<close>, \<open>GoGlob\<close>, \<open>GoPath\<close>: the parts of \<^verbatim>\<open>strings\<close>, \<^verbatim>\<open>strconv\<close>, \<^verbatim>\<open>net/url\<close>,
    \<^verbatim>\<open>filepath.Match\<close>, \<^verbatim>\<open>path\<close> and \<^verbatim>\<open>path/filepath\<close> the code calls, written out. \<open>Sha256\<close>: the hash of the cache keys on
    32-bit words. A Go string is a string of bytes.
  \<^item> The node. \<open>GoFs\<close>: a file system of files, directories, links and special files with modes, owners, times and a
    clock, path resolution through links, and the functions of \<^verbatim>\<open>os\<close>, \<^verbatim>\<open>WalkDir\<close> among them. \<open>FsFacts\<close>: well-formed file
    systems and what each function does at a path whose parents are directories. \<open>FsWalk\<close>: the rule for walks.
    \<open>System\<close>: file system, metrics and a log of processes and clones as one state. \<open>Metrics\<close>: \<^verbatim>\<open>pkg/observability/metrics.go\<close>.
  \<^item> Requests and policies. \<open>Volume\<close>: \<^verbatim>\<open>pkg/volume/attributes.go\<close>. \<open>Policy\<close>, \<open>Durations\<close>: \<^verbatim>\<open>pkg/policy/types.go\<close>,
    \<^verbatim>\<open>load.go\<close>. \<open>PolicyEval\<close>: \<^verbatim>\<open>pkg/policy/evaluator.go\<close>. \<open>RepoHosts\<close>: the host the policy sees in a repository name.
  \<^item> Content. \<open>MatPaths\<close>: \<^verbatim>\<open>pkg/materializer/materializer.go\<close>. \<open>CopyTree\<close>: \<^verbatim>\<open>CopyContentTree\<close> of \<^verbatim>\<open>gitbinary.go\<close> and
    \<^verbatim>\<open>fslimits.go\<close>. \<open>GitBinary\<close>, \<open>GitRuns\<close>, \<open>GitSpec\<close>: the backend of \<^verbatim>\<open>gitbinary.go\<close>, the commands it runs, the
    content it leaves. \<open>GoGit\<close>, \<open>TreeExport\<close>, \<open>GoGitSpec\<close>: the same for \<^verbatim>\<open>gogit.go\<close>. \<open>Backend\<close>: the contract
    of the Go interface \<^verbatim>\<open>materializer.Backend\<close>. \<open>Backends\<close>: the two side by side. \<open>Clones\<close>: what the go-git backend asks the network
    for, and what of it the policy decides.
  \<^item> The volume's surroundings. \<open>Cache\<close>, \<open>Eviction\<close>, \<open>EvictOrder\<close>: \<^verbatim>\<open>pkg/cache/cache.go\<close>. \<open>Metadata\<close>: \<^verbatim>\<open>pkg/metadata/write.go\<close>.
    \<open>Publish\<close>: \<^verbatim>\<open>cmd/nodeplugin/publish.go\<close>. \<open>Walks\<close>: what the five tree traversals have in common.
  \<^item> The node plugin, \<^verbatim>\<open>cmd/nodeplugin/main.go\<close>. \<open>NodePlugin\<close>: the pipeline, the CSI calls, the HTTP handler. \<open>NodeGate\<close>:
    permission, errors and metrics. \<open>NodeMount\<close>: a mount from end to end over any backend. \<open>Startup\<close>: \<^verbatim>\<open>main\<close> up to
    the listeners, with the chosen backend kept beside the pipeline so that theorems can speak of it. \<open>Driver\<close>: the volumes as an abstract map and when a mount succeeds. \<open>HttpMount\<close>: mounts over HTTP.
    \<open>Lifecycle\<close>: runs of calls in any order. \<open>NodeExample\<close>: one volume evaluated from start to publication. \<open>Gaps\<close>:
    runs that show what is not guaranteed.
  \<^item> \<open>Webhook\<close>: \<^verbatim>\<open>cmd/admission-webhook/main.go\<close>.

  \<^bold>\<open>State and operations.\<close> A Go struct is a record with its fields, the methods are functions on it; a method
  with effects takes the state (\<open>world\<close>, or \<open>sys\<close> where metrics and the log matter) and returns \<open>error + value\<close> with
  the new state, so that every error return of the code is a branch. Effects before an error stay, as they do in the
  code: a failed mount leaves what it wrote.

  \<^bold>\<open>What the lemmas show.\<close> The properties are numbered C1 to C40, each above its theorem.
  \<^item> End to end. \<open>Lifecycle\<close>: publishing refines the update of a map from targets to read-only volumes (C1); from the start of
    the plugin, through any order of calls and outside changes, a published volume stays as it was until it is unpublished or
    an HTTP mount replaces it (C2). \<open>NodeGate\<close>: nothing
    happens without permission (C3). \<open>Driver\<close>: an allowed request is mounted, with the tree that was cloned (C4). \<open>HttpMount\<close>:
    the same pipeline behind HTTP ends in a link (C5).
  \<^item> Decisions. Parsing accepts exactly the attributes of a written specification; an allowed request keeps every limit
    of its policy; the code and reason of a denial are those of the first failing check; webhook and node agree.
  \<^item> Content. Both backends deliver the tree of the requested directory within the limits and touch nothing outside
    their work directory; for the same commit they deliver the same; the commands of the git backend are
    hardened whatever git answers, and the clones of the go-git backend are listed one by one; copies, publications and metadata are specified path by path.
  \<^item> Cache. Entries are shared exactly when their keys agree; eviction removes whole entries, the oldest first, keeps to its bound, and can
    take the entry that was just filled (C19).
  \<^item> Limits of the guarantees. Where the code falls short, a theorem says for which inputs: the host of a URL with a capital
    scheme, a content directory that brings \<^verbatim>\<open>.gitcontent\<close> as a link, submodule lists without effect, revision kinds the policy does not see.
    \<open>Gaps\<close> and the end of \<open>GitRuns\<close> and \<open>Eviction\<close> evaluate single runs.
  \<^item> Conditions the theorems share, each stated where it is defined: \<open>mount_ready\<close> (what the backend needs, and a content without a \<^verbatim>\<open>.gitcontent\<close> of
    its own), \<open>target_ok\<close> (a target of the kubelet), \<open>link_place\<close> (the target of an HTTP mount, whose parents may be missing), \<open>copy_ready\<close> (the start of a copy, as
    both callers have it).

  \<^bold>\<open>Interfaces.\<close> \<open>path_jail\<close> and \<open>strict_jail\<close> (\<open>MatPaths\<close>) state what a path check promises; \<^verbatim>\<open>safeJoin\<close> and
  \<^verbatim>\<open>safeTargetPath\<close> provide them. \<open>walker\<close> (\<open>FsWalk\<close>) states what a callback of \<^verbatim>\<open>WalkDir\<close> keeps; it is interpreted by
  the copy, the count, the measure of a cache entry, and the changes of modes and owners. \<open>backend\<close>
  (\<open>Backend\<close>) states what the pipeline relies on; both backends and the one chosen by \<^verbatim>\<open>newMaterializer\<close> provide it,
  and the lemmas of \<open>NodeMount\<close>, \<open>Driver\<close>, \<open>HttpMount\<close> and \<open>Lifecycle\<close> are proved once inside it.

  \<^bold>\<open>Bounds and fuel.\<close> Sizes, counts and times are unbounded integers, except where 63 bits matter (\<open>Durations\<close>); the
  hash works on words. Path resolution follows 40 links, as Linux does, and ends by a measure. \<^verbatim>\<open>WalkDir\<close> takes one
  more step than the file system has entries when it starts; a walk visits no entry twice and its callbacks make none
  below its root, so this is enough: C40 proves for the five traversals that none runs out.

  \<^bold>\<open>Parameters and assumptions.\<close> Code outside the repository is an argument: the git program (a function from
  command and file system to result and file system; the content theorems assume that it writes only below its work
  directory and leaves no link on the requested path; \<open>GitRuns\<close> shows what happens without the second), the go-git library (a record of the functions called; assumed where needed: the names of trees and submodules are
  plain and do not clash), the regular-expression engine, the YAML and JSON decoders (their answer or their error), the
  environment, host name and process owner, the clock, the order of map iteration and the order an unstable sort leaves (both
  assumed to be permutations; only \<open>EvictOrder\<close> assumes that the sort orders by time). The targets of the kubelet are assumed to be absolute and clean, in an existing directory and away from the cache.

  \<^bold>\<open>Not modelled.\<close> \<^verbatim>\<open>net/http\<close>, gRPC, the listeners and the goroutines that run them, the JSON of answers, and the
  Prometheus exposition: calls of libraries without a decision of the driver. \<^verbatim>\<open>Probe\<close> and \<^verbatim>\<open>NodeGetCapabilities\<close> return
  empty messages. \<^verbatim>\<open>pkg/observability/events.go\<close> holds constants and a record nothing uses; the Git server below \<^verbatim>\<open>test\<close>, the
  Helm chart and the examples are not the driver. Calls are interleaved as whole calls: two mounts that work on
  the same entry at the same time, which the code does not lock against, are not described. The process runs as root, so
  permission bits refuse nothing; full disks and device errors do not occur.
\<close>

end
